(* ===== verification/GMLC_Prelude.thy ===== *)
theory GMLC_Prelude
  imports Complex_Main "HOL-Library.Word" "HOL-Library.Char_ord" "HOL-Library.List_Lexorder"
    "HOL-Library.Product_Lexorder" "HOL-Library.Sublist"
begin

text \<open>
  Shared ground of the GMLC development: the names of the machine types, the part of Go's string,
  integer and time libraries the components use, the text timestamps the SQLite layer stores and
  compares, a generic guarded table update, and the interface locales that several components
  instantiate (\<open>codec\<close>, \<open>lifecycle\<close>).

  Strings are Go strings: byte sequences, here \<^typ>\<open>string\<close>.  A \<open>float64\<close> is a rational or one of
  the three non-finite values; arithmetic on it is exact, so the rounding of \<open>math.Pow\<close> and
  \<open>math.Log\<close> is the one part of Go's arithmetic that is idealised.
\<close>

unbundle bit_operations_syntax

section \<open>Machine types\<close>

type_synonym u8 = "8 word"
type_synonym u32 = "32 word"
type_synonym bytes = "u8 list"

text \<open>Time instants and durations are nanosecond counts (\<open>time.Time\<close> in UTC, \<open>time.Duration\<close>).\<close>

type_synonym time = int
type_synonym duration = int

abbreviation second :: duration where
  "second \<equiv> 1000000000"

datatype float64 = Fin rat | PInf | NInf | NaN

text \<open>Two's complement wrap-around of a signed 64-bit result, as \<open>int64\<close> arithmetic has it.\<close>

definition swrap64 :: "int \<Rightarrow> int" where
  "swrap64 x = (x + 2 ^ 63) mod 2 ^ 64 - 2 ^ 63"

lemma swrap64_id [simp]: "- (2 ^ 63) \<le> x \<Longrightarrow> x < 2 ^ 63 \<Longrightarrow> swrap64 x = x"
  by (simp add: swrap64_def)

lemma swrap64_range: "- (2 ^ 63) \<le> swrap64 x \<and> swrap64 x < 2 ^ 63"
  using pos_mod_bound [of "2 ^ 64" "x + 2 ^ 63"] by (simp add: swrap64_def)

text \<open>Octets as numbers: masks and nibbles.\<close>

declare of_nat_unat [simp del] of_int_sint [simp del] of_int_uint [simp del]

lemma u8_lt: "unat (x :: u8) < 256"
  using unsigned_less [of x, where ?'a = nat] by simp

lemma and_0f: "unat (x AND 0x0f :: u8) = unat x mod 16"
proof -
  have "x AND 0x0f = take_bit 4 x"
    by (simp only: take_bit_eq_mask) (simp add: mask_eq_exp_minus_1)
  then have "unat (x AND 0x0f) = take_bit 4 (unat x)" by (simp only: unsigned_take_bit_eq)
  then show ?thesis by (simp add: take_bit_eq_mod)
qed

lemma and_7f: "unat (x AND 0x7f :: u8) = unat x mod 128"
proof -
  have "x AND 0x7f = take_bit 7 x"
    by (simp only: take_bit_eq_mask) (simp add: mask_eq_exp_minus_1)
  then have "unat (x AND 0x7f) = take_bit 7 (unat x)" by (simp only: unsigned_take_bit_eq)
  then show ?thesis by (simp add: take_bit_eq_mod)
qed

lemma high_nibble: "unat (drop_bit 4 (x :: u8)) = unat x div 16"
  by (simp only: unat_drop_bit_eq) (simp add: drop_bit_eq_div)

lemma nibbles_unat:
  fixes a b :: u8
  assumes "unat a < 16" and "unat b < 16"
  shows "unat (a OR push_bit 4 b) = unat a + 16 * unat b"
proof -
  have "a OR push_bit 4 b = a + push_bit 4 b"
  proof (rule disjunctive_add_eq_or [symmetric])
    have "unat (take_bit 4 a) = take_bit 4 (unat a)" by (rule unsigned_take_bit_eq)
    with assms(1) have "take_bit 4 a = a" by (simp only: word_unat_eq_iff take_bit_eq_mod) simp
    then have "\<And>n. bit a n \<Longrightarrow> n < 4" by (metis bit_take_bit_iff)
    then show "a AND push_bit 4 b = 0" by (auto simp: bit_eq_iff bit_simps) fastforce
  qed
  then show ?thesis using assms by (simp add: push_bit_eq_mult unat_word_ariths)
qed

section \<open>Go strings\<close>

text \<open>
  \<open>strings.TrimSpace\<close> removes the Unicode white space at both ends.  These are the UTF-8 encodings
  of the code points \<open>unicode.IsSpace\<close> accepts; no encoding is a proper prefix or suffix of another
  rune's encoding, so removing them bytewise is removing the runes.
\<close>

definition white_space :: "string list" where
  "white_space =
     [[CHR 0x09], [CHR 0x0A], [CHR 0x0B], [CHR 0x0C], [CHR 0x0D], [CHR 0x20],
      [CHR 0xC2, CHR 0x85], [CHR 0xC2, CHR 0xA0], [CHR 0xE1, CHR 0x9A, CHR 0x80],
      [CHR 0xE2, CHR 0x80, CHR 0x80], [CHR 0xE2, CHR 0x80, CHR 0x81],
      [CHR 0xE2, CHR 0x80, CHR 0x82], [CHR 0xE2, CHR 0x80, CHR 0x83],
      [CHR 0xE2, CHR 0x80, CHR 0x84], [CHR 0xE2, CHR 0x80, CHR 0x85],
      [CHR 0xE2, CHR 0x80, CHR 0x86], [CHR 0xE2, CHR 0x80, CHR 0x87],
      [CHR 0xE2, CHR 0x80, CHR 0x88], [CHR 0xE2, CHR 0x80, CHR 0x89],
      [CHR 0xE2, CHR 0x80, CHR 0x8A], [CHR 0xE2, CHR 0x80, CHR 0xA8],
      [CHR 0xE2, CHR 0x80, CHR 0xA9], [CHR 0xE2, CHR 0x80, CHR 0xAF],
      [CHR 0xE2, CHR 0x81, CHR 0x9F], [CHR 0xE3, CHR 0x80, CHR 0x80]]"

definition strip_left :: "string \<Rightarrow> string option" where
  "strip_left s = map_option (\<lambda>w. drop (length w) s) (find (\<lambda>w. prefix w s) white_space)"

definition strip_right :: "string \<Rightarrow> string option" where
  "strip_right s =
     map_option (\<lambda>w. take (length s - length w) s) (find (\<lambda>w. suffix w s) white_space)"

lemma white_space_nonempty: "w \<in> set white_space \<Longrightarrow> w \<noteq> []"
  by (auto simp: white_space_def)

lemma find_Some_memD: "find P xs = Some x \<Longrightarrow> x \<in> set xs \<and> P x"
  by (auto simp: find_Some_iff)

lemma strip_left_shorter: "strip_left s = Some s' \<Longrightarrow> length s' < length s"
  by (auto simp: strip_left_def prefix_def dest!: find_Some_memD white_space_nonempty)

lemma strip_right_shorter: "strip_right s = Some s' \<Longrightarrow> length s' < length s"
  by (auto simp: strip_right_def suffix_def dest!: find_Some_memD white_space_nonempty)

function trim_left :: "string \<Rightarrow> string" where
  "trim_left s = (case strip_left s of None \<Rightarrow> s | Some s' \<Rightarrow> trim_left s')"
  by pat_completeness auto
termination
  by (relation "measure length") (auto dest: strip_left_shorter)

function trim_right :: "string \<Rightarrow> string" where
  "trim_right s = (case strip_right s of None \<Rightarrow> s | Some s' \<Rightarrow> trim_right s')"
  by pat_completeness auto
termination
  by (relation "measure length") (auto dest: strip_right_shorter)

declare trim_left.simps [simp del] trim_right.simps [simp del]

definition TrimSpace :: "string \<Rightarrow> string" where
  "TrimSpace s = trim_right (trim_left s)"

definition is_digit :: "char \<Rightarrow> bool" where
  "is_digit c \<longleftrightarrow> CHR ''0'' \<le> c \<and> c \<le> CHR ''9''"

lemma is_digit_alt: "is_digit c \<longleftrightarrow> 48 \<le> (of_char c :: nat) \<and> (of_char c :: nat) \<le> 57"
  by (simp add: is_digit_def less_eq_char_def)

lemma white_space_ends_not_digit:
  "\<forall>w \<in> set white_space. \<not> is_digit (hd w) \<and> \<not> is_digit (last w)"
  by (simp add: white_space_def is_digit_alt)

lemma strip_left_digit: "is_digit c \<Longrightarrow> strip_left (c # s) = None"
  using white_space_ends_not_digit white_space_nonempty
  by (auto simp: strip_left_def find_None_iff prefix_Cons)

lemma strip_right_digit: "is_digit c \<Longrightarrow> strip_right (s @ [c]) = None"
proof -
  assume c: "is_digit c"
  have "\<not> suffix w (s @ [c])" if w: "w \<in> set white_space" for w
  proof
    assume "suffix w (s @ [c])"
    with white_space_nonempty [OF w] have "last w = c"
      by (metis last_appendR last_snoc suffix_def)
    with w c white_space_ends_not_digit show False by auto
  qed
  then show ?thesis by (auto simp: strip_right_def find_None_iff)
qed

lemma TrimSpace_Nil [simp]: "TrimSpace [] = []"
  by (simp add: TrimSpace_def trim_left.simps trim_right.simps strip_left_def strip_right_def
      white_space_def)

text \<open>A digit string has nothing to trim.\<close>

lemma TrimSpace_digits: "list_all is_digit s \<Longrightarrow> TrimSpace s = s"
proof (cases "s = []")
  case False
  assume d: "list_all is_digit s"
  from False d obtain c u where "s = c # u" "is_digit c" by (cases s) auto
  then have l: "trim_left s = s" by (simp add: trim_left.simps strip_left_digit)
  from False d obtain v e where "s = v @ [e]" "is_digit e"
    by (metis append_butlast_last_id last_in_set list_all_iff)
  then have "trim_right s = s" by (simp add: trim_right.simps strip_right_digit)
  with l show ?thesis by (simp add: TrimSpace_def)
qed simp

lemma TrimSpace_plain:
  assumes "s \<noteq> []" and "\<forall>w \<in> set white_space. hd w \<noteq> hd s \<and> last w \<noteq> last s"
  shows "TrimSpace s = s"
proof -
  have "\<not> prefix w s" "\<not> suffix w s" if w: "w \<in> set white_space" for w
    using assms w white_space_nonempty [OF w] by (auto simp: prefix_def suffix_def)
  then have "strip_left s = None" "strip_right s = None"
    by (auto simp: strip_left_def strip_right_def find_None_iff)
  then show ?thesis by (simp add: TrimSpace_def trim_left.simps trim_right.simps)
qed

text \<open>\<open>strings.ToLower\<close> on the ASCII identities and keywords it is applied to.\<close>

definition lower_char :: "char \<Rightarrow> char" where
  "lower_char c = (if CHR ''A'' \<le> c \<and> c \<le> CHR ''Z'' then char_of ((of_char c :: nat) + 32) else c)"

definition ToLower :: "string \<Rightarrow> string" where
  "ToLower s = map lower_char s"

definition TrimSuffix :: "string \<Rightarrow> string \<Rightarrow> string" where
  "TrimSuffix s suf = (if suffix suf s then take (length s - length suf) s else s)"

text \<open>Decimal text: \<open>%d\<close> and zero-padded fields, and reading digits back.\<close>

definition digit_char :: "nat \<Rightarrow> char" where
  "digit_char d = char_of (48 + d)"

definition digit_val :: "char \<Rightarrow> nat" where
  "digit_val c = of_char c - 48"

fun show_nat :: "nat \<Rightarrow> string" where
  "show_nat n = (if n < 10 then [digit_char n] else show_nat (n div 10) @ [digit_char (n mod 10)])"

declare show_nat.simps [simp del]

fun fixed_digits :: "nat \<Rightarrow> nat \<Rightarrow> string" where
  "fixed_digits 0 n = []"
| "fixed_digits (Suc k) n = fixed_digits k (n div 10) @ [digit_char (n mod 10)]"

definition digits_val :: "string \<Rightarrow> nat" where
  "digits_val s = foldl (\<lambda>v c. 10 * v + digit_val c) 0 s"

lemma digit_char_digit [simp]: "d < 10 \<Longrightarrow> is_digit (digit_char d)"
  by (simp add: is_digit_alt digit_char_def)

lemma digit_val_char [simp]: "d < 10 \<Longrightarrow> digit_val (digit_char d) = d"
  by (simp add: digit_val_def digit_char_def)

lemma digit_char_val [simp]: "is_digit c \<Longrightarrow> digit_char (digit_val c) = c"
  by (simp add: is_digit_alt digit_val_def digit_char_def)

lemma digit_val_lt [simp]: "is_digit c \<Longrightarrow> digit_val c < 10"
  by (auto simp: is_digit_alt digit_val_def)

lemma digits_val_snoc [simp]: "digits_val (s @ [c]) = 10 * digits_val s + digit_val c"
  by (simp add: digits_val_def)

lemma digits_val_Nil [simp]: "digits_val [] = 0"
  by (simp add: digits_val_def)

lemma show_nat_val [simp]: "digits_val (show_nat n) = n"
proof (induction n rule: show_nat.induct)
  case (1 n)
  show ?case
  proof (cases "n < 10")
    case True
    then show ?thesis using digits_val_snoc [of "[]"] by (simp add: show_nat.simps [of n])
  next
    case False
    with 1 show ?thesis by (simp add: show_nat.simps [of n])
  qed
qed

lemma show_nat_digits [simp]: "list_all is_digit (show_nat n)"
proof (induction n rule: show_nat.induct)
  case (1 n)
  then show ?case by (cases "n < 10") (simp_all add: show_nat.simps [of n])
qed

lemma show_nat_not_Nil [simp]: "show_nat n \<noteq> []"
  by (simp add: show_nat.simps [of n])

lemma fixed_digits_length [simp]: "length (fixed_digits k n) = k"
  by (induction k arbitrary: n) simp_all

lemma fixed_digits_digits [simp]: "list_all is_digit (fixed_digits k n)"
  by (induction k arbitrary: n) simp_all

lemma fixed_digits_val: "digits_val (fixed_digits k n) = n mod 10 ^ k"
proof (induction k arbitrary: n)
  case (Suc k)
  have "n mod 10 ^ Suc k = 10 * (n div 10 mod 10 ^ k) + n mod 10"
    using mod_mult2_eq [of n 10 "10 ^ k"] by simp
  with Suc show ?case by simp
qed simp

text \<open>
  \<open>strconv.Atoi\<close>: an optional sign and decimal digits in the range of a 64-bit \<open>int\<close>; anything else
  is an error.
\<close>

definition Atoi :: "string \<Rightarrow> int option" where
  "Atoi s =
     (let (sg, ds) = (case s of [] \<Rightarrow> (1, [])
            | c # u \<Rightarrow> if c = CHR ''-'' then (- 1, u) else if c = CHR ''+'' then (1, u) else (1, s));
          v = sg * int (digits_val ds)
      in if ds = [] \<or> \<not> list_all is_digit ds \<or> v < - (2 ^ 63) \<or> 2 ^ 63 \<le> v then None else Some v)"

section \<open>Stored timestamps\<close>

text \<open>
  The SQLite layer stores a time as the text \<open>t.UTC().Format(time.RFC3339Nano)\<close> and compares these
  texts bytewise.  The text is a date and time of fixed width followed by the fraction of the second
  without its trailing zeros and the letter Z.  The fixed-width part is represented by the second it
  names (in the years 0000 to 9999 its text order is the order of the seconds); the rest is kept as
  text, because there the text order is not the time order.
\<close>

datatype stamp = Stamp (stamp_sec: int) (stamp_rest: string)

instantiation stamp :: linorder
begin

definition less_eq_stamp :: "stamp \<Rightarrow> stamp \<Rightarrow> bool" where
  "less_eq_stamp a b \<longleftrightarrow> (stamp_sec a, stamp_rest a) \<le> (stamp_sec b, stamp_rest b)"

definition less_stamp :: "stamp \<Rightarrow> stamp \<Rightarrow> bool" where
  "less_stamp a b \<longleftrightarrow> (stamp_sec a, stamp_rest a) < (stamp_sec b, stamp_rest b)"

instance
proof
  fix a b c :: stamp
  show "(a < b) = (a \<le> b \<and> \<not> b \<le> a)" unfolding less_eq_stamp_def less_stamp_def by auto
  show "a \<le> a" unfolding less_eq_stamp_def by simp
  show "a \<le> b \<Longrightarrow> b \<le> c \<Longrightarrow> a \<le> c" unfolding less_eq_stamp_def by (rule order_trans)
  show "a \<le> b \<Longrightarrow> b \<le> a \<Longrightarrow> a = b"
    unfolding less_eq_stamp_def by (metis antisym prod.inject stamp.expand)
  show "a \<le> b \<or> b \<le> a" unfolding less_eq_stamp_def by (rule linear)
qed

end

definition frac_text :: "nat \<Rightarrow> string" where
  "frac_text ns =
     (let ds = rev (dropWhile (\<lambda>c. c = CHR ''0'') (rev (fixed_digits 9 ns)))
      in if ds = [] then ''Z'' else CHR ''.'' # ds @ ''Z'')"

definition utc :: "time \<Rightarrow> stamp" where
  "utc t = Stamp (t div second) (frac_text (nat (t mod second)))"

definition frac_val :: "string \<Rightarrow> nat" where
  "frac_val r = (let ds = butlast (tl r) in digits_val ds * 10 ^ (9 - length ds))"

definition parseTime :: "stamp \<Rightarrow> time" where
  "parseTime s = stamp_sec s * second + (if stamp_rest s = ''Z'' then 0 else int (frac_val (stamp_rest s)))"

lemma digits_val_append_zeros:
  "list_all (\<lambda>c. c = CHR ''0'') zs \<Longrightarrow> digits_val (ds @ zs) = digits_val ds * 10 ^ length zs"
proof (induction zs rule: rev_induct)
  case (snoc z zs)
  then show ?case
    using digits_val_snoc [of "ds @ zs" z] by (simp add: digit_val_def)
qed simp

lemma strip_zeros_val:
  assumes "ds = rev (dropWhile (\<lambda>c. c = CHR ''0'') (rev s))"
  shows "digits_val s = digits_val ds * 10 ^ (length s - length ds)"
proof -
  let ?z = "rev (takeWhile (\<lambda>c. c = CHR ''0'') (rev s))"
  have s: "s = ds @ ?z" using assms
    by (metis rev_append rev_rev_ident takeWhile_dropWhile_id)
  have "list_all (\<lambda>c. c = CHR ''0'') ?z"
    by (auto simp: list_all_iff dest: set_takeWhileD)
  then have "digits_val (ds @ ?z) = digits_val ds * 10 ^ length ?z"
    by (rule digits_val_append_zeros)
  moreover have "length ?z = length s - length ds" by (subst (2) s) simp
  ultimately show ?thesis using s by metis
qed

lemma frac_text_val:
  assumes "n < 1000000000"
  shows "(if frac_text n = ''Z'' then 0 else frac_val (frac_text n)) = n"
proof -
  define ds where "ds = rev (dropWhile (\<lambda>c. c = CHR ''0'') (rev (fixed_digits 9 n)))"
  have v: "n = digits_val ds * 10 ^ (9 - length ds)"
    using strip_zeros_val [OF ds_def] assms by (simp add: fixed_digits_val)
  have f: "frac_text n = (if ds = [] then ''Z'' else CHR ''.'' # ds @ ''Z'')"
    unfolding frac_text_def ds_def Let_def by (rule refl)
  show ?thesis
    unfolding f using v by (cases "ds = []") (simp_all add: frac_val_def)
qed

lemma parseTime_utc [simp]: "parseTime (utc t) = t"
proof -
  have "nat (t mod second) < 1000000000" by (simp add: nat_less_iff)
  then have "int (if frac_text (nat (t mod second)) = ''Z'' then 0
      else frac_val (frac_text (nat (t mod second)))) = t mod second"
    by (simp only: frac_text_val)
  moreover have "parseTime (utc t) = t div second * second +
      int (if frac_text (nat (t mod second)) = ''Z'' then 0
           else frac_val (frac_text (nat (t mod second))))"
    by (simp add: parseTime_def utc_def)
  ultimately show ?thesis by (simp only: div_mult_mod_eq)
qed

text \<open>Across a second boundary the text order is the time order; within a second it need not be.\<close>

lemma utc_less_seconds: "t div second < u div second \<Longrightarrow> utc t < utc u"
  by (simp add: less_stamp_def utc_def)

lemma utc_le_seconds: "utc t \<le> utc u \<Longrightarrow> t div second \<le> u div second"
  by (auto simp: less_eq_stamp_def utc_def)

lemma stamp_le_seconds: "a \<le> b \<Longrightarrow> stamp_sec a \<le> stamp_sec b"
  by (auto simp: less_eq_stamp_def)

lemma stamp_sec_utc: "stamp_sec (utc t) = t div second"
  by (simp add: utc_def)

lemma utc_inj: "utc t = utc u \<Longrightarrow> t = u"
  by (metis parseTime_utc)

section \<open>Tables\<close>

text \<open>
  A table is the list of its rows.  \<open>UPDATE t SET f WHERE P\<close> is \<open>update_where\<close>, its \<open>RowsAffected\<close>
  count the number of rows that satisfied \<open>P\<close>, and \<open>SELECT .. ORDER BY k LIMIT 1\<close> is \<open>first_by\<close>.
\<close>

definition update_where :: "('r \<Rightarrow> bool) \<Rightarrow> ('r \<Rightarrow> 'r) \<Rightarrow> 'r list \<Rightarrow> 'r list" where
  "update_where P f rows = map (\<lambda>r. if P r then f r else r) rows"

definition RowsAffected :: "('r \<Rightarrow> bool) \<Rightarrow> 'r list \<Rightarrow> nat" where
  "RowsAffected P rows = length (filter P rows)"

fun first_by :: "('r \<Rightarrow> 'k::linorder) \<Rightarrow> 'r list \<Rightarrow> 'r option" where
  "first_by k [] = None"
| "first_by k (r # rs) =
     (case first_by k rs of None \<Rightarrow> Some r | Some q \<Rightarrow> if k r \<le> k q then Some r else Some q)"

lemma first_by_None [simp]: "first_by k rs = None \<longleftrightarrow> rs = []"
  by (cases rs) (auto split: option.splits)

lemma first_by_Some: "first_by k rs = Some r \<Longrightarrow> r \<in> set rs \<and> (\<forall>q \<in> set rs. k r \<le> k q)"
proof (induction rs arbitrary: r)
  case (Cons x xs)
  show ?case
  proof (cases "first_by k xs")
    case None
    with Cons.prems show ?thesis by auto
  next
    case (Some q)
    with Cons.IH have "q \<in> set xs" "\<forall>y \<in> set xs. k q \<le> k y" by auto
    with Some Cons.prems show ?thesis by (auto split: if_splits intro: order_trans)
  qed
qed simp

text \<open>The primary key of a table is distinct in its rows; \<open>row_by\<close> is the lookup by key.\<close>

definition row_by :: "('r \<Rightarrow> 'k) \<Rightarrow> 'k \<Rightarrow> 'r list \<Rightarrow> 'r option" where
  "row_by key i rows = find (\<lambda>r. key r = i) rows"

definition key_unique :: "('r \<Rightarrow> 'k) \<Rightarrow> 'r list \<Rightarrow> bool" where
  "key_unique key rows \<longleftrightarrow> distinct (map key rows)"

lemma key_unique_Cons:
  "key_unique key (x # xs) \<longleftrightarrow> (\<forall>y \<in> set xs. key y \<noteq> key x) \<and> key_unique key xs"
  by (auto simp: key_unique_def image_iff)

text \<open>Replacing the row of a key by a smaller one lowers the sum over the table.\<close>

lemma replaced_less:
  assumes "key_unique key rows" and "q \<in> set rows" and "key q' = key q" and "(f q' :: nat) < f q"
  shows "(\<Sum>p \<leftarrow> map (\<lambda>p. if key p = key q' then q' else p) rows. f p) < (\<Sum>p \<leftarrow> rows. f p)"
  using assms(1,2)
proof (induction rows)
  case (Cons p rows)
  show ?case
  proof (cases "p = q")
    case True
    have "map (\<lambda>p. if key p = key q' then q' else p) rows = rows"
      using Cons.prems(1) True assms(3) by (auto simp: key_unique_Cons intro: map_idI)
    with True assms(3,4) show ?thesis by (simp add: comp_def)
  next
    case False
    with Cons.prems have "key p \<noteq> key q" by (auto simp: key_unique_Cons)
    with Cons False assms(3) show ?thesis by (simp add: key_unique_Cons)
  qed
qed simp

lemma row_by_Some: "row_by key i rows = Some r \<Longrightarrow> r \<in> set rows \<and> key r = i"
  by (auto simp: row_by_def dest: find_Some_memD)

lemma row_by_None: "row_by key i rows = None \<longleftrightarrow> i \<notin> key ` set rows"
  by (auto simp: row_by_def find_None_iff)

lemma row_by_unique: "key_unique key rows \<Longrightarrow> r \<in> set rows \<Longrightarrow> row_by key (key r) rows = Some r"
  by (induction rows) (force simp: row_by_def key_unique_def)+

lemma row_by_append:
  "row_by key i (rows @ [r]) =
     (case row_by key i rows of Some q \<Rightarrow> Some q | None \<Rightarrow> if key r = i then Some r else None)"
  by (induction rows) (auto simp: row_by_def split: option.splits)

lemma key_unique_append:
  "key_unique key rows \<Longrightarrow> row_by key (key r) rows = None \<Longrightarrow> key_unique key (rows @ [r])"
  by (auto simp: key_unique_def row_by_None)

lemma key_unique_filter: "key_unique key rows \<Longrightarrow> key_unique key (filter P rows)"
  by (simp add: key_unique_def distinct_map_filter)

lemma row_by_filter:
  "key_unique key rows \<Longrightarrow>
   row_by key i (filter P rows) = (case row_by key i rows of None \<Rightarrow> None | Some r \<Rightarrow> if P r then Some r else None)"
proof (induction rows)
  case (Cons x xs)
  then have "\<forall>y \<in> set xs. key y \<noteq> key x" and "key_unique key xs"
    by (simp_all add: key_unique_Cons)
  with Cons.IH show ?case
    by (auto simp: row_by_def find_None_iff split: option.splits dest!: find_Some_memD)
qed (simp add: row_by_def)

lemma affected_iff:
  assumes "key_unique key rows"
  shows "RowsAffected (\<lambda>r. key r = i \<and> Q r) rows =
    (case row_by key i rows of Some r \<Rightarrow> if Q r then 1 else 0 | None \<Rightarrow> 0)"
  using assms
proof (induction rows)
  case (Cons x xs)
  have "filter (\<lambda>r. key r = i \<and> Q r) xs = []" if "key x = i"
    using that Cons.prems by (auto simp: key_unique_Cons filter_empty_conv)
  with Cons show ?case by (auto simp: key_unique_Cons RowsAffected_def row_by_def)
qed (simp add: RowsAffected_def row_by_def)

text \<open>
  A \<open>SET\<close> clause that does not write the key column.  Every guarded update of the storage layer
  interprets this locale, and is reasoned about through its lemmas.
\<close>

locale keyed_update =
  fixes key :: "'r \<Rightarrow> 'k" and f :: "'r \<Rightarrow> 'r"
  assumes key_kept: "key (f r) = key r"
begin

lemma unique_kept: "key_unique key rows \<Longrightarrow> key_unique key (update_where P f rows)"
  by (simp add: key_unique_def update_where_def comp_def key_kept if_distrib cong: if_cong)

lemma row_after:
  "row_by key i (update_where P f rows) = map_option (\<lambda>r. if P r then f r else r) (row_by key i rows)"
  by (induction rows) (auto simp: row_by_def update_where_def key_kept)

lemma keys_kept: "key ` set (update_where P f rows) = key ` set rows"
proof -
  have "map key (update_where P f rows) = map key rows"
    by (simp add: update_where_def key_kept)
  then show ?thesis by (metis list.set_map)
qed

end

section \<open>Interfaces shared by several components\<close>

text \<open>An encoder with a decoder that reads back what it wrote, on the values that may be written.\<close>

locale codec =
  fixes enc :: "'a \<Rightarrow> 'b" and dec :: "'b \<Rightarrow> 'a option" and ok :: "'a \<Rightarrow> bool"
  assumes dec_enc: "ok x \<Longrightarrow> dec (enc x) = Some x"
begin

lemma enc_inj: "ok x \<Longrightarrow> ok y \<Longrightarrow> enc x = enc y \<Longrightarrow> x = y"
  by (metis dec_enc option.inject)

lemma dec_total: "ok x \<Longrightarrow> \<exists>y. dec (enc x) = Some y"
  by (simp add: dec_enc)

end

interpretation stamp_codec: codec utc "\<lambda>s. Some (parseTime s)" "\<lambda>_. True"
  by unfold_locales simp

text \<open>A state machine in which the terminal states have no successor.\<close>

locale lifecycle =
  fixes can :: "'s \<Rightarrow> 's \<Rightarrow> bool" and terminal :: "'s \<Rightarrow> bool"
  assumes terminal_stuck: "terminal s \<Longrightarrow> \<not> can s t"
    and can_irrefl: "\<not> can s s"
begin

lemma terminal_final: "can\<^sup>*\<^sup>* s t \<Longrightarrow> terminal s \<Longrightarrow> t = s"
  by (induction rule: converse_rtranclp_induct) (auto dest: terminal_stuck)

lemma terminal_reflcl: "can\<^sup>=\<^sup>= s t \<Longrightarrow> terminal s \<Longrightarrow> t = s"
  by (auto dest: terminal_stuck)

end

end
