(* ===== verification/GMLC_Domain.thy ===== *)
theory GMLC_Domain
  imports GMLC_Prelude
begin

text \<open>
  The protocol-neutral domain package (\<open>internal/domain\<close>): the request life cycle, target identities
  and their validation, and the records the other components exchange.  The life cycle interprets
  the \<open>lifecycle\<close> interface; validation is proved independent of the iteration order of the Go map
  it ranges over.
\<close>

section \<open>Life cycle of a location request\<close>

datatype state =
    StateQueued | StateResolving | StateLocating
  | StateCompleted | StateFailed | StateCancelled | StateExpired | StateIndeterminate

definition Terminal :: "state \<Rightarrow> bool" where
  "Terminal s \<longleftrightarrow> s = StateCompleted \<or> s = StateFailed \<or> s = StateCancelled \<or> s = StateExpired
     \<or> s = StateIndeterminate"

definition CanTransition :: "state \<Rightarrow> state \<Rightarrow> bool" where
  "CanTransition from to =
     (if from = to then False
      else if Terminal from then False
      else case from of
        StateQueued \<Rightarrow> to = StateResolving \<or> to = StateCancelled \<or> to = StateExpired
          \<or> to = StateFailed \<or> to = StateIndeterminate
      | StateResolving \<Rightarrow> to = StateLocating \<or> to = StateQueued \<or> to = StateCancelled
          \<or> to = StateExpired \<or> to = StateFailed \<or> to = StateIndeterminate
      | StateLocating \<Rightarrow> to = StateCompleted \<or> to = StateQueued \<or> to = StateCancelled
          \<or> to = StateExpired \<or> to = StateFailed \<or> to = StateIndeterminate
      | _ \<Rightarrow> False)"

lemma Terminal_simps [simp]:
  "Terminal StateCompleted" "Terminal StateFailed" "Terminal StateCancelled"
  "Terminal StateExpired" "Terminal StateIndeterminate"
  "\<not> Terminal StateQueued" "\<not> Terminal StateResolving" "\<not> Terminal StateLocating"
  by (simp_all add: Terminal_def)

interpretation request_lifecycle: lifecycle CanTransition Terminal
  by unfold_locales (simp_all add: CanTransition_def)

lemma CanTransition_Completed: "CanTransition s StateCompleted \<longleftrightarrow> s = StateLocating"
  by (cases s) (simp_all add: CanTransition_def)

lemma CanTransition_Locating: "CanTransition s StateLocating \<longleftrightarrow> s = StateResolving"
  by (cases s) (simp_all add: CanTransition_def)

lemma CanTransition_Resolving: "CanTransition s StateResolving \<longleftrightarrow> s = StateQueued"
  by (cases s) (simp_all add: CanTransition_def)

lemma CanTransition_Cancelled: "CanTransition s StateCancelled \<longleftrightarrow> \<not> Terminal s"
  by (cases s) (simp_all add: CanTransition_def)

lemma CanTransition_Queued:
  "CanTransition s StateQueued \<longleftrightarrow> s = StateResolving \<or> s = StateLocating"
  by (cases s) (simp_all add: CanTransition_def)

lemma CanTransition_Failed: "CanTransition s StateFailed \<longleftrightarrow> \<not> Terminal s"
  by (cases s) (simp_all add: CanTransition_def)

text \<open>A history of a request: its successive states, each reached by a permitted transition.\<close>

fun state_path :: "state list \<Rightarrow> bool" where
  "state_path [] = True"
| "state_path [s] = True"
| "state_path (s # t # ss) = (CanTransition s t \<and> state_path (t # ss))"

lemma state_path_snoc:
  "state_path (ss @ [s, t]) \<longleftrightarrow> state_path (ss @ [s]) \<and> CanTransition s t"
  by (induction ss rule: state_path.induct) auto

section \<open>Targets\<close>

record target =
  IMSI :: string
  MSISDN :: string

datatype id_kind = Kind_IMSI | Kind_MSISDN

datatype target_error = NoIdentity | TooLong id_kind | NotDecimal id_kind

definition id_of :: "id_kind \<Rightarrow> target \<Rightarrow> string" where
  "id_of k t = (case k of Kind_IMSI \<Rightarrow> IMSI t | Kind_MSISDN \<Rightarrow> MSISDN t)"

text \<open>
  The loop over the two identities.  Go leaves the iteration order of a map open, so the order is an
  argument; the first failing check decides the error, and every error wraps \<open>ErrInvalidTarget\<close>.
\<close>

fun check_ids :: "target \<Rightarrow> id_kind list \<Rightarrow> target_error option" where
  "check_ids t [] = None"
| "check_ids t (k # ks) =
     (let v = id_of k t in
      if v \<noteq> [] \<and> length v > 15 then Some (TooLong k)
      else if v \<noteq> [] \<and> \<not> list_all is_digit v then Some (NotDecimal k)
      else check_ids t ks)"

definition Validate_in :: "id_kind list \<Rightarrow> target \<Rightarrow> target_error option" where
  "Validate_in ord t0 =
     (let t = t0\<lparr>IMSI := TrimSpace (IMSI t0), MSISDN := TrimSpace (MSISDN t0)\<rparr> in
      if IMSI t = [] \<and> MSISDN t = [] then Some NoIdentity
      else check_ids t ord)"

definition Validate :: "target \<Rightarrow> target_error option" where
  "Validate = Validate_in [Kind_IMSI, Kind_MSISDN]"

definition Value :: "target \<Rightarrow> string" where
  "Value t = (if IMSI t \<noteq> [] then IMSI t else MSISDN t)"

definition Kind :: "target \<Rightarrow> string" where
  "Kind t = (if IMSI t \<noteq> [] then ''imsi'' else ''msisdn'')"

text \<open>What validation promises: after trimming, some identity, and each at most 15 decimal digits.\<close>

definition valid_identity :: "string \<Rightarrow> bool" where
  "valid_identity s \<longleftrightarrow> length s \<le> 15 \<and> list_all is_digit s"

definition valid_target :: "target \<Rightarrow> bool" where
  "valid_target t \<longleftrightarrow>
     (TrimSpace (IMSI t) \<noteq> [] \<or> TrimSpace (MSISDN t) \<noteq> []) \<and>
     valid_identity (TrimSpace (IMSI t)) \<and> valid_identity (TrimSpace (MSISDN t))"

lemma check_ids_None:
  "check_ids t ks = None \<longleftrightarrow> (\<forall>k \<in> set ks. valid_identity (id_of k t))"
  by (induction ks) (auto simp: Let_def valid_identity_def)

lemma Validate_in_None:
  assumes "set ord = {Kind_IMSI, Kind_MSISDN}"
  shows "Validate_in ord t = None \<longleftrightarrow> valid_target t"
  using assms by (auto simp: Validate_in_def valid_target_def check_ids_None Let_def id_of_def)

lemma Validate_None: "Validate t = None \<longleftrightarrow> valid_target t"
  by (simp add: Validate_def Validate_in_None)

lemma valid_digits:
  "list_all is_digit s \<Longrightarrow> s \<noteq> [] \<Longrightarrow> length s \<le> 15 \<Longrightarrow> valid_target \<lparr>IMSI = [], MSISDN = s\<rparr>"
  by (simp add: valid_target_def TrimSpace_digits valid_identity_def)

section \<open>Requests, answers and results\<close>

definition ClientTypeEmergencyServices :: u32 where "ClientTypeEmergencyServices = 0"
definition ClientTypeValueAddedServices :: u32 where "ClientTypeValueAddedServices = 1"
definition ClientTypePLMNOperatorServices :: u32 where "ClientTypePLMNOperatorServices = 2"
definition ClientTypeLawfulIntercept :: u32 where "ClientTypeLawfulIntercept = 3"

definition LocationCurrent :: u32 where "LocationCurrent = 0"
definition LocationCurrentOrLastKnown :: u32 where "LocationCurrentOrLastKnown = 1"

definition QoSClassAssured :: u32 where "QoSClassAssured = 0"
definition QoSClassBestEffort :: u32 where "QoSClassBestEffort = 1"

definition ResponseTimeLowDelay :: u32 where "ResponseTimeLowDelay = 0"
definition ResponseTimeDelayTolerant :: u32 where "ResponseTimeDelayTolerant = 1"

definition LocationEventEmergencyCallOrigination :: u32 where "LocationEventEmergencyCallOrigination = 0"
definition LocationEventEmergencyCallRelease :: u32 where "LocationEventEmergencyCallRelease = 1"
definition LocationEventMOLR :: u32 where "LocationEventMOLR = 2"
definition LocationEventEmergencyCallHandover :: u32 where "LocationEventEmergencyCallHandover = 3"

lemmas domain_consts =
  ClientTypeEmergencyServices_def ClientTypeValueAddedServices_def
  ClientTypePLMNOperatorServices_def ClientTypeLawfulIntercept_def
  LocationCurrent_def LocationCurrentOrLastKnown_def
  QoSClassAssured_def QoSClassBestEffort_def
  ResponseTimeLowDelay_def ResponseTimeDelayTolerant_def
  LocationEventEmergencyCallOrigination_def LocationEventEmergencyCallRelease_def
  LocationEventMOLR_def LocationEventEmergencyCallHandover_def

record qos_request =
  q_Class :: "u32 option"
  q_HorizontalAccuracyMeters :: "float64 option"
  q_VerticalAccuracyMeters :: "float64 option"
  q_VerticalRequested :: bool
  q_ResponseTimeClass :: "u32 option"

record location_request =
  lr_Target :: target
  lr_LocationType :: u32
  lr_ClientType :: u32
  lr_ClientName :: string
  lr_RequestorName :: string
  lr_ServiceTypeID :: "u32 option"
  lr_Priority :: "u32 option"
  lr_VelocityRequested :: bool
  lr_QoS :: "qos_request option"
  lr_PrivacyCheck :: "u32 option"

record serving_node =
  sn_Type :: string
  sn_MMEHost :: string
  sn_MMERealm :: string
  sn_Source :: string
  sn_ResolvedAt :: time

record geographic_position =
  gp_Shape :: string
  gp_Latitude :: rat
  gp_Longitude :: rat
  gp_UncertaintyMeters :: "rat option"
  gp_SemiMajorMeters :: "rat option"
  gp_SemiMinorMeters :: "rat option"
  gp_OrientationDegrees :: "rat option"
  gp_ConfidencePercent :: "u32 option"

text \<open>The four values of \<open>PositioningResult.Kind\<close>; \<open>Kind_None\<close> is the empty string of an error result.\<close>

datatype positioning_kind =
  Kind_None | LocationEstimate | AdditionalInformation | Deferred | NoImmediateResult

record positioning_result =
  pr_Kind :: positioning_kind
  pr_RawLocationEstimate :: bytes
  pr_RawVelocityEstimate :: bytes
  pr_ECGI :: bytes
  pr_EUTRANPositioningData :: bytes
  pr_AccuracyFulfilment :: "u32 option"
  pr_AgeOfLocationEstimate :: "u32 option"
  pr_ResultCode :: u32
  pr_ExperimentalCode :: u32
  pr_Position :: "geographic_position option"

record location_report =
  rep_LocationEvent :: u32
  rep_Target :: target
  rep_ClientName :: string
  rep_LCSReferenceNumber :: "u8 option"
  rep_RawLocationEstimate :: bytes
  rep_ECGI :: bytes
  rep_RawVelocityEstimate :: bytes
  rep_EUTRANPositioningData :: bytes
  rep_AccuracyFulfilment :: "u32 option"
  rep_AgeOfLocationEstimate :: "u32 option"
  rep_Position :: "geographic_position option"

record request =
  rq_ID :: string
  rq_ClientID :: string
  rq_TargetKind :: string
  rq_TargetValue :: string
  rq_IdempotencyKey :: string
  rq_Service :: string
  rq_State :: state
  rq_FailureCode :: string
  rq_CreatedAt :: time
  rq_UpdatedAt :: time
  rq_AttemptCount :: int
  rq_NextAttemptAt :: "time option"
  rq_LocationType :: u32
  rq_Priority :: "u32 option"
  rq_QoS :: "qos_request option"
  rq_SubscriptionID :: "string option"

record loc_result =
  rs_RequestID :: string
  rs_RawGAD :: bytes
  rs_Shape :: string
  rs_CreatedAt :: time
  rs_Latitude :: "rat option"
  rs_Longitude :: "rat option"
  rs_UncertaintyMeters :: "rat option"
  rs_SemiMajorMeters :: "rat option"
  rs_SemiMinorMeters :: "rat option"
  rs_OrientationDegrees :: "rat option"
  rs_ConfidencePercent :: "u32 option"
  rs_AgeOfLocationEstimate :: "u32 option"
  rs_AccuracyFulfilment :: "u32 option"
  rs_RawVelocityEstimate :: bytes
  rs_EUTRANPositioningData :: bytes
  rs_ECGI :: bytes
  rs_Source :: string

text \<open>The zero \<open>time.Time\<close> (January 1 of year 1) and the zero \<open>domain.Result\<close>.\<close>

definition zero_time :: time where "zero_time = - 62135596800 * second"

definition no_result :: loc_result where
  "no_result = \<lparr>rs_RequestID = [], rs_RawGAD = [], rs_Shape = [], rs_CreatedAt = zero_time, rs_Latitude = None,
     rs_Longitude = None, rs_UncertaintyMeters = None, rs_SemiMajorMeters = None, rs_SemiMinorMeters = None,
     rs_OrientationDegrees = None, rs_ConfidencePercent = None, rs_AgeOfLocationEstimate = None,
     rs_AccuracyFulfilment = None, rs_RawVelocityEstimate = [], rs_EUTRANPositioningData = [], rs_ECGI = [], rs_Source = []\<rparr>"

definition ServiceImmediate :: string where "ServiceImmediate = ''immediate''"

section \<open>Properties\<close>

lemma state_path_butlast_not_terminal:
  "state_path ss \<Longrightarrow> s \<in> set (butlast ss) \<Longrightarrow> \<not> Terminal s"
  by (induction ss rule: state_path.induct)
     (auto dest: request_lifecycle.terminal_stuck split: if_splits)

lemma state_path_predecessor:
  assumes "state_path (a # ss)" and "last (a # ss) = t" and "a \<noteq> t"
    and only: "\<And>s. CanTransition s t \<Longrightarrow> s = p"
  shows "\<exists>pre. a # ss = pre @ [p, t] \<and> state_path (pre @ [p])"
proof -
  from assms(2,3) obtain us s where u: "a # ss = us @ [s, t]"
    by (metis append_Cons append_Nil append_butlast_last_id last.simps list.distinct(1)
        append_assoc)
  with assms(1) have "state_path (us @ [s])" "CanTransition s t"
    by (simp_all add: state_path_snoc)
  with only u show ?thesis by blast
qed

text \<open>
  A request history that starts queued and ends completed ends with the transitions
  queued, resolving, locating, completed, and no state before the last is terminal: completion is
  never reached by skipping the serving-node lookup or the positioning step.
\<close>

theorem completed_history:
  assumes "state_path (StateQueued # ss)" and "last (StateQueued # ss) = StateCompleted"
  shows "(\<exists>pre. StateQueued # ss = pre @ [StateQueued, StateResolving, StateLocating, StateCompleted])
    \<and> (\<forall>s \<in> set (butlast (StateQueued # ss)). \<not> Terminal s)"
proof -
  obtain p1 where p1: "StateQueued # ss = p1 @ [StateLocating, StateCompleted]"
    and s1: "state_path (p1 @ [StateLocating])"
    using state_path_predecessor [OF assms, of StateLocating] by (auto simp: CanTransition_Completed)
  then obtain q1 where q1: "p1 = StateQueued # q1" by (cases p1) auto
  with s1 obtain p2 where p2: "p1 @ [StateLocating] = p2 @ [StateResolving, StateLocating]"
    and s2: "state_path (p2 @ [StateResolving])"
    using state_path_predecessor [of StateQueued "q1 @ [StateLocating]" StateLocating StateResolving]
    by (auto simp: CanTransition_Locating)
  with q1 obtain q2 where q2: "p2 = StateQueued # q2" by (cases p2) auto
  with s2 obtain p3 where p3: "p2 @ [StateResolving] = p3 @ [StateQueued, StateResolving]"
    using state_path_predecessor [of StateQueued "q2 @ [StateResolving]" StateResolving StateQueued]
    by (auto simp: CanTransition_Resolving)
  have "StateQueued # ss = p3 @ [StateQueued, StateResolving, StateLocating, StateCompleted]"
    using p1 p2 p3 by simp
  then show ?thesis
    using state_path_butlast_not_terminal [OF assms(1)] by blast
qed

theorem completed_history_witness:
  "\<exists>pre. [StateQueued, StateResolving, StateQueued, StateResolving, StateLocating, StateCompleted] =
     pre @ [StateQueued, StateResolving, StateLocating, StateCompleted]"
  using completed_history
    [of "[StateResolving, StateQueued, StateResolving, StateLocating, StateCompleted]"]
  by (simp add: CanTransition_def)

text \<open>
  Validation of a target accepts exactly the targets that, after trimming, carry at least one
  identity and only identities of at most 15 decimal digits, whatever order Go iterates the map of
  the two identities in.
\<close>

theorem Validate_spec:
  assumes "set ord = {Kind_IMSI, Kind_MSISDN}"
  shows "Validate_in ord t = None \<longleftrightarrow> valid_target t"
  using assms by (rule Validate_in_None)

theorem Validate_spec_witness:
  "Validate_in [Kind_MSISDN, Kind_IMSI] \<lparr>IMSI = ''00101'', MSISDN = ''15551234567''\<rparr> = None
     \<longleftrightarrow> valid_target \<lparr>IMSI = ''00101'', MSISDN = ''15551234567''\<rparr>"
  by (rule Validate_spec) auto

text \<open>
  Validation trims a copy of the target, and the trimmed identities are not what later code
  reads: a target whose IMSI is blank and whose MSISDN is a number passes validation, and its kind
  and value are then those of the blank IMSI.
\<close>

theorem Validate_accepts_blank_identity:
  "let t = \<lparr>IMSI = ''  '', MSISDN = ''123''\<rparr> in
     Validate t = None \<and> Kind t = ''imsi'' \<and> Value t = ''  ''"
proof -
  have "TrimSpace ''  '' = []"
    by (simp add: TrimSpace_def trim_left.simps trim_right.simps strip_left_def strip_right_def
        white_space_def)
  moreover have "TrimSpace ''123'' = ''123''"
    by (rule TrimSpace_digits) (simp add: is_digit_alt)
  ultimately show ?thesis
    by (simp add: Validate_None valid_target_def valid_identity_def is_digit_alt Kind_def Value_def)
qed

end
