(* ===== verification/GMLC_Diam.thy ===== *)
theory GMLC_Diam
  imports GMLC_Domain
begin

text \<open>
  Diameter messages as the SLh, SLg and LRR code sees them: a header and a list of AVPs whose data
  are the go-diameter types the sources switch on.  go-diameter itself is not part of the repository:
  the three operations the sources call on a message are the fields of \<open>diam_lib\<close>, an argument of
  every definition that uses them, and \<open>diam_lib_ok\<close> states the documented behaviour of that library
  (RFC 6733 headers, AVPs appended in order, an answer that echoes the header of its request).
\<close>

section \<open>Messages\<close>

datatype avp = AVP (avp_code: u32) (avp_flags: u8) (avp_vendor: u32) (avp_data: avp_data)
  and avp_data =
    UTF8String string
  | DiameterIdentity string
  | Enumerated u32
  | Unsigned32 u32
  | OctetString bytes
  | GroupedAVP "avp list"
  | OtherData

record header =
  CommandFlags :: u8
  CommandCode :: u32
  ApplicationID :: u32
  HopByHopID :: u32
  EndToEndID :: u32

record message =
  Header :: header
  AVPs :: "avp list"

text \<open>Flag bits, result codes and base AVP codes (RFC 6733, and the dictionaries of the sources).\<close>

definition RequestFlag :: u8 where "RequestFlag = 0x80"
definition ProxiableFlag :: u8 where "ProxiableFlag = 0x40"
definition Mbit :: u8 where "Mbit = 0x40"
definition Vbit :: u8 where "Vbit = 0x80"
definition Success :: u32 where "Success = 2001"
definition UnableToComply :: u32 where "UnableToComply = 5012"

definition avp_UserName :: u32 where "avp_UserName = 1"
definition avp_SessionID :: u32 where "avp_SessionID = 263"
definition avp_OriginHost :: u32 where "avp_OriginHost = 264"
definition avp_ResultCode :: u32 where "avp_ResultCode = 268"
definition avp_AuthSessionState :: u32 where "avp_AuthSessionState = 277"
definition avp_DestinationRealm :: u32 where "avp_DestinationRealm = 283"
definition avp_DestinationHost :: u32 where "avp_DestinationHost = 293"
definition avp_OriginRealm :: u32 where "avp_OriginRealm = 296"
definition avp_ExperimentalResult :: u32 where "avp_ExperimentalResult = 297"
definition avp_ExperimentalResultCode :: u32 where "avp_ExperimentalResultCode = 298"
definition avp_LCSClientType :: u32 where "avp_LCSClientType = 1241"
definition avp_LocationEstimate :: u32 where "avp_LocationEstimate = 1242"
definition Vendor3GPP :: u32 where "Vendor3GPP = 10415"

lemmas diam_consts =
  RequestFlag_def ProxiableFlag_def Mbit_def Vbit_def Success_def UnableToComply_def
  avp_UserName_def avp_SessionID_def avp_OriginHost_def avp_ResultCode_def
  avp_AuthSessionState_def avp_DestinationRealm_def avp_DestinationHost_def avp_OriginRealm_def
  avp_ExperimentalResult_def avp_ExperimentalResultCode_def avp_LCSClientType_def
  avp_LocationEstimate_def Vendor3GPP_def

definition is_request :: "message \<Rightarrow> bool" where
  "is_request m \<longleftrightarrow> CommandFlags (Header m) AND RequestFlag \<noteq> 0"

lemma is_request_AVPs [simp]: "is_request (m\<lparr>AVPs := as\<rparr>) = is_request m"
  by (simp add: is_request_def)

definition with_code :: "u32 \<Rightarrow> u32 \<Rightarrow> avp list \<Rightarrow> avp list" where
  "with_code c v as = filter (\<lambda>a. avp_code a = c \<and> avp_vendor a = v) as"

lemma with_code_append [simp]: "with_code c v (xs @ ys) = with_code c v xs @ with_code c v ys"
  by (simp add: with_code_def)

lemma with_code_Nil [simp]: "with_code c v [] = []"
  by (simp add: with_code_def)

lemma with_code_Cons [simp]:
  "with_code c v (AVP c' fl v' d # as) = (if c' = c \<and> v' = v then [AVP c' fl v' d] else []) @ with_code c v as"
  by (simp add: with_code_def)

section \<open>The go-diameter interface\<close>

record diam_lib =
  NewRequest :: "u32 \<Rightarrow> u32 \<Rightarrow> message"
  NewAVP :: "message \<Rightarrow> avp \<Rightarrow> message"
  Answer :: "message \<Rightarrow> u32 \<Rightarrow> message"

definition diam_lib_ok :: "diam_lib \<Rightarrow> bool" where
  "diam_lib_ok lib \<longleftrightarrow>
     (\<forall>cmd app. CommandCode (Header (NewRequest lib cmd app)) = cmd
        \<and> ApplicationID (Header (NewRequest lib cmd app)) = app
        \<and> is_request (NewRequest lib cmd app) \<and> AVPs (NewRequest lib cmd app) = [])
     \<and> (\<forall>m a. NewAVP lib m a = m\<lparr>AVPs := AVPs m @ [a]\<rparr>)
     \<and> (\<forall>m rc. Header (Answer lib m rc) = (Header m)\<lparr>CommandFlags := CommandFlags (Header m) AND NOT RequestFlag\<rparr>
        \<and> AVPs (Answer lib m rc) = [AVP avp_ResultCode Mbit 0 (Unsigned32 rc)])"

definition add_avps :: "diam_lib \<Rightarrow> message \<Rightarrow> avp list \<Rightarrow> message" where
  "add_avps lib m as = foldl (NewAVP lib) m as"

lemma add_avps_AVPs: "diam_lib_ok lib \<Longrightarrow> add_avps lib m as = m\<lparr>AVPs := AVPs m @ as\<rparr>"
  by (induction as arbitrary: m) (simp_all add: add_avps_def diam_lib_ok_def)

lemma NewRequest_ok:
  assumes "diam_lib_ok lib"
  shows "CommandCode (Header (NewRequest lib cmd app)) = cmd"
    and "ApplicationID (Header (NewRequest lib cmd app)) = app"
    and "is_request (NewRequest lib cmd app)"
    and "AVPs (NewRequest lib cmd app) = []"
  using assms by (simp_all add: diam_lib_ok_def)

text \<open>A library with this behaviour, for the witnesses: every identifier is zero.\<close>

definition sample_lib :: diam_lib where
  "sample_lib = \<lparr>
     NewRequest = (\<lambda>cmd app. \<lparr>Header = \<lparr>CommandFlags = RequestFlag, CommandCode = cmd,
       ApplicationID = app, HopByHopID = 0, EndToEndID = 0\<rparr>, AVPs = []\<rparr>),
     NewAVP = (\<lambda>m a. m\<lparr>AVPs := AVPs m @ [a]\<rparr>),
     Answer = (\<lambda>m rc. \<lparr>Header = (Header m)\<lparr>CommandFlags := CommandFlags (Header m) AND NOT RequestFlag\<rparr>,
       AVPs = [AVP avp_ResultCode Mbit 0 (Unsigned32 rc)]\<rparr>)\<rparr>"

lemma sample_lib_ok: "diam_lib_ok sample_lib"
  by (simp add: diam_lib_ok_def sample_lib_def is_request_def RequestFlag_def)

section \<open>Errors of the transport, and hexadecimal text\<close>

text \<open>
  The errors a round trip can return.  \<open>RouteUnavailable\<close> is the error \<open>PeerTable.Select\<close> formats; it
  wraps none of the sentinel errors.
\<close>

datatype transport_error =
    ErrUnavailable | ErrConnectionLost | ErrShutdown | DeadlineExceeded | Canceled
  | RouteUnavailable u32 | OtherTransportError

definition hex_digit :: "nat \<Rightarrow> char" where
  "hex_digit n = (if n < 10 then char_of (48 + n) else char_of (87 + n))"

definition EncodeToString :: "bytes \<Rightarrow> string" where
  "EncodeToString bs = concat (map (\<lambda>b. [hex_digit (unat b div 16), hex_digit (unat b mod 16)]) bs)"

end
