(* ===== verification/GMLC_Config.thy ===== *)
theory GMLC_Config
  imports GMLC_Diam
begin

text \<open>
  \<open>internal/config/config.go\<close>: the configuration, its defaults and its validation, with one error per check
  in the order of the checks, and the rejection of obsolete keys.  Reading the file and decoding YAML
  are arguments of \<open>Load\<close>.
\<close>

section \<open>Data\<close>

record mlp_reporting =
  mre_Enabled :: bool
  mre_StandardReportURL :: string
  mre_StandardReportClientID :: string
  mre_EmergencyReportURL :: string
  mre_EmergencyReportClientID :: string
  mre_Timeout :: duration

record mlp_config =
  ml_ListenAddress :: string
  ml_SyncWaitTimeout :: duration
  ml_MaxSyncWaitTimeout :: duration
  ml_ShutdownTimeout :: duration

record cfg_delivery =
  cd_Enabled :: bool
  cd_MaxAttempts :: int
  cd_RetryBackoffMin :: duration
  cd_RetryBackoffMax :: duration
  cd_RequestTimeout :: duration
  cd_EncryptionKey :: string

record cfg_logging =
  cl_File :: string
  cl_Level :: string

record diameter_peer =
  dp_Name :: string
  dp_Address :: string
  dp_Transport :: string
  dp_ExpectedOriginHost :: string
  dp_ExpectedOriginRealm :: string

record cfg_diameter =
  di_OriginHost :: string
  di_OriginRealm :: string
  di_HostIPAddress :: string
  di_HSSRealm :: string
  di_HSSHost :: string
  di_ConnectionTimeout :: duration
  di_RequestTimeout :: duration
  di_ReconnectMin :: duration
  di_ReconnectMax :: duration
  di_WatchdogInterval :: duration
  di_WatchdogTimeout :: duration
  di_ShutdownTimeout :: duration
  di_Peers :: "diameter_peer list"

record cfg_database =
  da_Path :: string
  da_BusyTimeout :: duration
  da_Synchronous :: string
  da_CheckpointPages :: int

record retention =
  re_Request :: duration
  re_Result :: duration
  re_PurgeInterval :: duration

record cfg_client =
  cc_ID :: string
  cc_BearerToken :: string
  cc_Services :: "string list"
  cc_TargetPrefixes :: "string list"
  cc_LCSClientType :: string
  cc_LCSPrivacyCheck :: string

record config =
  cf_Database :: cfg_database
  cf_Retention :: retention
  cf_Clients :: "cfg_client list"
  cf_Diameter :: cfg_diameter
  cf_Logging :: cfg_logging
  cf_Delivery :: cfg_delivery
  cf_LRR_Enabled :: bool
  cf_MLP :: mlp_config
  cf_MLPReporting :: mlp_reporting

section \<open>Named values\<close>

definition PrivacyAllowedWithoutNotification :: u32 where "PrivacyAllowedWithoutNotification = 0"
definition PrivacyAllowedWithNotification :: u32 where "PrivacyAllowedWithNotification = 1"
definition PrivacyAllowedIfNoResponse :: u32 where "PrivacyAllowedIfNoResponse = 2"
definition PrivacyRestrictedIfNoResponse :: u32 where "PrivacyRestrictedIfNoResponse = 3"
definition PrivacyNotAllowed :: u32 where "PrivacyNotAllowed = 4"

definition clientTypeValues :: "(string \<times> u32) list" where
  "clientTypeValues = [(''emergency_services'', ClientTypeEmergencyServices), (''value_added_services'', ClientTypeValueAddedServices),
     (''plmn_operator_services'', ClientTypePLMNOperatorServices), (''lawful_intercept_services'', ClientTypeLawfulIntercept)]"

definition privacyCheckValues :: "(string \<times> u32) list" where
  "privacyCheckValues = [(''allowed_without_notification'', PrivacyAllowedWithoutNotification),
     (''allowed_with_notification'', PrivacyAllowedWithNotification), (''allowed_if_no_response'', PrivacyAllowedIfNoResponse),
     (''restricted_if_no_response'', PrivacyRestrictedIfNoResponse), (''not_allowed'', PrivacyNotAllowed)]"

text \<open>A missing key of a Go map reads as zero.\<close>

definition ClientTypeValue :: "cfg_client \<Rightarrow> u32" where
  "ClientTypeValue c = (case map_of clientTypeValues (cc_LCSClientType c) of None \<Rightarrow> 0 | Some v \<Rightarrow> v)"

definition PrivacyCheckValue :: "cfg_client \<Rightarrow> u32" where
  "PrivacyCheckValue c = (case map_of privacyCheckValues (cc_LCSPrivacyCheck c) of None \<Rightarrow> 0 | Some v \<Rightarrow> v)"

text \<open>\<open>hex.DecodeString\<close>: pairs of hexadecimal digits of either case.\<close>

definition hex_value :: "char \<Rightarrow> nat option" where
  "hex_value c =
     (let n = of_char c in
      if 48 \<le> n \<and> n \<le> 57 then Some (n - 48)
      else if 97 \<le> n \<and> n \<le> 102 then Some (n - 87)
      else if 65 \<le> n \<and> n \<le> 70 then Some (n - 55)
      else None)"

fun DecodeString :: "string \<Rightarrow> bytes option" where
  "DecodeString [] = Some []"
| "DecodeString [c] = None"
| "DecodeString (c # d # s) =
     (case (hex_value c, hex_value d) of
        (Some h, Some l) \<Rightarrow> map_option (\<lambda>bs. of_nat (16 * h + l) # bs) (DecodeString s)
      | _ \<Rightarrow> None)"

datatype key_error = NotHex | WrongKeyLength nat

definition EncryptionKeyBytes :: "cfg_delivery \<Rightarrow> key_error + bytes" where
  "EncryptionKeyBytes d =
     (case DecodeString (cd_EncryptionKey d) of
        None \<Rightarrow> Inl NotHex
      | Some key \<Rightarrow> if length key \<noteq> 32 then Inl (WrongKeyLength (length key)) else Inr key)"

section \<open>Defaults\<close>

definition mlp_defaults :: "mlp_config \<Rightarrow> mlp_config" where
  "mlp_defaults m = m\<lparr>
     ml_SyncWaitTimeout := (if ml_SyncWaitTimeout m \<le> 0 then 20 * second else ml_SyncWaitTimeout m),
     ml_MaxSyncWaitTimeout := (if ml_MaxSyncWaitTimeout m \<le> 0 then 60 * second else ml_MaxSyncWaitTimeout m),
     ml_ShutdownTimeout := (if ml_ShutdownTimeout m \<le> 0 then 10 * second else ml_ShutdownTimeout m)\<rparr>"

definition client_defaults :: "cfg_client \<Rightarrow> cfg_client" where
  "client_defaults c = c\<lparr>
     cc_LCSClientType := (if cc_LCSClientType c = [] then ''value_added_services'' else cc_LCSClientType c),
     cc_LCSPrivacyCheck := (if cc_LCSPrivacyCheck c = [] then ''allowed_without_notification'' else cc_LCSPrivacyCheck c)\<rparr>"

definition delivery_defaults :: "cfg_delivery \<Rightarrow> cfg_delivery" where
  "delivery_defaults d =
     (let mn = (if cd_RetryBackoffMin d \<le> 0 then second else cd_RetryBackoffMin d) in
      d\<lparr>cd_MaxAttempts := (if cd_MaxAttempts d \<le> 0 then 5 else cd_MaxAttempts d),
        cd_RetryBackoffMin := mn,
        cd_RetryBackoffMax := (if cd_RetryBackoffMax d < mn then 300 * second else cd_RetryBackoffMax d),
        cd_RequestTimeout := (if cd_RequestTimeout d \<le> 0 then 10 * second else cd_RequestTimeout d)\<rparr>)"

definition applyDefaults :: "config \<Rightarrow> config" where
  "applyDefaults c = c\<lparr>
     cf_MLP := mlp_defaults (cf_MLP c),
     cf_MLPReporting := (let r = cf_MLPReporting c in r\<lparr>mre_Timeout := (if mre_Timeout r \<le> 0 then 10 * second else mre_Timeout r)\<rparr>),
     cf_Database := (let d = cf_Database c in
       d\<lparr>da_BusyTimeout := (if da_BusyTimeout d \<le> 0 then 5 * second else da_BusyTimeout d),
         da_Synchronous := (if da_Synchronous d = [] then ''FULL'' else da_Synchronous d)\<rparr>),
     cf_Logging := (let l = cf_Logging c in l\<lparr>cl_Level := (if cl_Level l = [] then ''info'' else cl_Level l)\<rparr>),
     cf_Retention := (let r = cf_Retention c in
       r\<lparr>re_PurgeInterval := (if re_PurgeInterval r \<le> 0 then 3600 * second else re_PurgeInterval r)\<rparr>),
     cf_Diameter := (let d = cf_Diameter c in d\<lparr>di_HSSRealm := (if di_HSSRealm d = [] then di_OriginRealm d else di_HSSRealm d)\<rparr>),
     cf_Clients := map client_defaults (cf_Clients c),
     cf_Delivery := delivery_defaults (cf_Delivery c)\<rparr>"

section \<open>Validation\<close>

datatype config_error =
    LoggingFile | LoggingLevel | ListenAddress | SyncWait | MLPShutdown
  | ReportingURL | ReportingStandard | ReportingEmergency | ReportingTimeout
  | DatabasePath | CheckpointPages | RetentionValues | NoClients | DiameterIdentityRequired | DiameterTimeouts
  | PeerIncomplete nat | DuplicatePeer string string | DuplicatePeerName string
  | ClientIdentity | ClientGrants string | ClientPrefix string | ClientType string string | ClientPrivacy string string
  | DeliveryKey key_error

definition peer_key :: "diameter_peer \<Rightarrow> string" where
  "peer_key p = ToLower (dp_Transport p) @ [CHR 0x00] @ ToLower (dp_Address p)"

text \<open>The loop over the peers, from peer \<open>i\<close> on, with the keys and names seen.\<close>

fun validate_peers :: "nat \<Rightarrow> string list \<Rightarrow> string list \<Rightarrow> diameter_peer list \<Rightarrow> config_error option" where
  "validate_peers i peers names [] = None"
| "validate_peers i peers names (p # ps) =
     (if dp_Name p = [] \<or> dp_Address p = [] \<or> (dp_Transport p \<noteq> ''tcp'' \<and> dp_Transport p \<noteq> ''sctp'') then Some (PeerIncomplete i)
      else if peer_key p \<in> set peers then Some (DuplicatePeer (dp_Transport p) (dp_Address p))
      else if ToLower (dp_Name p) \<in> set names then Some (DuplicatePeerName (dp_Name p))
      else validate_peers (i + 1) (peer_key p # peers) (ToLower (dp_Name p) # names) ps)"

text \<open>\<open>strings.Trim(p, "0123456789")\<close>\<close>

definition trim_digits :: "string \<Rightarrow> string" where
  "trim_digits p = rev (dropWhile is_digit (rev (dropWhile is_digit p)))"

fun validate_clients :: "string list \<Rightarrow> cfg_client list \<Rightarrow> config_error option" where
  "validate_clients seen [] = None"
| "validate_clients seen (v # vs) =
     (if cc_ID v = [] \<or> cc_BearerToken v = [] \<or> cc_ID v \<in> set seen then Some ClientIdentity
      else if cc_Services v = [] \<or> cc_TargetPrefixes v = [] then Some (ClientGrants (cc_ID v))
      else if \<exists>p \<in> set (cc_TargetPrefixes v). trim_digits p \<noteq> [] then Some (ClientPrefix (cc_ID v))
      else if map_of clientTypeValues (cc_LCSClientType v) = None then Some (ClientType (cc_ID v) (cc_LCSClientType v))
      else if map_of privacyCheckValues (cc_LCSPrivacyCheck v) = None then Some (ClientPrivacy (cc_ID v) (cc_LCSPrivacyCheck v))
      else validate_clients (cc_ID v # seen) vs)"

definition validate_reporting :: "mlp_reporting \<Rightarrow> config_error option" where
  "validate_reporting r =
     (if \<not> mre_Enabled r then None
      else if mre_StandardReportURL r = [] \<and> mre_EmergencyReportURL r = [] then Some ReportingURL
      else if (mre_StandardReportURL r = []) \<noteq> (mre_StandardReportClientID r = []) then Some ReportingStandard
      else if (mre_EmergencyReportURL r = []) \<noteq> (mre_EmergencyReportClientID r = []) then Some ReportingEmergency
      else if mre_Timeout r \<le> 0 then Some ReportingTimeout
      else None)"

definition validate_diameter :: "cfg_diameter \<Rightarrow> config_error option" where
  "validate_diameter d =
     (if di_OriginHost d = [] \<or> di_OriginRealm d = [] \<or> di_HostIPAddress d = [] \<or> di_Peers d = [] then Some DiameterIdentityRequired
      else if di_ConnectionTimeout d \<le> 0 \<or> di_RequestTimeout d \<le> 0 \<or> di_ReconnectMin d \<le> 0 \<or> di_ReconnectMax d < di_ReconnectMin d
        \<or> di_WatchdogInterval d \<le> 0 \<or> di_WatchdogTimeout d \<le> 0 \<or> di_ShutdownTimeout d \<le> 0 then Some DiameterTimeouts
      else validate_peers 0 [] [] (di_Peers d))"

definition config_Validate :: "config \<Rightarrow> config_error option" where
  "config_Validate c =
     (if cl_File (cf_Logging c) = [] then Some LoggingFile
      else if ToLower (cl_Level (cf_Logging c)) \<notin> {''debug'', ''info'', ''warn'', ''error''} then Some LoggingLevel
      else if ml_ListenAddress (cf_MLP c) = [] then Some ListenAddress
      else if ml_SyncWaitTimeout (cf_MLP c) \<le> 0 \<or> ml_MaxSyncWaitTimeout (cf_MLP c) \<le> 0
        \<or> ml_SyncWaitTimeout (cf_MLP c) > ml_MaxSyncWaitTimeout (cf_MLP c) then Some SyncWait
      else if ml_ShutdownTimeout (cf_MLP c) \<le> 0 then Some MLPShutdown
      else case validate_reporting (cf_MLPReporting c) of Some e \<Rightarrow> Some e
      | None \<Rightarrow>
      (if da_Path (cf_Database c) = [] then Some DatabasePath
       else if da_CheckpointPages (cf_Database c) \<le> 0 then Some CheckpointPages
       else if re_Request (cf_Retention c) \<le> 0 \<or> re_Result (cf_Retention c) \<le> 0 then Some RetentionValues
       else if cf_Clients c = [] then Some NoClients
       else case validate_diameter (cf_Diameter c) of Some e \<Rightarrow> Some e
       | None \<Rightarrow>
      (case validate_clients [] (cf_Clients c) of Some e \<Rightarrow> Some e
       | None \<Rightarrow>
          (if cd_Enabled (cf_Delivery c) then
             (case EncryptionKeyBytes (cf_Delivery c) of Inl e \<Rightarrow> Some (DeliveryKey e) | Inr _ \<Rightarrow> None)
           else None))))"

section \<open>Loading\<close>

text \<open>A node of the YAML tree; the content of a mapping alternates between keys and values.\<close>

datatype yaml_node = Node (y_mapping: bool) (y_Value: string) (y_Content: "yaml_node list")

definition forbidden :: "string list" where
  "forbidden = [''enabled'', ''mode'', ''dra'', ''direct'', ''product_name'', ''vendor_id'', ''peer_mode'', ''peer_address'',
     ''peer_port'', ''transport'', ''destination_host'', ''destination_realm'', ''hss'', ''mme'', ''mmes'', ''slh'', ''slg'']"

datatype load_error = ReadError | YamlError | Obsolete string | IndexPanic | Invalid config_error

fun every_second :: "'a list \<Rightarrow> 'a list" where
  "every_second [] = []"
| "every_second [x] = [x]"
| "every_second (x # _ # xs) = x # every_second xs"

fun reject_loop :: "yaml_node list \<Rightarrow> load_error option" where
  "reject_loop [] = None"
| "reject_loop [k] = (if y_Value k = ''diameter'' then Some IndexPanic else None)"
| "reject_loop (k # d # ns) =
     (if y_Value k \<noteq> ''diameter'' then reject_loop ns
      else if \<not> y_mapping d then None
      else case find (\<lambda>n. y_Value n \<in> set forbidden) (every_second (y_Content d)) of
        Some n \<Rightarrow> Some (Obsolete (y_Value n))
      | None \<Rightarrow> reject_loop ns)"

definition rejectObsoleteDiameterKeys :: "yaml_node option \<Rightarrow> load_error option" where
  "rejectObsoleteDiameterKeys doc =
     (case doc of
        None \<Rightarrow> Some YamlError
      | Some doc \<Rightarrow>
          (case y_Content doc of
             [] \<Rightarrow> None
           | n # _ \<Rightarrow> if \<not> y_mapping n then None else reject_loop (y_Content n)))"

definition Load :: "bytes option \<Rightarrow> (bytes \<Rightarrow> yaml_node option) \<Rightarrow> (bytes \<Rightarrow> config option) \<Rightarrow> load_error + config" where
  "Load file unmarshal decode =
     (case file of
        None \<Rightarrow> Inl ReadError
      | Some b \<Rightarrow>
     (case rejectObsoleteDiameterKeys (unmarshal b) of
        Some e \<Rightarrow> Inl e
      | None \<Rightarrow>
     (case decode b of
        None \<Rightarrow> Inl YamlError
      | Some c \<Rightarrow>
          (let c = applyDefaults c in
           case config_Validate c of Some e \<Rightarrow> Inl (Invalid e) | None \<Rightarrow> Inr c))))"

section \<open>What a valid configuration is\<close>

definition peer_ok :: "diameter_peer \<Rightarrow> bool" where
  "peer_ok p \<longleftrightarrow> dp_Name p \<noteq> [] \<and> dp_Address p \<noteq> [] \<and> (dp_Transport p = ''tcp'' \<or> dp_Transport p = ''sctp'')"

definition diameter_ok :: "cfg_diameter \<Rightarrow> bool" where
  "diameter_ok d \<longleftrightarrow> di_OriginHost d \<noteq> [] \<and> di_OriginRealm d \<noteq> [] \<and> di_HostIPAddress d \<noteq> [] \<and> di_Peers d \<noteq> []
     \<and> 0 < di_ConnectionTimeout d \<and> 0 < di_RequestTimeout d \<and> 0 < di_ReconnectMin d \<and> di_ReconnectMin d \<le> di_ReconnectMax d
     \<and> 0 < di_WatchdogInterval d \<and> 0 < di_WatchdogTimeout d \<and> 0 < di_ShutdownTimeout d
     \<and> (\<forall>p \<in> set (di_Peers d). peer_ok p) \<and> distinct (map peer_key (di_Peers d))
     \<and> distinct (map (ToLower \<circ> dp_Name) (di_Peers d))"

definition client_ok :: "cfg_client \<Rightarrow> bool" where
  "client_ok v \<longleftrightarrow> cc_ID v \<noteq> [] \<and> cc_BearerToken v \<noteq> [] \<and> cc_Services v \<noteq> [] \<and> cc_TargetPrefixes v \<noteq> []
     \<and> (\<forall>p \<in> set (cc_TargetPrefixes v). list_all is_digit p)
     \<and> cc_LCSClientType v \<in> fst ` set clientTypeValues \<and> cc_LCSPrivacyCheck v \<in> fst ` set privacyCheckValues"

definition reporting_ok :: "mlp_reporting \<Rightarrow> bool" where
  "reporting_ok r \<longleftrightarrow> mre_Enabled r \<longrightarrow> (mre_StandardReportURL r \<noteq> [] \<or> mre_EmergencyReportURL r \<noteq> [])
     \<and> (mre_StandardReportURL r = [] \<longleftrightarrow> mre_StandardReportClientID r = [])
     \<and> (mre_EmergencyReportURL r = [] \<longleftrightarrow> mre_EmergencyReportClientID r = []) \<and> 0 < mre_Timeout r"

definition config_ok :: "config \<Rightarrow> bool" where
  "config_ok c \<longleftrightarrow>
     cl_File (cf_Logging c) \<noteq> [] \<and> ToLower (cl_Level (cf_Logging c)) \<in> {''debug'', ''info'', ''warn'', ''error''}
     \<and> ml_ListenAddress (cf_MLP c) \<noteq> [] \<and> 0 < ml_SyncWaitTimeout (cf_MLP c)
     \<and> ml_SyncWaitTimeout (cf_MLP c) \<le> ml_MaxSyncWaitTimeout (cf_MLP c) \<and> 0 < ml_ShutdownTimeout (cf_MLP c)
     \<and> reporting_ok (cf_MLPReporting c)
     \<and> da_Path (cf_Database c) \<noteq> [] \<and> 0 < da_CheckpointPages (cf_Database c)
     \<and> 0 < re_Request (cf_Retention c) \<and> 0 < re_Result (cf_Retention c)
     \<and> diameter_ok (cf_Diameter c)
     \<and> cf_Clients c \<noteq> [] \<and> (\<forall>v \<in> set (cf_Clients c). client_ok v) \<and> distinct (map cc_ID (cf_Clients c))
     \<and> (cd_Enabled (cf_Delivery c) \<longrightarrow> \<not> isl (EncryptionKeyBytes (cf_Delivery c)))"

lemma validate_peers_None:
  "validate_peers i peers names ps = None \<longleftrightarrow>
     (\<forall>p \<in> set ps. peer_ok p) \<and> distinct (map peer_key ps) \<and> peer_key ` set ps \<inter> set peers = {}
     \<and> distinct (map (ToLower \<circ> dp_Name) ps) \<and> (ToLower \<circ> dp_Name) ` set ps \<inter> set names = {}"
  by (induction i peers names ps rule: validate_peers.induct) (auto simp: peer_ok_def)

lemma dropWhile_digits_Nil: "trim_digits p = [] \<longleftrightarrow> list_all is_digit p"
proof -
  have "trim_digits p = [] \<longleftrightarrow> (\<forall>c \<in> set (dropWhile is_digit p). is_digit c)"
    by (auto simp: trim_digits_def dropWhile_eq_Nil_conv)
  also have "\<dots> \<longleftrightarrow> dropWhile is_digit p = []"
  proof
    assume a: "\<forall>c \<in> set (dropWhile is_digit p). is_digit c"
    show "dropWhile is_digit p = []"
    proof (rule ccontr)
      assume "dropWhile is_digit p \<noteq> []"
      with hd_dropWhile [of is_digit p] a hd_in_set show False by blast
    qed
  qed (metis empty_iff list.set(1))
  finally show ?thesis by (simp add: dropWhile_eq_Nil_conv list_all_iff)
qed

lemma map_of_None: "map_of kvs k = None \<longleftrightarrow> k \<notin> fst ` set kvs"
  by (induction kvs) auto

lemma validate_clients_None:
  "validate_clients seen vs = None \<longleftrightarrow> (\<forall>v \<in> set vs. client_ok v) \<and> distinct (map cc_ID vs) \<and> cc_ID ` set vs \<inter> set seen = {}"
proof (induction seen vs rule: validate_clients.induct)
  case (2 seen v vs)
  show ?case
  proof (cases "client_ok v \<and> cc_ID v \<notin> set seen")
    case True
    then have "validate_clients seen (v # vs) = validate_clients (cc_ID v # seen) vs"
      by (simp add: client_ok_def dropWhile_digits_Nil map_of_None)
    with 2 True show ?thesis by (auto simp: client_ok_def dropWhile_digits_Nil map_of_None)
  next
    case False
    then have "validate_clients seen (v # vs) \<noteq> None"
      by (auto simp: client_ok_def dropWhile_digits_Nil map_of_None)
    with False show ?thesis by auto
  qed
qed simp

lemma validate_reporting_None: "validate_reporting r = None \<longleftrightarrow> reporting_ok r"
  by (auto simp: validate_reporting_def reporting_ok_def)

lemma validate_diameter_None: "validate_diameter d = None \<longleftrightarrow> diameter_ok d"
  unfolding validate_diameter_def diameter_ok_def by (auto simp: validate_peers_None)

lemma config_Validate_None: "config_Validate c = None \<longleftrightarrow> config_ok c"
proof -
  have k: "(case EncryptionKeyBytes d of Inl e \<Rightarrow> Some (DeliveryKey e) | Inr _ \<Rightarrow> None) = None \<longleftrightarrow> \<not> isl (EncryptionKeyBytes d)" for d
    by (cases "EncryptionKeyBytes d") simp_all
  have o: "(case x of Some e \<Rightarrow> Some e | None \<Rightarrow> y) = None \<longleftrightarrow> x = None \<and> y = None" for x y :: "config_error option"
    by (cases x) simp_all
  have i: "(if b then Some e else y) = None \<longleftrightarrow> \<not> b \<and> y = None" for b and e :: config_error and y by simp
  show ?thesis
    unfolding config_Validate_def config_ok_def o i validate_reporting_None validate_diameter_None validate_clients_None
    by (auto simp: k)
qed

text \<open>
  Validation accepts exactly the well-formed configurations: complete and positive settings, peers that
  are unique up to case by address and by name, and clients with unique ids, a token, grants, digit-only
  prefixes and known types.
\<close>

theorem config_Validate_spec: "config_Validate c = None \<longleftrightarrow> config_ok c"
  by (rule config_Validate_None)

text \<open>
  C27: A configuration that loads is well-formed, and every setting that has a default is set: the
  components built from it never see a zero timeout, level, purge interval or realm.
\<close>

theorem Load_wf:
  assumes "Load file unmarshal decode = Inr c"
  shows "config_ok c \<and> 0 < da_BusyTimeout (cf_Database c) \<and> da_Synchronous (cf_Database c) \<noteq> []
    \<and> 0 < re_PurgeInterval (cf_Retention c) \<and> di_HSSRealm (cf_Diameter c) \<noteq> [] \<and> 0 < mre_Timeout (cf_MLPReporting c)
    \<and> 0 < cd_MaxAttempts (cf_Delivery c) \<and> 0 < cd_RetryBackoffMin (cf_Delivery c) \<and> 0 < cd_RetryBackoffMax (cf_Delivery c)
    \<and> 0 < cd_RequestTimeout (cf_Delivery c) \<and> applyDefaults c = c"
proof -
  from assms obtain c0 where c: "c = applyDefaults c0" and v: "config_Validate c = None"
    by (auto simp: Load_def Let_def split: option.splits)
  have ok: "config_ok c" using v by (simp add: config_Validate_None)
  have "di_OriginRealm (cf_Diameter c) \<noteq> []" using ok by (simp add: config_ok_def diameter_ok_def)
  then have "di_HSSRealm (cf_Diameter c) \<noteq> []" by (auto simp: c applyDefaults_def Let_def)
  moreover have "0 < cd_RetryBackoffMax (cf_Delivery c)"
    by (auto simp: c applyDefaults_def delivery_defaults_def Let_def split: if_splits)
  moreover have "applyDefaults c = c"
    by (simp add: c applyDefaults_def mlp_defaults_def client_defaults_def delivery_defaults_def Let_def comp_def)
  ultimately show ?thesis
    using ok by (simp add: c applyDefaults_def delivery_defaults_def Let_def)
qed

section \<open>The encryption key\<close>

lemma hex_value_digit: "n < 16 \<Longrightarrow> hex_value (hex_digit n) = Some n"
  by (auto simp: hex_value_def hex_digit_def Let_def of_char_of)

lemma DecodeString_EncodeToString: "DecodeString (EncodeToString bs) = Some bs"
proof (induction bs)
  case (Cons b bs)
  have d: "unat b div 16 < 16" "unat b mod 16 < 16" using unsigned_less [of b, where ?'a = nat] by auto
  have "(of_nat (16 * (unat b div 16) + unat b mod 16) :: u8) = b"
    by (simp add: of_nat_unat)
  with Cons d show ?case by (simp add: EncodeToString_def hex_value_digit)
qed (simp add: EncodeToString_def)

text \<open>A key written in hexadecimal is read back; it is accepted exactly when it has the 32 bytes of AES-256.\<close>

theorem EncryptionKeyBytes_roundtrip:
  "EncryptionKeyBytes (d\<lparr>cd_EncryptionKey := EncodeToString key\<rparr>) =
     (if length key = 32 then Inr key else Inl (WrongKeyLength (length key)))"
  by (simp add: EncryptionKeyBytes_def DecodeString_EncodeToString)

section \<open>A sample configuration\<close>

definition sample_config :: config where
  "sample_config = \<lparr>
     cf_Database = \<lparr>da_Path = ''g.db'', da_BusyTimeout = 0, da_Synchronous = [], da_CheckpointPages = 1000\<rparr>,
     cf_Retention = \<lparr>re_Request = 100, re_Result = 100, re_PurgeInterval = 0\<rparr>,
     cf_Clients = [\<lparr>cc_ID = ''c'', cc_BearerToken = ''t'', cc_Services = [''location.immediate''], cc_TargetPrefixes = [''1''],
       cc_LCSClientType = [], cc_LCSPrivacyCheck = []\<rparr>],
     cf_Diameter = \<lparr>di_OriginHost = ''g'', di_OriginRealm = ''r'', di_HostIPAddress = ''10.0.0.1'', di_HSSRealm = [], di_HSSHost = [],
       di_ConnectionTimeout = 1, di_RequestTimeout = 1, di_ReconnectMin = 1, di_ReconnectMax = 2, di_WatchdogInterval = 1,
       di_WatchdogTimeout = 1, di_ShutdownTimeout = 1,
       di_Peers = [\<lparr>dp_Name = ''p'', dp_Address = ''10.0.0.2:3868'', dp_Transport = ''tcp'', dp_ExpectedOriginHost = [],
         dp_ExpectedOriginRealm = []\<rparr>]\<rparr>,
     cf_Logging = \<lparr>cl_File = ''g.log'', cl_Level = []\<rparr>,
     cf_Delivery = \<lparr>cd_Enabled = False, cd_MaxAttempts = 0, cd_RetryBackoffMin = 0, cd_RetryBackoffMax = 0, cd_RequestTimeout = 0,
       cd_EncryptionKey = []\<rparr>,
     cf_LRR_Enabled = True,
     cf_MLP = \<lparr>ml_ListenAddress = '':9210'', ml_SyncWaitTimeout = 0, ml_MaxSyncWaitTimeout = 0, ml_ShutdownTimeout = 0\<rparr>,
     cf_MLPReporting = \<lparr>mre_Enabled = False, mre_StandardReportURL = [], mre_StandardReportClientID = [],
       mre_EmergencyReportURL = [], mre_EmergencyReportClientID = [], mre_Timeout = 0\<rparr>\<rparr>"

lemma ToLower_info: "ToLower ''info'' = ''info''"
  by (simp add: ToLower_def lower_char_def)

lemma sample_config_ok: "config_ok (applyDefaults sample_config)"
  unfolding config_ok_def
  by (simp add: applyDefaults_def sample_config_def Let_def mlp_defaults_def client_defaults_def delivery_defaults_def
      diameter_ok_def peer_ok_def client_ok_def reporting_ok_def clientTypeValues_def privacyCheckValues_def ToLower_info is_digit_alt)

lemma sample_config_loads:
  "Load (Some []) (\<lambda>_. Some (Node False [] [])) (\<lambda>_. Some sample_config) = Inr (applyDefaults sample_config)"
  using sample_config_ok
  by (simp add: Load_def rejectObsoleteDiameterKeys_def config_Validate_None [symmetric])

theorem Load_wf_witness:
  "config_ok (applyDefaults sample_config) \<and> 0 < re_PurgeInterval (cf_Retention (applyDefaults sample_config))"
  using Load_wf [OF sample_config_loads] by blast

text \<open>
  A minimum retry delay above five minutes with no maximum of its own gets a maximum of five minutes,
  below the minimum.
\<close>

theorem default_backoff_below_minimum:
  assumes "300 * second < cd_RetryBackoffMin d" and "cd_RetryBackoffMax d = 0"
  shows "cd_RetryBackoffMax (delivery_defaults d) < cd_RetryBackoffMin (delivery_defaults d)"
  using assms by (auto simp: delivery_defaults_def Let_def)

text \<open>
  Validation does not look at services or at the length of prefixes: a client may be granted the same
  service twice, and the empty prefix.
\<close>

theorem config_ok_duplicate_grants:
  "config_ok (applyDefaults (sample_config\<lparr>cf_Clients := [\<lparr>cc_ID = ''c'', cc_BearerToken = ''t'',
     cc_Services = [''location.immediate'', ''location.immediate''], cc_TargetPrefixes = [[]], cc_LCSClientType = [], cc_LCSPrivacyCheck = []\<rparr>]\<rparr>))"
  unfolding config_ok_def
  by (simp add: applyDefaults_def sample_config_def Let_def mlp_defaults_def client_defaults_def delivery_defaults_def
      diameter_ok_def peer_ok_def client_ok_def reporting_ok_def clientTypeValues_def privacyCheckValues_def ToLower_info)

end
