(* ===== verification/GMLC_Gad.thy ===== *)
theory GMLC_Gad
  imports GMLC_Prelude
begin

text \<open>
  The TS 23.032 shape decoder (\<open>internal/gad/gad.go\<close>).  Coordinates are integers scaled by powers of
  two, which a \<open>float64\<close> represents exactly, so latitudes and longitudes are rationals without loss.
  The uncertainty code \<open>10 (1.1^K - 1)\<close> and its inverse are computed exactly here, where Go rounds.
  An index past the end of a slice panics in Go; \<open>decodePoint\<close> makes that a value (\<open>ErrPanic\<close>) that
  is proved unreachable.
\<close>

datatype gad_error =
    ErrEmpty | ErrUnsupported | ErrLength | ErrLatitude | ErrLongitude | ErrOrientation
  | ErrPolygonPoints | ErrPanic

datatype shape_type =
    ShapeEllipsoidPoint | ShapeEllipsoidPointUncertaintyCircle
  | ShapeEllipsoidPointUncertaintyEllipse | ShapePolygon

record point =
  LatitudeDegrees :: rat
  LongitudeDegrees :: rat

record ellipse =
  SemiMajorMeters :: rat
  SemiMinorMeters :: rat
  OrientationDegrees :: rat
  ConfidencePercent :: u8

record gad_result =
  g_Shape :: shape_type
  g_Point :: "point option"
  g_UncertaintyMeters :: "rat option"
  g_Ellipse :: "ellipse option"
  g_Polygon :: "point list"

definition octets3 :: "u8 \<Rightarrow> u8 \<Rightarrow> u8 \<Rightarrow> u32" where
  "octets3 a b c = push_bit 16 (ucast a) OR push_bit 8 (ucast b) OR ucast c"

definition decode_lat :: "u32 \<Rightarrow> rat" where
  "decode_lat latRaw =
     (let sgn = (latRaw AND 0x800000 \<noteq> 0);
          mag = latRaw AND 0x7fffff;
          lat = of_nat (unat mag) * 90 / of_nat (2 ^ 23)
      in if sgn then - lat else lat)"

definition decode_lon :: "u32 \<Rightarrow> rat" where
  "decode_lon raw =
     (let lonRaw = (if raw AND 0x800000 \<noteq> 0 then raw - 0x1000000 else raw)
      in of_int (sint lonRaw) * 360 / of_nat (2 ^ 24))"

fun decodePoint :: "bytes \<Rightarrow> gad_error + (rat \<times> rat)" where
  "decodePoint [d0, d1, d2, d3, d4, d5] =
     (let lat = decode_lat (octets3 d0 d1 d2) in
      if lat < - 90 \<or> lat > 90 then Inl ErrLatitude
      else
        (let lon = decode_lon (octets3 d3 d4 d5) in
         if lon < - 180 \<or> lon > 180 then Inl ErrLongitude
         else Inr (lat, lon)))"
| "decodePoint _ = Inl ErrPanic"

definition decodeUncertaintyValue :: "u8 \<Rightarrow> rat" where
  "decodeUncertaintyValue octet = 10 * ((11 / 10) ^ unat (octet AND 0x7f) - 1)"

definition slice :: "nat \<Rightarrow> nat \<Rightarrow> bytes \<Rightarrow> bytes" where
  "slice i j data = take (j - i) (drop i data)"

abbreviation mk_point :: "rat \<times> rat \<Rightarrow> point" where
  "mk_point ll \<equiv> \<lparr>LatitudeDegrees = fst ll, LongitudeDegrees = snd ll\<rparr>"

definition decodeEllipsoidPoint :: "bytes \<Rightarrow> gad_error + gad_result" where
  "decodeEllipsoidPoint data =
     (if length data \<noteq> 7 then Inl ErrLength
      else case decodePoint (slice 1 7 data) of
        Inl e \<Rightarrow> Inl e
      | Inr ll \<Rightarrow> Inr \<lparr>g_Shape = ShapeEllipsoidPoint, g_Point = Some (mk_point ll),
          g_UncertaintyMeters = None, g_Ellipse = None, g_Polygon = []\<rparr>)"

definition decodeUncertaintyCircle :: "bytes \<Rightarrow> gad_error + gad_result" where
  "decodeUncertaintyCircle data =
     (if length data \<noteq> 8 then Inl ErrLength
      else case decodePoint (slice 1 7 data) of
        Inl e \<Rightarrow> Inl e
      | Inr ll \<Rightarrow> Inr \<lparr>g_Shape = ShapeEllipsoidPointUncertaintyCircle, g_Point = Some (mk_point ll),
          g_UncertaintyMeters = Some (decodeUncertaintyValue (data ! 7)), g_Ellipse = None,
          g_Polygon = []\<rparr>)"

definition decodeUncertaintyEllipse :: "bytes \<Rightarrow> gad_error + gad_result" where
  "decodeUncertaintyEllipse data =
     (if length data \<noteq> 11 then Inl ErrLength
      else case decodePoint (slice 1 7 data) of
        Inl e \<Rightarrow> Inl e
      | Inr ll \<Rightarrow>
          (let orientation = of_nat (unat (data ! 9)) in
           if orientation \<ge> (180 :: rat) then Inl ErrOrientation
           else Inr \<lparr>g_Shape = ShapeEllipsoidPointUncertaintyEllipse, g_Point = Some (mk_point ll),
             g_UncertaintyMeters = None,
             g_Ellipse = Some \<lparr>SemiMajorMeters = decodeUncertaintyValue (data ! 7),
               SemiMinorMeters = decodeUncertaintyValue (data ! 8),
               OrientationDegrees = orientation, ConfidencePercent = data ! 10 AND 0x7f\<rparr>,
             g_Polygon = []\<rparr>))"

text \<open>The loop over the \<open>n\<close> points of a polygon, from point \<open>i\<close> on.\<close>

fun decode_points :: "bytes \<Rightarrow> nat \<Rightarrow> nat \<Rightarrow> gad_error + point list" where
  "decode_points data i 0 = Inr []"
| "decode_points data i (Suc m) =
     (case decodePoint (slice (1 + 6 * i) (7 + 6 * i) data) of
        Inl e \<Rightarrow> Inl e
      | Inr ll \<Rightarrow>
          (case decode_points data (Suc i) m of Inl e \<Rightarrow> Inl e | Inr ps \<Rightarrow> Inr (mk_point ll # ps)))"

definition decodePolygon :: "bytes \<Rightarrow> gad_error + gad_result" where
  "decodePolygon data =
     (let n = unat (drop_bit 4 (data ! 0)) in
      if n < 3 \<or> n > 15 then Inl ErrPolygonPoints
      else if length data \<noteq> 1 + 6 * n then Inl ErrLength
      else case decode_points data 0 n of
        Inl e \<Rightarrow> Inl e
      | Inr pts \<Rightarrow> Inr \<lparr>g_Shape = ShapePolygon, g_Point = None, g_UncertaintyMeters = None,
          g_Ellipse = None, g_Polygon = pts\<rparr>)"

definition Decode :: "bytes \<Rightarrow> gad_error + gad_result" where
  "Decode data =
     (if length data = 0 then Inl ErrEmpty
      else let s = data ! 0 AND 0x0f in
        if s = 0x0 then decodeEllipsoidPoint data
        else if s = 0x1 then decodeUncertaintyCircle data
        else if s = 0x3 then decodeUncertaintyEllipse data
        else if s = 0x5 then decodePolygon data
        else Inl ErrUnsupported)"

text \<open>
  The encoder of an accuracy in metres.  The logarithm is taken over the reals; the lemma
  \<open>encode_k_unique\<close> evaluates it from the powers of 11/10 that bracket the input.  A NaN input passes
  every comparison of the code and reaches \<open>byte(k)\<close>, which Go leaves to the implementation; the
  supported platforms convert it to zero.
\<close>

definition encode_k :: "rat \<Rightarrow> int" where
  "encode_k meters = \<lfloor>ln (of_rat meters / 10 + 1 :: real) / ln (1.1 :: real)\<rfloor>"

definition EncodeUncertaintyValue :: "float64 \<Rightarrow> u8" where
  "EncodeUncertaintyValue m =
     (case m of
        NaN \<Rightarrow> 0
      | NInf \<Rightarrow> 0
      | PInf \<Rightarrow> 127
      | Fin meters \<Rightarrow>
          (if meters \<le> 0 then 0
           else
             (let k = encode_k meters;
                  k = (if k < 0 then 0 else k);
                  k = (if k > 127 then 127 else k)
              in of_int k)))"

section \<open>Bit fields\<close>

lemma octets3_add: "octets3 a b c = push_bit 16 (ucast a) + (push_bit 8 (ucast b) + ucast c)"
proof -
  have 1: "push_bit 8 (ucast b) OR ucast c = (push_bit 8 (ucast b) + ucast c :: u32)"
    by (rule disjunctive_add_eq_or [symmetric]) (auto simp: bit_eq_iff bit_simps dest: bit_imp_le_length)
  have 2: "push_bit 16 (ucast a) OR (push_bit 8 (ucast b) OR ucast c)
      = (push_bit 16 (ucast a) + (push_bit 8 (ucast b) OR ucast c) :: u32)"
    by (rule disjunctive_add_eq_or [symmetric]) (auto simp: bit_eq_iff bit_simps dest: bit_imp_le_length)
  show ?thesis unfolding octets3_def or.assoc 2 unfolding 1 ..
qed

lemma unat_octets3: "unat (octets3 a b c) = unat a * 65536 + (unat b * 256 + unat c)"
proof -
  have "unat a < 256" "unat b < 256" "unat c < 256"
    by (rule u8_lt)+
  moreover have "unat (ucast x :: u32) = unat x" for x :: u8
    using u8_lt [of x] by (simp add: unsigned_ucast_eq take_bit_eq_mod)
  ultimately show ?thesis
    by (simp add: octets3_add push_bit_eq_mult unat_word_ariths)
qed

lemma and_mask23: "unat (x AND 0x7fffff :: u32) = unat x mod 2 ^ 23"
proof -
  have "x AND 0x7fffff = take_bit 23 x"
    by (simp only: take_bit_eq_mask) (simp add: mask_eq_exp_minus_1)
  then show ?thesis
    by (simp only: unsigned_take_bit_eq) (simp only: take_bit_eq_mod)
qed

lemma and_bit23: "(x AND 0x800000 :: u32) \<noteq> 0 \<longleftrightarrow> unat x div 2 ^ 23 mod 2 = 1"
proof -
  have "(x AND 0x800000) \<noteq> 0 \<longleftrightarrow> bit x 23"
    using and_exp_eq_0_iff_not_bit [of x 23] by simp
  also have "\<dots> \<longleftrightarrow> bit (unat x) 23" by (simp add: bit_simps)
  also have "\<dots> \<longleftrightarrow> unat x div 2 ^ 23 mod 2 = 1" by (simp add: bit_iff_odd odd_iff_mod_2_eq_one)
  finally show ?thesis .
qed

lemma unat_octets3_lt: "unat (octets3 a b c) < 2 ^ 24"
  using u8_lt [of a] u8_lt [of b] u8_lt [of c] by (simp add: unat_octets3)

lemma decode_lat_octets3:
  "decode_lat (octets3 a b c) =
     (let n = unat (octets3 a b c) in
      (if n < 2 ^ 23 then 1 else - 1) * of_nat (n mod 2 ^ 23) * 90 / 2 ^ 23)"
proof -
  let ?n = "unat (octets3 a b c)"
  have "?n div 2 ^ 23 mod 2 = 1 \<longleftrightarrow> \<not> ?n < 2 ^ 23"
    using unat_octets3_lt [of a b c] by auto
  then show ?thesis
    using unat_octets3_lt [of a b c] by (simp add: decode_lat_def and_bit23 and_mask23 Let_def)
qed

lemma decode_lon_octets3:
  "decode_lon (octets3 a b c) =
     (let n = int (unat (octets3 a b c)) in
      of_int (if n < 2 ^ 23 then n else n - 2 ^ 24) * 360 / 2 ^ 24)"
proof -
  let ?w = "octets3 a b c" let ?n = "unat ?w"
  have lt: "?n < 2 ^ 24" by (rule unat_octets3_lt)
  have neg: "?w AND 0x800000 \<noteq> 0 \<longleftrightarrow> \<not> ?n < 2 ^ 23"
    using lt by (auto simp: and_bit23)
  have s1: "sint ?w = int ?n"
    using lt by (simp add: sint_uint uint_nat signed_take_bit_int_eq_self)
  have s2: "sint (?w - 0x1000000) = int ?n - 2 ^ 24" 
  proof -
    have "sint (?w - 0x1000000) = signed_take_bit 31 (uint (?w - 0x1000000))"
      by (simp add: sint_uint)
    also have "\<dots> = signed_take_bit 31 (take_bit 32 (int ?n - 2 ^ 24))"
      by (simp add: uint_word_ariths take_bit_eq_mod flip: uint_nat)
    also have "\<dots> = signed_take_bit 31 (int ?n - 2 ^ 24)"
      by (simp only: signed_take_bit_take_bit) simp
    also have "\<dots> = int ?n - 2 ^ 24"
      using lt by (simp add: signed_take_bit_int_eq_self)
    finally show ?thesis .
  qed
  show ?thesis
    by (cases "?n < 2 ^ 23") (use neg s1 s2 in \<open>simp_all add: decode_lon_def Let_def\<close>)
qed

lemma decode_lat_bounds: "- 90 < decode_lat (octets3 a b c) \<and> decode_lat (octets3 a b c) < 90"
proof -
  let ?m = "unat (octets3 a b c) mod 2 ^ 23"
  have "?m < 2 ^ 23" by simp
  then have "of_nat ?m < (of_nat (2 ^ 23) :: rat)" by (rule of_nat_less_iff [THEN iffD2])
  moreover have "0 \<le> (of_nat ?m :: rat)" by (rule of_nat_0_le_iff)
  ultimately show ?thesis by (simp add: decode_lat_octets3 Let_def field_simps)
qed

lemma decode_lon_bounds: "- 180 \<le> decode_lon (octets3 a b c) \<and> decode_lon (octets3 a b c) < 180"
proof -
  define k where "k = (let n = int (unat (octets3 a b c)) in if n < 2 ^ 23 then n else n - 2 ^ 24)"
  have "- (2 ^ 23) \<le> k" "k < 2 ^ 23"
    using unat_octets3_lt [of a b c] by (auto simp: k_def Let_def)
  then have "of_int (- (2 ^ 23)) \<le> (of_int k :: rat)" "of_int k < (of_int (2 ^ 23) :: rat)"
    by (simp_all only: of_int_le_iff of_int_less_iff)
  moreover have "decode_lon (octets3 a b c) = of_int k * 360 / 2 ^ 24"
    by (simp add: decode_lon_octets3 k_def Let_def)
  ultimately show ?thesis by (simp add: field_simps)
qed

lemma decodePoint_Inr:
  "decodePoint [a, b, c, d, e, f] = Inr (decode_lat (octets3 a b c), decode_lon (octets3 d e f))"
  using decode_lat_bounds [of a b c] decode_lon_bounds [of d e f] by (simp add: Let_def)

lemma length_6: "length xs = 6 \<longleftrightarrow> (\<exists>a b c d e f. xs = [a, b, c, d, e, f])"
  by (auto simp: length_Suc_conv numeral_eq_Suc)

definition point_ok :: "point \<Rightarrow> bool" where
  "point_ok p \<longleftrightarrow> - 90 < LatitudeDegrees p \<and> LatitudeDegrees p < 90
     \<and> - 180 \<le> LongitudeDegrees p \<and> LongitudeDegrees p < 180"

lemma decodePoint_length6:
  "length xs = 6 \<Longrightarrow> \<exists>ll. decodePoint xs = Inr ll \<and> point_ok (mk_point ll)"
  using decode_lat_bounds decode_lon_bounds
  by (auto simp: length_6 decodePoint_Inr point_ok_def simp del: decodePoint.simps)

lemma length_slice [simp]: "j \<le> length data \<Longrightarrow> i \<le> j \<Longrightarrow> length (slice i j data) = j - i"
  by (simp add: slice_def)

lemma decode_points_ok:
  "1 + 6 * (i + n) \<le> length data \<Longrightarrow>
   \<exists>ps. decode_points data i n = Inr ps \<and> length ps = n \<and> list_all point_ok ps"
proof (induction n arbitrary: i)
  case (Suc n)
  have "length (slice (1 + 6 * i) (7 + 6 * i) data) = 6"
    using Suc.prems by (subst length_slice) simp_all
  then obtain ll where "decodePoint (slice (1 + 6 * i) (7 + 6 * i) data) = Inr ll"
    "point_ok (mk_point ll)" using decodePoint_length6 by blast
  moreover obtain ps where "decode_points data (Suc i) n = Inr ps" "length ps = n" "list_all point_ok ps"
    using Suc.IH [of "Suc i"] Suc.prems by auto
  ultimately show ?case by simp
qed simp

lemma uncertainty_nonneg: "0 \<le> decodeUncertaintyValue x"
  by (simp add: decodeUncertaintyValue_def)

definition octets_of :: "nat \<Rightarrow> bytes" where
  "octets_of n = [of_nat (n div 65536), of_nat (n div 256), of_nat n]"

lemma octets_of_inverse: "n < 2 ^ 24 \<Longrightarrow> octets_of n = [a, b, c] \<Longrightarrow> unat (octets3 a b c) = n"
proof -
  assume n: "n < 2 ^ 24" and "octets_of n = [a, b, c]"
  then have "unat a = n div 65536" "unat b = n div 256 mod 256" "unat c = n mod 256"
    by (auto simp: octets_of_def unat_of_nat)
  moreover have "n div 65536 * 65536 + (n div 256 mod 256 * 256 + n mod 256) = n"
  proof -
    have "n div 256 * 256 + n mod 256 = n" by (rule div_mult_mod_eq)
    moreover have "n div 65536 * 256 + n div 256 mod 256 = n div 256"
      using div_mult_mod_eq [of "n div 256" 256] by (simp add: div_mult2_eq [symmetric])
    ultimately show ?thesis by linarith
  qed
  ultimately show ?thesis by (simp add: unat_octets3)
qed

definition encode_point :: "bool \<Rightarrow> nat \<Rightarrow> int \<Rightarrow> bytes" where
  "encode_point south m n = octets_of (m + (if south then 2 ^ 23 else 0)) @ octets_of (nat (n mod 2 ^ 24))"

lemma encode_k_bracket:
  assumes "0 < m"
  shows "0 \<le> encode_k m" and "(11 / 10) ^ nat (encode_k m) \<le> m / 10 + 1"
    and "m / 10 + 1 < (11 / 10) ^ (nat (encode_k m) + 1)"
proof -
  let ?x = "of_rat m / 10 + 1 :: real"
  have x: "1 < ?x" using assms by simp
  then have x0: "0 < ?x" by linarith
  have k: "encode_k m = \<lfloor>log (11 / 10) ?x\<rfloor>"
    by (simp add: encode_k_def log_def)
  have "0 < log (11 / 10) ?x" 
    using x order.strict_trans [OF zero_less_one x] by (subst zero_less_log_cancel_iff) simp_all
  then show k0: "0 \<le> encode_k m" unfolding k by simp
  have lo: "real_of_int (encode_k m) \<le> log (11 / 10) ?x" and hi: "log (11 / 10) ?x < real_of_int (encode_k m) + 1"
    unfolding k by linarith+
  have e: "real_of_int (encode_k m) = real (nat (encode_k m))" using k0 by simp
  have "(11 / 10) powr real (nat (encode_k m)) \<le> ?x"
    using lo x0 unfolding e by (subst (asm) le_log_iff) simp_all
  then have "(of_rat ((11 / 10) ^ nat (encode_k m)) :: real) \<le> of_rat (m / 10 + 1)"
    by (simp add: powr_realpow of_rat_add of_rat_divide of_rat_power)
  then show "(11 / 10) ^ nat (encode_k m) \<le> m / 10 + 1" by (simp only: of_rat_less_eq)
  have "?x < (11 / 10) powr real (nat (encode_k m) + 1)"
    using hi x0 unfolding e by (subst (asm) log_less_iff) (simp_all add: add.commute)
  then have "(of_rat (m / 10 + 1) :: real) < of_rat ((11 / 10) ^ (nat (encode_k m) + 1))"
    by (simp only: powr_realpow) (simp add: powr_realpow of_rat_add of_rat_divide of_rat_power of_rat_mult)
  then show "m / 10 + 1 < (11 / 10) ^ (nat (encode_k m) + 1)" by (simp only: of_rat_less)
qed

lemma power_11_strict: "(11 / 10 :: rat) ^ i < (11 / 10) ^ j \<longleftrightarrow> i < j"
  by (rule power_strict_increasing_iff) simp

lemma power_11_mono: "(11 / 10 :: rat) ^ i \<le> (11 / 10) ^ j \<longleftrightarrow> i \<le> j"
  by (rule power_increasing_iff) simp

lemma encode_k_unique:
  assumes "0 < m" and "(11 / 10) ^ i \<le> m / 10 + 1" and "m / 10 + 1 < (11 / 10) ^ (i + 1)"
  shows "encode_k m = int i"
proof -
  from encode_k_bracket [OF assms(1)] assms(2,3)
  have "(11 / 10 :: rat) ^ i < (11 / 10) ^ (nat (encode_k m) + 1)"
    and "(11 / 10 :: rat) ^ nat (encode_k m) < (11 / 10) ^ (i + 1)"
    by linarith+
  then have "i < nat (encode_k m) + 1" "nat (encode_k m) < i + 1"
    by (simp_all only: power_11_strict)
  then show ?thesis using encode_k_bracket(1) [OF assms(1)] by linarith
qed

definition code_meters :: "nat \<Rightarrow> rat" where
  "code_meters k = 10 * ((11 / 10) ^ k - 1)"

lemma decodeUncertaintyValue_meters: "decodeUncertaintyValue x = code_meters (unat x mod 128)"
  by (simp add: decodeUncertaintyValue_def code_meters_def and_7f)

lemma unat_Encode:
  assumes "0 < m"
  shows "unat (EncodeUncertaintyValue (Fin m)) = min 127 (nat (encode_k m))"
  using assms encode_k_bracket(1) [OF assms]
  by (auto simp: EncodeUncertaintyValue_def Let_def unsigned_of_int take_bit_eq_mod min_def)

lemma Decode_cases:
  "Decode data =
     (if data = [] then Inl ErrEmpty
      else if unat (data ! 0) mod 16 = 0 then decodeEllipsoidPoint data
      else if unat (data ! 0) mod 16 = 1 then decodeUncertaintyCircle data
      else if unat (data ! 0) mod 16 = 3 then decodeUncertaintyEllipse data
      else if unat (data ! 0) mod 16 = 5 then decodePolygon data
      else Inl ErrUnsupported)"
proof -
  have "x = k \<longleftrightarrow> unat x = unat k" for x k :: u8 by (simp add: word_unat_eq_iff)
  then show ?thesis by (simp add: Decode_def Let_def and_0f)
qed

definition ellipse_ok :: "ellipse \<Rightarrow> bool" where
  "ellipse_ok e \<longleftrightarrow> 0 \<le> SemiMajorMeters e \<and> 0 \<le> SemiMinorMeters e
     \<and> 0 \<le> OrientationDegrees e \<and> OrientationDegrees e < 180 \<and> unat (ConfidencePercent e) \<le> 127"

definition gad_ok :: "gad_result \<Rightarrow> bool" where
  "gad_ok r \<longleftrightarrow>
     (case g_Point r of
        None \<Rightarrow> g_Shape r = ShapePolygon \<and> 3 \<le> length (g_Polygon r) \<and> length (g_Polygon r) \<le> 15
      | Some p \<Rightarrow> g_Shape r \<noteq> ShapePolygon \<and> point_ok p \<and> g_Polygon r = [])
     \<and> list_all point_ok (g_Polygon r)
     \<and> (g_UncertaintyMeters r \<noteq> None \<longleftrightarrow> g_Shape r = ShapeEllipsoidPointUncertaintyCircle)
     \<and> (\<forall>u. g_UncertaintyMeters r = Some u \<longrightarrow> 0 \<le> u)
     \<and> (g_Ellipse r \<noteq> None \<longleftrightarrow> g_Shape r = ShapeEllipsoidPointUncertaintyEllipse)
     \<and> (\<forall>e. g_Ellipse r = Some e \<longrightarrow> ellipse_ok e)"

definition gad_accepts :: "bytes \<Rightarrow> bool" where
  "gad_accepts data \<longleftrightarrow> data \<noteq> [] \<and>
     (let s = unat (data ! 0) mod 16; n = unat (data ! 0) div 16 in
      s = 0 \<and> length data = 7 \<or> s = 1 \<and> length data = 8
      \<or> s = 3 \<and> length data = 11 \<and> unat (data ! 9) < 180
      \<or> s = 5 \<and> 3 \<le> n \<and> length data = 1 + 6 * n)"

definition gad_rejects :: "gad_error set" where
  "gad_rejects = {ErrEmpty, ErrUnsupported, ErrLength, ErrOrientation, ErrPolygonPoints}"

text \<open>Each shape decoder either rejects its input or returns a well-formed result.\<close>

definition sound :: "bool \<Rightarrow> gad_error + gad_result \<Rightarrow> bool" where
  "sound acc x \<longleftrightarrow> (case x of Inl e \<Rightarrow> \<not> acc \<and> e \<in> gad_rejects | Inr r \<Rightarrow> acc \<and> gad_ok r)"

lemma point_at_1: "7 \<le> length data \<Longrightarrow> \<exists>ll. decodePoint (slice 1 7 data) = Inr ll \<and> point_ok (mk_point ll)"
  by (rule decodePoint_length6) simp

lemma sound_point: "sound (length data = 7) (decodeEllipsoidPoint data)"
  using point_at_1 [of data]
  by (auto simp: sound_def decodeEllipsoidPoint_def gad_rejects_def gad_ok_def)

lemma sound_circle: "sound (length data = 8) (decodeUncertaintyCircle data)"
  using point_at_1 [of data]
  by (auto simp: sound_def decodeUncertaintyCircle_def gad_rejects_def gad_ok_def uncertainty_nonneg)

lemma sound_ellipse:
  "sound (length data = 11 \<and> unat (data ! 9) < 180) (decodeUncertaintyEllipse data)"
proof -
  have "of_nat (unat (data ! 9)) < (180 :: rat) \<longleftrightarrow> unat (data ! 9) < 180"
    using of_nat_less_iff [of "unat (data ! 9)" 180, where ?'a = rat] by simp
  moreover have "unat (data ! 10 AND 0x7f) \<le> 127" by (simp add: and_7f)
  ultimately show ?thesis
    using point_at_1 [of data]
    by (auto simp: sound_def decodeUncertaintyEllipse_def gad_rejects_def gad_ok_def ellipse_ok_def
        uncertainty_nonneg Let_def not_le)
qed

lemma sound_polygon:
  "sound (3 \<le> unat (data ! 0) div 16 \<and> length data = 1 + 6 * (unat (data ! 0) div 16)) (decodePolygon data)"
proof -
  have "unat (data ! 0) div 16 \<le> 15" using u8_lt [of "data ! 0"] by simp
  then show ?thesis
    using decode_points_ok [of 0 "unat (data ! 0) div 16" data]
    by (auto simp: sound_def decodePolygon_def gad_rejects_def gad_ok_def high_nibble Let_def)
qed

lemma Decode_sound_lemma: "sound (gad_accepts data) (Decode data)"
  using sound_point [of data] sound_circle [of data] sound_ellipse [of data] sound_polygon [of data]
  by (auto simp: Decode_cases gad_accepts_def Let_def sound_def [of _ "Inl ErrEmpty"] 
      sound_def [of _ "Inl ErrUnsupported"] gad_rejects_def)

section \<open>Properties\<close>

text \<open>
  C35: The decoder never panics: on every byte sequence it returns either a well-formed result or one
  of the five documented rejections, and it accepts exactly the sequences whose length fits the
  shape in the low nibble of the first octet (for an ellipse with an orientation below 180, for a
  polygon with 3 to 15 points).  A well-formed result has latitudes in (-90, 90), longitudes in
  [-180, 180), non-negative radii, and the centre point, circle, ellipse and polygon fields set
  exactly as its shape says.  The latitude and longitude range checks of the code can never fail.
\<close>

theorem Decode_total:
  "case Decode data of
     Inl e \<Rightarrow> \<not> gad_accepts data \<and> e \<in> gad_rejects
   | Inr r \<Rightarrow> gad_accepts data \<and> gad_ok r"
  using Decode_sound_lemma [of data] by (simp add: sound_def)

text \<open>
  C36: The coordinates are decoded exactly as TS 23.032 defines them: a sign bit and a 23-bit magnitude
  \<open>m\<close> give the latitude \<open>m * 90 / 2^23\<close>, a 24-bit two's complement \<open>n\<close> the longitude
  \<open>n * 360 / 2^24\<close>, for every representable \<open>m\<close> and \<open>n\<close>.
\<close>

theorem decodePoint_exact:
  assumes "m < 2 ^ 23" and "- (2 ^ 23) \<le> n" and "n < 2 ^ 23"
  shows "decodePoint (encode_point south m n) =
    Inr ((if south then - 1 else 1) * of_nat m * 90 / 2 ^ 23, of_int n * 360 / 2 ^ 24)"
proof -
  obtain a b c where p: "octets_of (m + (if south then 2 ^ 23 else 0)) = [a, b, c]"
    by (simp add: octets_of_def)
  obtain d e f where q: "octets_of (nat (n mod 2 ^ 24)) = [d, e, f]"
    by (simp add: octets_of_def)
  have lat: "unat (octets3 a b c) = m + (if south then 2 ^ 23 else 0)"
    using octets_of_inverse [OF _ p] assms(1) by simp
  have "nat (n mod 2 ^ 24) < 2 ^ 24" by (simp add: nat_less_iff)
  then have lon: "int (unat (octets3 d e f)) = n mod 2 ^ 24"
    using octets_of_inverse [OF _ q] by simp
  have n: "(if n mod 2 ^ 24 < 2 ^ 23 then n mod 2 ^ 24 else n mod 2 ^ 24 - 2 ^ 24) = n"
  proof (cases "0 \<le> n")
    case True
    with assms show ?thesis by simp
  next
    case False
    have "n mod 2 ^ 24 = (n + 2 ^ 24) mod 2 ^ 24" by simp
    also have "\<dots> = n + 2 ^ 24"
      using False assms by (intro mod_pos_pos_trivial) auto
    finally have "n mod 2 ^ 24 = n + 2 ^ 24" .
    with False assms show ?thesis by simp
  qed
  have "decode_lat (octets3 a b c) = (if south then - 1 else 1) * of_nat m * 90 / 2 ^ 23"
    using assms(1) lat by (simp add: decode_lat_octets3 Let_def)
  moreover have "decode_lon (octets3 d e f) = of_int n * 360 / 2 ^ 24"
    unfolding decode_lon_octets3 Let_def lon n ..
  moreover have "encode_point south m n = [a, b, c, d, e, f]"
    by (simp only: encode_point_def p q append.simps)
  ultimately show ?thesis by (simp only: decodePoint_Inr)
qed

theorem decodePoint_exact_witness:
  "decodePoint (encode_point True 4194304 (- 4194304)) = Inr (- 45, - 90)"
  using decodePoint_exact [of 4194304 "- 4194304" True] by simp

text \<open>
  The accuracy code sent to the network is never looser than requested: for a positive accuracy
  \<open>m\<close> the encoded code fits seven bits, decodes to at most \<open>m\<close> metres, and is the largest such code.
\<close>

theorem EncodeUncertaintyValue_tightest:
  assumes "0 < m"
  shows "unat (EncodeUncertaintyValue (Fin m)) \<le> 127
    \<and> decodeUncertaintyValue (EncodeUncertaintyValue (Fin m)) \<le> m
    \<and> (\<forall>k \<le> 127. code_meters k \<le> m \<longrightarrow> k \<le> unat (EncodeUncertaintyValue (Fin m)))"
proof -
  let ?c = "unat (EncodeUncertaintyValue (Fin m))" let ?k = "nat (encode_k m)"
  have c: "?c = min 127 ?k" by (rule unat_Encode [OF assms])
  then have le: "?c \<le> ?k" and lt: "?c \<le> 127" by simp_all
  note b = encode_k_bracket [OF assms]
  have "(11 / 10) ^ ?c \<le> m / 10 + 1"
    using le b(2) power_11_mono [of ?c ?k] by linarith
  then have "code_meters ?c \<le> m" by (simp add: code_meters_def field_simps)
  moreover have "?c mod 128 = ?c" using lt by simp
  ultimately have 1: "decodeUncertaintyValue (EncodeUncertaintyValue (Fin m)) \<le> m"
    by (simp only: decodeUncertaintyValue_meters)
  have 2: "k \<le> ?c" if "k \<le> 127" "code_meters k \<le> m" for k
  proof -
    from that(2) have "(11 / 10) ^ k \<le> m / 10 + 1" by (simp add: code_meters_def field_simps)
    with b(3) have "(11 / 10 :: rat) ^ k < (11 / 10) ^ (?k + 1)" by linarith
    then have "k < ?k + 1" by (simp only: power_11_strict)
    with that(1) c show ?thesis by simp
  qed
  from lt 1 2 show ?thesis by blast
qed

theorem EncodeUncertaintyValue_tightest_witness:
  "decodeUncertaintyValue (EncodeUncertaintyValue (Fin 100)) \<le> 100"
  using EncodeUncertaintyValue_tightest [of 100] by simp

text \<open>
  Encoding a decoded uncertainty gives the same seven-bit code back.
\<close>

theorem EncodeUncertaintyValue_roundtrip:
  assumes "unat x \<le> 127"
  shows "EncodeUncertaintyValue (Fin (decodeUncertaintyValue x)) = x"
proof (cases "unat x = 0")
  case True
  then have "x = 0" by (simp add: unat_eq_0)
  then show ?thesis by (simp add: EncodeUncertaintyValue_def decodeUncertaintyValue_def)
next
  case False
  let ?m = "decodeUncertaintyValue x"
  have m: "?m = code_meters (unat x)" using assms by (simp add: decodeUncertaintyValue_meters)
  have pos: "0 < ?m" using False power_11_strict [of 0 "unat x"] by (simp add: m code_meters_def)
  have "(11 / 10) ^ unat x = ?m / 10 + 1" by (simp add: m code_meters_def field_simps)
  then have "encode_k ?m = int (unat x)"
    using encode_k_unique [OF pos, of "unat x"] power_11_strict [of "unat x" "unat x + 1"] by simp
  with unat_Encode [OF pos] assms have "unat (EncodeUncertaintyValue (Fin ?m)) = unat x" by simp
  then show ?thesis by (simp only: word_unat_eq_iff)
qed

theorem EncodeUncertaintyValue_roundtrip_witness:
  "EncodeUncertaintyValue (Fin (decodeUncertaintyValue 18)) = 18"
  using EncodeUncertaintyValue_roundtrip [of 18] by simp

end
