(* ===== verification/GMLC_Slh.thy ===== *)
theory GMLC_Slh
  imports GMLC_Diam
begin

text \<open>
  The SLh client (\<open>internal/slh/slh.go\<close>): TBCD coding of an MSISDN, the Routing-Info request and the
  decoding of its answer, and \<open>ResolveServingNode\<close>.  The random bytes of a session id, the clock and
  the transport are arguments; the registry is the option of a route lookup.
\<close>

section \<open>TBCD coding of an MSISDN\<close>

text \<open>
  \<open>EncodeMSISDN\<close> packs two digits in an octet, low nibble first, and fills the last octet of an odd
  number with 0xf.  The loop over the octets is the recursion over pairs of digits.
\<close>

fun encode_pairs :: "string \<Rightarrow> bytes option" where
  "encode_pairs [] = Some []"
| "encode_pairs [lo] =
     (if \<not> is_digit lo then None
      else Some [(of_char lo - of_char (CHR ''0'')) OR push_bit 4 0x0f])"
| "encode_pairs (lo # hi # s) =
     (if \<not> is_digit lo then None
      else if \<not> is_digit hi then None
      else map_option (\<lambda>bs. ((of_char lo - of_char (CHR ''0'')) OR
             push_bit 4 (of_char hi - of_char (CHR ''0''))) # bs) (encode_pairs s))"

definition EncodeMSISDN :: "string \<Rightarrow> bytes option" where
  "EncodeMSISDN s = (if length s = 0 \<or> length s > 15 then None else encode_pairs s)"

fun DecodeMSISDN :: "bytes \<Rightarrow> string option" where
  "DecodeMSISDN [] = Some []"
| "DecodeMSISDN (oct # rest) =
     (let lo = oct AND 0x0f; hi = drop_bit 4 oct in
      if lo > 9 then None
      else if hi = 0x0f then (if rest \<noteq> [] then None else Some [char_of (of_char (CHR ''0'') + unat lo)])
      else if hi > 9 then None
      else map_option (\<lambda>s. char_of (of_char (CHR ''0'') + unat lo) # char_of (of_char (CHR ''0'') + unat hi) # s)
             (DecodeMSISDN rest))"

section \<open>Requests\<close>

datatype slh_kind =
    ErrInvalidTarget | ErrUnknownSubscriber | ErrNoServingNode | ErrUnauthorized | ErrMalformed
  | ErrContradictory | ErrUnsupportedNode | ErrTimeout | ErrCancelled
  | DiameterBaseFailure | ExperimentalFailure

record slh_error =
  se_Kind :: slh_kind
  se_ResultCode :: u32
  se_ExperimentalCode :: u32

abbreviation slh_err :: "slh_kind \<Rightarrow> slh_error" where
  "slh_err k \<equiv> \<lparr>se_Kind = k, se_ResultCode = 0, se_ExperimentalCode = 0\<rparr>"

record slh_config =
  sc_OriginHost :: string
  sc_OriginRealm :: string
  sc_DestinationRealm :: string
  sc_DestinationHost :: string
  sc_RequestTimeout :: duration
  sc_Source :: string

definition slh_ApplicationID :: u32 where "slh_ApplicationID = 16777291"
definition CommandRoutingInfo :: u32 where "CommandRoutingInfo = 8388622"
definition avpMSISDN :: u32 where "avpMSISDN = 701"
definition avpServingNode :: u32 where "avpServingNode = 2401"
definition avpMMEName :: u32 where "avpMMEName = 2402"
definition avpMMERealm :: u32 where "avpMMERealm = 2408"

lemmas slh_consts = slh_ApplicationID_def CommandRoutingInfo_def avpMSISDN_def avpServingNode_def
  avpMMEName_def avpMMERealm_def

definition slh_New :: "slh_config \<Rightarrow> slh_config option" where
  "slh_New cfg =
     (if \<exists>v \<in> set [sc_OriginHost cfg, sc_OriginRealm cfg, sc_DestinationRealm cfg]. TrimSpace v = []
      then None
      else
        (let cfg = (if sc_RequestTimeout cfg \<le> 0 then cfg\<lparr>sc_RequestTimeout := 5 * second\<rparr> else cfg)
         in Some (if sc_Source cfg = [] then cfg\<lparr>sc_Source := ''slh''\<rparr> else cfg)))"

definition slh_NewWithRegistry :: "slh_config \<Rightarrow> bool \<Rightarrow> slh_config option" where
  "slh_NewWithRegistry cfg has_registry = (if \<not> has_registry then None else slh_New cfg)"

definition validateTarget :: "target \<Rightarrow> slh_error option" where
  "validateTarget t =
     (if Validate t \<noteq> None then Some (slh_err ErrInvalidTarget)
      else if IMSI t \<noteq> [] \<and> (length (IMSI t) < 6 \<or> length (IMSI t) > 15)
      then Some (slh_err ErrInvalidTarget)
      else None)"

definition sessionID :: "bytes \<Rightarrow> string \<Rightarrow> string" where
  "sessionID rnd host = host @ '';'' @ EncodeToString rnd"

text \<open>The error of \<open>EncodeMSISDN\<close> is discarded here: a failed encoding leaves a nil slice.\<close>

definition msisdn_avp :: "string \<Rightarrow> avp" where
  "msisdn_avp s = AVP avpMSISDN (Vbit OR Mbit) Vendor3GPP
     (OctetString (case EncodeMSISDN s of None \<Rightarrow> [] | Some b \<Rightarrow> b))"

definition BuildRIR :: "diam_lib \<Rightarrow> slh_config \<Rightarrow> bytes \<Rightarrow> target \<Rightarrow> slh_error + message" where
  "BuildRIR lib cfg rnd t =
     (case validateTarget t of
        Some e \<Rightarrow> Inl e
      | None \<Rightarrow>
          Inr (add_avps lib (NewRequest lib CommandRoutingInfo slh_ApplicationID)
            ([AVP avp_SessionID Mbit 0 (UTF8String (sessionID rnd (sc_OriginHost cfg))),
              AVP avp_AuthSessionState Mbit 0 (Enumerated 1),
              AVP avp_OriginHost Mbit 0 (DiameterIdentity (sc_OriginHost cfg)),
              AVP avp_OriginRealm Mbit 0 (DiameterIdentity (sc_OriginRealm cfg)),
              AVP avp_DestinationRealm Mbit 0 (DiameterIdentity (sc_DestinationRealm cfg))]
             @ (if sc_DestinationHost cfg \<noteq> []
                then [AVP avp_DestinationHost Mbit 0 (DiameterIdentity (sc_DestinationHost cfg))] else [])
             @ (if IMSI t \<noteq> [] then [AVP avp_UserName Mbit 0 (UTF8String (IMSI t))] else [])
             @ (if MSISDN t \<noteq> [] then [msisdn_avp (MSISDN t)] else []))))"

section \<open>Answers\<close>

definition find_avps :: "message \<Rightarrow> u32 \<Rightarrow> u32 \<Rightarrow> avp list" where
  "find_avps m code vendor = filter (\<lambda>a. avp_code a = code \<and> avp_vendor a = vendor) (AVPs m)"

definition findGrouped :: "avp list \<Rightarrow> u32 \<Rightarrow> u32 \<Rightarrow> avp list" where
  "findGrouped g code vendor = filter (\<lambda>a. avp_code a = code \<and> avp_vendor a = vendor) g"

definition slh_exp_error :: "u32 \<Rightarrow> slh_error" where
  "slh_exp_error v =
     \<lparr>se_Kind = (if v = 5001 then ErrUnknownSubscriber
        else if v = 4201 then ErrNoServingNode
        else if v = 5490 then ErrUnauthorized
        else ExperimentalFailure),
      se_ResultCode = 0, se_ExperimentalCode = v\<rparr>"

definition resultError :: "message \<Rightarrow> slh_error option" where
  "resultError m =
     (let base = find_avps m avp_ResultCode 0; ex = find_avps m avp_ExperimentalResult 0 in
      if length base > 1 \<or> length ex > 1 \<or> (length base > 0 \<and> length ex > 0)
      then Some (slh_err ErrMalformed)
      else if length base = 1 then
        (case avp_data (base ! 0) of
           Unsigned32 v \<Rightarrow>
             (if v = Success then None
              else Some \<lparr>se_Kind = DiameterBaseFailure, se_ResultCode = v, se_ExperimentalCode = 0\<rparr>)
         | _ \<Rightarrow> Some (slh_err ErrMalformed))
      else if length ex = 1 then
        (case avp_data (ex ! 0) of
           GroupedAVP g \<Rightarrow>
             (let codes = findGrouped g avp_ExperimentalResultCode 0 in
              if length codes \<noteq> 1 then Some (slh_err ErrMalformed)
              else case avp_data (codes ! 0) of
                Unsigned32 v \<Rightarrow> Some (slh_exp_error v)
              | _ \<Rightarrow> Some (slh_err ErrMalformed))
         | _ \<Rightarrow> Some (slh_err ErrMalformed))
      else Some (slh_err ErrMalformed))"

definition serving_node_of :: "slh_config \<Rightarrow> time \<Rightarrow> avp list \<Rightarrow> slh_error + serving_node" where
  "serving_node_of cfg now g =
     (let host = findGrouped g avpMMEName Vendor3GPP; realm = findGrouped g avpMMERealm Vendor3GPP in
      if length host = 0 then Inl (slh_err ErrUnsupportedNode)
      else if length host \<noteq> 1 \<or> length realm > 1 then Inl (slh_err ErrContradictory)
      else case avp_data (host ! 0) of
        DiameterIdentity h \<Rightarrow>
          (if TrimSpace h = [] then Inl (slh_err ErrMalformed)
           else if length realm = 1 then
             (case avp_data (realm ! 0) of
                DiameterIdentity v \<Rightarrow>
                  (if TrimSpace v = [] then Inl (slh_err ErrMalformed)
                   else Inr \<lparr>sn_Type = ''mme'', sn_MMEHost = h, sn_MMERealm = v,
                     sn_Source = sc_Source cfg, sn_ResolvedAt = now\<rparr>)
              | _ \<Rightarrow> Inl (slh_err ErrMalformed))
           else Inr \<lparr>sn_Type = ''mme'', sn_MMEHost = h, sn_MMERealm = [],
             sn_Source = sc_Source cfg, sn_ResolvedAt = now\<rparr>)
      | _ \<Rightarrow> Inl (slh_err ErrMalformed))"

definition DecodeRIA ::
  "slh_config \<Rightarrow> time \<Rightarrow> message option \<Rightarrow> message option \<Rightarrow> slh_error + serving_node" where
  "DecodeRIA cfg now req ans =
     (case ans of
        None \<Rightarrow> Inl (slh_err ErrMalformed)
      | Some a \<Rightarrow>
          (if ApplicationID (Header a) \<noteq> slh_ApplicationID \<or> CommandCode (Header a) \<noteq> CommandRoutingInfo
              \<or> is_request a
           then Inl (slh_err ErrMalformed)
           else if (case req of None \<Rightarrow> False
                    | Some q \<Rightarrow> HopByHopID (Header a) \<noteq> HopByHopID (Header q)
                        \<or> EndToEndID (Header a) \<noteq> EndToEndID (Header q))
           then Inl (slh_err ErrMalformed)
           else case resultError a of
             Some e \<Rightarrow> Inl e
           | None \<Rightarrow>
               (let nodes = find_avps a avpServingNode Vendor3GPP in
                if length nodes \<noteq> 1 then Inl (slh_err ErrNoServingNode)
                else case avp_data (nodes ! 0) of
                  GroupedAVP g \<Rightarrow> serving_node_of cfg now g
                | _ \<Rightarrow> Inl (slh_err ErrMalformed))))"

section \<open>Resolution\<close>

datatype resolve_error = SlhError slh_error | SlhTransport transport_error

text \<open>
  The transport answers the message that was sent with an answer or an error, together with the
  state of the request's context afterwards (\<open>c.Err()\<close>: none, deadline exceeded or cancelled) and the
  message as the transport left it (it assigns the hop-by-hop identifier).  \<open>route\<close> is the result of
  \<open>RoundTripperFor\<close> when a registry is configured.
\<close>

type_synonym round_trip =
  "message \<Rightarrow> message \<times> (transport_error + message option) \<times> transport_error option"

definition ResolveServingNode ::
  "diam_lib \<Rightarrow> slh_config \<Rightarrow> bytes \<Rightarrow> time \<Rightarrow> transport_error option \<Rightarrow> round_trip \<Rightarrow> target
     \<Rightarrow> resolve_error + serving_node" where
  "ResolveServingNode lib cfg rnd now route rt t =
     (case BuildRIR lib cfg rnd t of
        Inl e \<Rightarrow> Inl (SlhError e)
      | Inr m \<Rightarrow>
          (case route of
             Some e \<Rightarrow> Inl (SlhTransport e)
           | None \<Rightarrow>
               (case rt m of
                  (m', Inl err, cerr) \<Rightarrow>
                    (if cerr = Some DeadlineExceeded \<or> err = DeadlineExceeded
                     then Inl (SlhError (slh_err ErrTimeout))
                     else if cerr = Some Canceled \<or> err = Canceled
                     then Inl (SlhError (slh_err ErrCancelled))
                     else Inl (SlhTransport err))
                | (m', Inr ans, cerr) \<Rightarrow>
                    (case DecodeRIA cfg now (Some m') ans of
                       Inl e \<Rightarrow> Inl (SlhError e)
                     | Inr n \<Rightarrow> Inr n))))"

section \<open>Facts about TBCD\<close>

lemma of_char_digit: "is_digit c \<Longrightarrow> (of_char c - of_char (CHR ''0'') :: u8) = of_nat (digit_val c)"
proof -
  assume "is_digit c"
  then have "48 \<le> (of_char c :: nat)" by (simp add: is_digit_alt)
  then have "(of_nat (digit_val c) :: u8) = of_nat (of_char c) - of_nat 48"
    unfolding digit_val_def by (rule of_nat_diff)
  then show ?thesis by (simp add: of_nat_of_char)
qed

lemma of_char_digit': "is_digit c \<Longrightarrow> (of_char c - 48 :: u8) = of_nat (digit_val c)"
  using of_char_digit [of c] by simp

definition pack :: "nat \<Rightarrow> nat \<Rightarrow> u8" where
  "pack a b = of_nat a OR push_bit 4 (of_nat b)"

lemma unat_pack: "a < 16 \<Longrightarrow> b < 16 \<Longrightarrow> unat (pack a b) = a + 16 * b"
  unfolding pack_def by (subst nibbles_unat) (simp_all add: unat_of_nat)

lemma digit_val_bounds [simp]:
  assumes "is_digit c"
  shows "digit_val c < 16" and "\<not> 9 < digit_val c" and "digit_val c \<noteq> 15"
  using digit_val_lt [OF assms] by linarith+

lemma pack_digit:
  assumes "is_digit c" and "b < 16"
  shows "unat (pack (digit_val c) b) div 16 = b" and "unat (pack (digit_val c) b) mod 16 = digit_val c"
proof -
  have "unat (pack (digit_val c) b) = digit_val c + 16 * b" and "digit_val c < 16"
    using digit_val_lt [OF assms(1)] assms(2) by (simp_all only: unat_pack)
  then show "unat (pack (digit_val c) b) div 16 = b"
    and "unat (pack (digit_val c) b) mod 16 = digit_val c" by simp_all
qed

lemma encode_pairs_1: "is_digit c \<Longrightarrow> encode_pairs [c] = Some [pack (digit_val c) 15]"
  by (simp add: pack_def of_char_digit')

lemma encode_pairs_2:
  "is_digit c \<Longrightarrow> is_digit d \<Longrightarrow>
   encode_pairs (c # d # s) = map_option ((#) (pack (digit_val c) (digit_val d))) (encode_pairs s)"
  by (simp add: pack_def of_char_digit')

lemma DecodeMSISDN_Cons:
  "DecodeMSISDN (oct # rest) =
     (let lo = unat oct mod 16; hi = unat oct div 16 in
      if lo > 9 then None
      else if hi = 15 then (if rest \<noteq> [] then None else Some [digit_char lo])
      else if hi > 9 then None
      else map_option (\<lambda>s. digit_char lo # digit_char hi # s) (DecodeMSISDN rest))"
proof -
  have "oct AND 0x0f > 9 \<longleftrightarrow> unat oct mod 16 > 9"
    by (simp add: word_less_nat_alt and_0f)
  moreover have "drop_bit 4 oct = 0x0f \<longleftrightarrow> unat oct div 16 = 15"
    by (simp only: word_unat_eq_iff high_nibble) simp
  moreover have "drop_bit 4 oct > 9 \<longleftrightarrow> unat oct div 16 > 9"
    by (simp only: word_less_nat_alt high_nibble) simp
  ultimately show ?thesis
    unfolding DecodeMSISDN.simps Let_def and_0f high_nibble digit_char_def by (simp only:) simp
qed

lemma encode_pairs_decode:
  "list_all is_digit s \<Longrightarrow> \<exists>b. encode_pairs s = Some b \<and> DecodeMSISDN b = Some s"
proof (induction s rule: encode_pairs.induct)
  case (2 c)
  then have "encode_pairs [c] = Some [pack (digit_val c) 15]" by (simp add: encode_pairs_1 del: encode_pairs.simps)
  then show ?case
    using 2 by (simp add: DecodeMSISDN_Cons Let_def pack_digit del: encode_pairs.simps DecodeMSISDN.simps(2))
next
  case (3 c d s)
  then obtain b where "encode_pairs s = Some b" "DecodeMSISDN b = Some s" by auto
  then show ?case
    using 3 by (simp add: encode_pairs_2 DecodeMSISDN_Cons Let_def pack_digit
        del: encode_pairs.simps DecodeMSISDN.simps(2))
qed simp

lemma decode_digits: "DecodeMSISDN b = Some s \<Longrightarrow> list_all is_digit s"
  by (induction b arbitrary: s) 
    (auto simp: DecodeMSISDN_Cons Let_def simp del: DecodeMSISDN.simps(2) split: if_splits)

lemma decode_encode_pairs: "DecodeMSISDN b = Some s \<Longrightarrow> encode_pairs s = Some b"
proof (induction b arbitrary: s)
  case (Cons oct b)
  let ?lo = "unat oct mod 16" and ?hi = "unat oct div 16"
  have oct: "oct = pack ?lo ?hi"
  proof -
    have "?hi < 16" using u8_lt [of oct] by simp
    then have "unat (pack ?lo ?hi) = unat oct" by (subst unat_pack) simp_all
    then show ?thesis by (simp only: word_unat_eq_iff)
  qed
  from Cons.prems have lo: "?lo < 10"
    by (auto simp: DecodeMSISDN_Cons Let_def simp del: DecodeMSISDN.simps(2) split: if_splits)
  show ?case
  proof (cases "?hi = 15")
    case True
    with Cons.prems lo have "b = []" "s = [digit_char ?lo]"
      by (auto simp: DecodeMSISDN_Cons Let_def simp del: DecodeMSISDN.simps(2) split: if_splits)
    moreover have "encode_pairs [digit_char ?lo] = Some [pack ?lo 15]"
      using lo by (simp add: encode_pairs_1 del: encode_pairs.simps)
    ultimately show ?thesis using oct True by simp
  next
    case False
    with Cons.prems lo obtain r where "?hi < 10" "DecodeMSISDN b = Some r"
      and s: "s = digit_char ?lo # digit_char ?hi # r"
      by (auto simp: DecodeMSISDN_Cons Let_def simp del: DecodeMSISDN.simps(2) split: if_splits)
    with Cons.IH lo have "encode_pairs s = Some (pack ?lo ?hi # b)"
      by (simp add: encode_pairs_2 del: encode_pairs.simps)
    with oct show ?thesis by simp
  qed
qed simp


text \<open>On digit strings of the permitted length the encoder and the decoder form a codec.\<close>

lemma EncodeMSISDN_decode:
  assumes "list_all is_digit s" and "0 < length s" and "length s \<le> 15"
  shows "\<exists>b. EncodeMSISDN s = Some b \<and> DecodeMSISDN b = Some s"
  using encode_pairs_decode [OF assms(1)] assms(2,3) by (auto simp: EncodeMSISDN_def)

interpretation msisdn_codec: codec "\<lambda>s. the (EncodeMSISDN s)" DecodeMSISDN
  "\<lambda>s. list_all is_digit s \<and> 0 < length s \<and> length s \<le> 15"
  using EncodeMSISDN_decode by unfold_locales fastforce

lemma encode_pairs_length: "encode_pairs s = Some b \<Longrightarrow> length b = (length s + 1) div 2"
  by (induction s arbitrary: b rule: encode_pairs.induct) (auto split: if_splits)

lemma encode_pairs_digits: "encode_pairs s \<noteq> None \<longleftrightarrow> list_all is_digit s"
  by (induction s rule: encode_pairs.induct) auto

section \<open>Properties\<close>

text \<open>
  C37: TBCD coding of an MSISDN.  Encoding succeeds exactly on one to fifteen decimal digits, gives
  one octet for each pair of digits, and decoding the octets gives the digits back.
\<close>

theorem EncodeMSISDN_roundtrip:
  "(if list_all is_digit s \<and> 1 \<le> length s \<and> length s \<le> 15
    then (case EncodeMSISDN s of None \<Rightarrow> False
          | Some b \<Rightarrow> length b = (length s + 1) div 2 \<and> DecodeMSISDN b = Some s)
    else EncodeMSISDN s = None)"
proof -
  consider "list_all is_digit s" "1 \<le> length s" "length s \<le> 15"
    | "\<not> list_all is_digit s" | "length s = 0 \<or> length s > 15" by linarith
  then show ?thesis
  proof cases
    case 1
    then obtain b where "EncodeMSISDN s = Some b" "DecodeMSISDN b = Some s"
      using EncodeMSISDN_decode [of s] by fastforce
    with 1 show ?thesis using encode_pairs_length by (auto simp: EncodeMSISDN_def split: if_splits)
  next
    case 2
    then have "encode_pairs s = None" using encode_pairs_digits by blast
    with 2 show ?thesis by (simp add: EncodeMSISDN_def)
  qed (auto simp: EncodeMSISDN_def)
qed

text \<open>
  Decoding is injective on what it accepts: octets that decode to a number of one to fifteen
  digits are the encoding of that number, so no two TBCD strings name the same subscriber.
\<close>

theorem DecodeMSISDN_canonical:
  assumes "DecodeMSISDN b = Some s" and "b \<noteq> []" and "length b \<le> 8" and "length s \<noteq> 16"
  shows "EncodeMSISDN s = Some b"
proof -
  have e: "encode_pairs s = Some b" using assms(1) by (rule decode_encode_pairs)
  then have "length b = (length s + 1) div 2" by (rule encode_pairs_length)
  with assms(2-4) have "0 < length s" "length s \<le> 15" by auto
  with e show ?thesis by (simp add: EncodeMSISDN_def)
qed

theorem DecodeMSISDN_canonical_witness:
  "EncodeMSISDN ''155'' = Some [0x51, 0xf5]"
  by (rule DecodeMSISDN_canonical) (simp_all add: DecodeMSISDN_Cons Let_def digit_char_def char_of_eq_iff take_bit_eq_mod)

lemma BuildRIR_ok:
  assumes "diam_lib_ok lib" and "BuildRIR lib cfg rnd t = Inr m"
  shows "is_request m" and "CommandCode (Header m) = CommandRoutingInfo"
    and "ApplicationID (Header m) = slh_ApplicationID"
    and "with_code avp_UserName 0 (AVPs m) =
      (if IMSI t = [] then [] else [AVP avp_UserName Mbit 0 (UTF8String (IMSI t))])"
    and "with_code avpMSISDN Vendor3GPP (AVPs m) = (if MSISDN t = [] then [] else [msisdn_avp (MSISDN t)])"
    and "validateTarget t = None"
  using assms
  by (auto simp: BuildRIR_def add_avps_AVPs NewRequest_ok msisdn_avp_def slh_consts
      diam_consts split: option.splits)

text \<open>
  A Routing-Info request that is sent carries the identities of its target: for a target whose
  identities need no trimming the User-Name AVP is the IMSI and the single MSISDN AVP decodes back
  to the MSISDN.
\<close>

theorem BuildRIR_identifies_target:
  assumes "diam_lib_ok lib" and "BuildRIR lib cfg rnd t = Inr m"
    and "TrimSpace (MSISDN t) = MSISDN t" and "TrimSpace (IMSI t) = IMSI t"
  shows "is_request m \<and> CommandCode (Header m) = CommandRoutingInfo
    \<and> with_code avp_UserName 0 (AVPs m) =
        (if IMSI t = [] then [] else [AVP avp_UserName Mbit 0 (UTF8String (IMSI t))])
    \<and> (if MSISDN t = [] then with_code avpMSISDN Vendor3GPP (AVPs m) = []
       else \<exists>b. with_code avpMSISDN Vendor3GPP (AVPs m) =
               [AVP avpMSISDN (Vbit OR Mbit) Vendor3GPP (OctetString b)] \<and> DecodeMSISDN b = Some (MSISDN t))
    \<and> (IMSI t \<noteq> [] \<or> MSISDN t \<noteq> [])"
proof -
  note ok = BuildRIR_ok [OF assms(1,2)]
  then have v: "valid_target t" by (auto simp: validateTarget_def Validate_None split: if_splits)
  then have ne: "IMSI t \<noteq> [] \<or> MSISDN t \<noteq> []" by (auto simp: valid_target_def)
  have "\<exists>b. msisdn_avp (MSISDN t) = AVP avpMSISDN (Vbit OR Mbit) Vendor3GPP (OctetString b)
      \<and> DecodeMSISDN b = Some (MSISDN t)" if "MSISDN t \<noteq> []"
    using that v EncodeMSISDN_decode [of "MSISDN t"] assms(3)
    by (auto simp: msisdn_avp_def valid_target_def valid_identity_def)
  with ok ne show ?thesis by simp
qed

definition sample_slh :: slh_config where
  "sample_slh = \<lparr>sc_OriginHost = ''gmlc'', sc_OriginRealm = ''net'', sc_DestinationRealm = ''net'',
     sc_DestinationHost = [], sc_RequestTimeout = 5 * second, sc_Source = ''slh''\<rparr>"

theorem BuildRIR_identifies_target_witness:
  "\<exists>m b. BuildRIR sample_lib sample_slh [] \<lparr>IMSI = [], MSISDN = ''155''\<rparr> = Inr m
     \<and> with_code avpMSISDN Vendor3GPP (AVPs m) =
         [AVP avpMSISDN (Vbit OR Mbit) Vendor3GPP (OctetString b)] \<and> DecodeMSISDN b = Some ''155''"
proof -
  let ?t = "\<lparr>IMSI = [], MSISDN = ''155''\<rparr>"
  have d: "list_all is_digit ''155''" by (simp add: is_digit_alt)
  then have "validateTarget ?t = None" by (simp add: validateTarget_def Validate_None valid_digits)
  then obtain m where "BuildRIR sample_lib sample_slh [] ?t = Inr m" by (simp add: BuildRIR_def)
  moreover from BuildRIR_identifies_target [OF sample_lib_ok this] d
  have "\<exists>b. with_code avpMSISDN Vendor3GPP (AVPs m) =
         [AVP avpMSISDN (Vbit OR Mbit) Vendor3GPP (OctetString b)] \<and> DecodeMSISDN b = Some ''155''"
    by (simp add: TrimSpace_digits)
  ultimately show ?thesis by blast
qed

text \<open>
  A target whose MSISDN carries a leading blank passes validation, and its Routing-Info request
  is sent with an MSISDN AVP of no octets, because the encoding error is discarded.
\<close>

theorem BuildRIR_blank_MSISDN:
  "\<exists>m. BuildRIR sample_lib sample_slh [] \<lparr>IMSI = [], MSISDN = '' 155''\<rparr> = Inr m
     \<and> with_code avpMSISDN Vendor3GPP (AVPs m) =
         [AVP avpMSISDN (Vbit OR Mbit) Vendor3GPP (OctetString [])]"
proof -
  have "TrimSpace '' 155'' = ''155''"
    by (simp add: TrimSpace_def trim_left.simps trim_right.simps strip_left_def strip_right_def
        white_space_def suffix_def)
  then have "validateTarget \<lparr>IMSI = [], MSISDN = '' 155''\<rparr> = None"
    by (simp add: validateTarget_def Validate_None valid_target_def valid_identity_def is_digit_alt)
  then obtain m where m: "BuildRIR sample_lib sample_slh [] \<lparr>IMSI = [], MSISDN = '' 155''\<rparr> = Inr m"
    by (simp add: BuildRIR_def)
  have "EncodeMSISDN '' 155'' = None" by (simp add: EncodeMSISDN_def is_digit_alt)
  with BuildRIR_ok(5) [OF sample_lib_ok m] m show ?thesis by (auto simp: msisdn_avp_def)
qed

lemma resultError_None:
  "resultError m = None \<longleftrightarrow>
     map avp_data (find_avps m avp_ResultCode 0) = [Unsigned32 Success]
     \<and> find_avps m avp_ExperimentalResult 0 = []"
proof -
  consider "find_avps m avp_ResultCode 0 = []" | a where "find_avps m avp_ResultCode 0 = [a]"
    | a b r where "find_avps m avp_ResultCode 0 = a # b # r"
    by (metis list.exhaust)
  then show ?thesis
    by cases (auto simp: resultError_def Let_def split: avp_data.splits)
qed

definition node_from :: "slh_config \<Rightarrow> time \<Rightarrow> avp list \<Rightarrow> serving_node \<Rightarrow> bool" where
  "node_from cfg now g n \<longleftrightarrow>
     map avp_data (findGrouped g avpMMEName Vendor3GPP) = [DiameterIdentity (sn_MMEHost n)]
     \<and> TrimSpace (sn_MMEHost n) \<noteq> []
     \<and> (if findGrouped g avpMMERealm Vendor3GPP = [] then sn_MMERealm n = []
        else map avp_data (findGrouped g avpMMERealm Vendor3GPP) = [DiameterIdentity (sn_MMERealm n)]
             \<and> TrimSpace (sn_MMERealm n) \<noteq> [])
     \<and> sn_Type n = ''mme'' \<and> sn_Source n = sc_Source cfg \<and> sn_ResolvedAt n = now"

lemma list_cases_2: "xs = [] \<or> (\<exists>a. xs = [a]) \<or> length xs > 1"
  by (cases xs; cases "tl xs") auto

lemma serving_node_of_sound: "serving_node_of cfg now g = Inr n \<Longrightarrow> node_from cfg now g n"
  using list_cases_2 [of "findGrouped g avpMMEName Vendor3GPP"]
    list_cases_2 [of "findGrouped g avpMMERealm Vendor3GPP"]
  by (elim disjE exE)
    (auto simp: serving_node_of_def node_from_def Let_def split: avp_data.splits if_splits)

text \<open>
  C33: An answer is taken as a serving node only if it is an answer to the Routing-Info request that
  was sent (application, command, hop-by-hop and end-to-end identifiers), its single result is
  success with no experimental result, and its single Serving-Node AVP names exactly one MME host
  and at most one realm; the node is that host and realm, neither of them blank.
\<close>

theorem DecodeRIA_sound:
  assumes "DecodeRIA cfg now (Some req) ans = Inr n"
  shows "\<exists>a g. ans = Some a \<and> \<not> is_request a
    \<and> ApplicationID (Header a) = slh_ApplicationID \<and> CommandCode (Header a) = CommandRoutingInfo
    \<and> HopByHopID (Header a) = HopByHopID (Header req) \<and> EndToEndID (Header a) = EndToEndID (Header req)
    \<and> map avp_data (find_avps a avp_ResultCode 0) = [Unsigned32 Success]
    \<and> find_avps a avp_ExperimentalResult 0 = []
    \<and> map avp_data (find_avps a avpServingNode Vendor3GPP) = [GroupedAVP g]
    \<and> node_from cfg now g n"
proof -
  from assms obtain a where a: "ans = Some a" "\<not> is_request a"
    "ApplicationID (Header a) = slh_ApplicationID" "CommandCode (Header a) = CommandRoutingInfo"
    "HopByHopID (Header a) = HopByHopID (Header req)" "EndToEndID (Header a) = EndToEndID (Header req)"
    and r: "resultError a = None"
    and l: "length (find_avps a avpServingNode Vendor3GPP) = Suc 0"
    by (auto simp: DecodeRIA_def Let_def split: option.splits if_splits)
  from l obtain sn where sn: "find_avps a avpServingNode Vendor3GPP = [sn]"
    by (cases "find_avps a avpServingNode Vendor3GPP") auto
  with assms a r obtain g where g: "avp_data sn = GroupedAVP g" "serving_node_of cfg now g = Inr n"
    by (auto simp: DecodeRIA_def split: avp_data.splits)
  from serving_node_of_sound [OF g(2)] a r sn g show ?thesis
    by (simp add: resultError_None)
qed

definition sample_RIA :: message where
  "sample_RIA = \<lparr>Header = \<lparr>CommandFlags = 0, CommandCode = CommandRoutingInfo,
       ApplicationID = slh_ApplicationID, HopByHopID = 0, EndToEndID = 0\<rparr>,
     AVPs = [AVP avp_ResultCode Mbit 0 (Unsigned32 Success),
       AVP avpServingNode (Vbit OR Mbit) Vendor3GPP (GroupedAVP
         [AVP avpMMEName (Vbit OR Mbit) Vendor3GPP (DiameterIdentity ''7'')])]\<rparr>"

theorem DecodeRIA_sound_witness:
  "\<exists>n g. DecodeRIA sample_slh 7 (Some sample_RIA) (Some sample_RIA) = Inr n \<and> node_from sample_slh 7 g n
     \<and> sn_MMEHost n = ''7''"
proof -
  have "TrimSpace ''7'' = ''7''" by (rule TrimSpace_digits) (simp add: is_digit_alt)
  then have d: "DecodeRIA sample_slh 7 (Some sample_RIA) (Some sample_RIA) =
      Inr \<lparr>sn_Type = ''mme'', sn_MMEHost = ''7'', sn_MMERealm = [], sn_Source = ''slh'', sn_ResolvedAt = 7\<rparr>"
    by (simp add: DecodeRIA_def sample_RIA_def sample_slh_def is_request_def resultError_def find_avps_def
        findGrouped_def serving_node_of_def diam_consts slh_consts)
  from DecodeRIA_sound [OF d] obtain g where "node_from sample_slh 7 g
      \<lparr>sn_Type = ''mme'', sn_MMEHost = ''7'', sn_MMERealm = [], sn_Source = ''slh'', sn_ResolvedAt = 7\<rparr>"
    by (elim exE conjE)
  with d show ?thesis by (intro exI conjI) (assumption, assumption, simp)
qed

end
