(* ===== verification/GMLC_Slg.thy ===== *)
theory GMLC_Slg
  imports GMLC_Gad GMLC_Slh
begin

text \<open>
  The SLg client (\<open>internal/slg/slg.go\<close>): the Provide-Location request and its answer, the positioning
  payload shared with the Location-Report request, its decoding and its answer, and \<open>ProvideLocation\<close>.
  A nil slice is the empty list (the sources test for nil only where empty and nil agree), and an
  \<open>Enumerated\<close> is kept as the 32-bit word it is converted from and to.
\<close>

section \<open>Codes and errors\<close>

definition slg_ApplicationID :: u32 where "slg_ApplicationID = 16777255"
definition CommandProvideLocation :: u32 where "CommandProvideLocation = 8388620"
definition CommandLocationReport :: u32 where "CommandLocationReport = 8388621"
definition AVPLocationType :: u32 where "AVPLocationType = 2500"
definition AVPClientName :: u32 where "AVPClientName = 2501"
definition AVPRequestorName :: u32 where "AVPRequestorName = 2502"
definition AVPPriority :: u32 where "AVPPriority = 2503"
definition AVPQoS :: u32 where "AVPQoS = 2504"
definition AVPHorizontalAccuracy :: u32 where "AVPHorizontalAccuracy = 2505"
definition AVPVerticalAccuracy :: u32 where "AVPVerticalAccuracy = 2506"
definition AVPVerticalRequested :: u32 where "AVPVerticalRequested = 2507"
definition AVPVelocityRequested :: u32 where "AVPVelocityRequested = 2508"
definition AVPResponseTime :: u32 where "AVPResponseTime = 2509"
definition AVPSupportedGADShapes :: u32 where "AVPSupportedGADShapes = 2510"
definition AVPQoSClass :: u32 where "AVPQoSClass = 2523"
definition AVPAccuracyFulfilmentInd :: u32 where "AVPAccuracyFulfilmentInd = 2513"
definition AVPAgeOfLocationEstimate :: u32 where "AVPAgeOfLocationEstimate = 2514"
definition AVPVelocityEstimate :: u32 where "AVPVelocityEstimate = 2515"
definition AVPEUTRANPositioningData :: u32 where "AVPEUTRANPositioningData = 2516"
definition AVPECGI :: u32 where "AVPECGI = 2517"
definition AVPServiceTypeID :: u32 where "AVPServiceTypeID = 2520"
definition AVPPrivacyCheck :: u32 where "AVPPrivacyCheck = 2512"
definition AVPPrivacyCheckNonSess :: u32 where "AVPPrivacyCheckNonSess = 2521"
definition AVPLocationEvent :: u32 where "AVPLocationEvent = 2518"
definition AVPLCSReferenceNumber :: u32 where "AVPLCSReferenceNumber = 2531"
definition AVPLCSFormatIndicator :: u32 where "AVPLCSFormatIndicator = 1237"
definition AVPLCSNameString :: u32 where "AVPLCSNameString = 1238"
definition AVPLCSRequestorIDString :: u32 where "AVPLCSRequestorIDString = 1240"
definition LCSFormatLogicalName :: u32 where "LCSFormatLogicalName = 0"
definition VelocityIsRequested :: u32 where "VelocityIsRequested = 1"
definition VerticalIsRequested :: u32 where "VerticalIsRequested = 1"
definition supportedGADShapesMask :: u32 where
  "supportedGADShapesMask = push_bit 0 1 OR push_bit 1 1 OR push_bit 2 1 OR push_bit 3 1"
definition maxRaw :: nat where "maxRaw = 8192"

lemmas slg_consts = slg_ApplicationID_def CommandProvideLocation_def CommandLocationReport_def AVPLocationType_def
  AVPClientName_def AVPRequestorName_def AVPPriority_def AVPQoS_def AVPHorizontalAccuracy_def AVPVerticalAccuracy_def
  AVPVerticalRequested_def AVPVelocityRequested_def AVPResponseTime_def AVPSupportedGADShapes_def AVPQoSClass_def
  AVPAccuracyFulfilmentInd_def AVPAgeOfLocationEstimate_def AVPVelocityEstimate_def AVPEUTRANPositioningData_def
  AVPECGI_def AVPServiceTypeID_def AVPPrivacyCheck_def AVPPrivacyCheckNonSess_def AVPLocationEvent_def
  AVPLCSReferenceNumber_def AVPLCSFormatIndicator_def AVPLCSNameString_def AVPLCSRequestorIDString_def

datatype slg_kind =
    ErrInvalidRequest | ErrRouteUnavailable | ErrMalformedPLA | ErrContradictoryPLA | ErrPositioningDenied
  | ErrPositioningFailed | ErrUEUnreachable | ErrSlgUnknownSubscriber | ErrMalformedLRR
  | SlgBaseFailure | SlgExperimentalFailure

record slg_error =
  ge_Kind :: slg_kind
  ge_ResultCode :: u32
  ge_ExperimentalCode :: u32

abbreviation slg_err :: "slg_kind \<Rightarrow> slg_error" where
  "slg_err k \<equiv> \<lparr>ge_Kind = k, ge_ResultCode = 0, ge_ExperimentalCode = 0\<rparr>"

record slg_config =
  gc_OriginHost :: string
  gc_OriginRealm :: string
  gc_RequestTimeout :: duration

definition slg_New :: "slg_config \<Rightarrow> slg_config option" where
  "slg_New c =
     (if gc_OriginHost c = [] \<or> gc_OriginRealm c = [] then None
      else Some (if gc_RequestTimeout c \<le> 0 then c\<lparr>gc_RequestTimeout := 5 * second\<rparr> else c))"

definition slg_NewWithRegistry :: "slg_config \<Rightarrow> bool \<Rightarrow> slg_config option" where
  "slg_NewWithRegistry c has_registry =
     (if gc_OriginHost c = [] \<or> gc_OriginRealm c = [] \<or> \<not> has_registry then None
      else Some (if gc_RequestTimeout c \<le> 0 then c\<lparr>gc_RequestTimeout := 5 * second\<rparr> else c))"

section \<open>Provide-Location requests\<close>

abbreviation VM :: u8 where "VM \<equiv> Vbit OR Mbit"

definition lcsNameGroup :: "string \<Rightarrow> avp_data" where
  "lcsNameGroup name = GroupedAVP
     [AVP AVPLCSNameString VM Vendor3GPP (UTF8String name),
      AVP AVPLCSFormatIndicator VM Vendor3GPP (Enumerated LCSFormatLogicalName)]"

abbreviation opt_avp :: "'a option \<Rightarrow> ('a \<Rightarrow> avp) \<Rightarrow> avp list" where
  "opt_avp x f \<equiv> (case x of None \<Rightarrow> [] | Some v \<Rightarrow> [f v])"

definition qosGroup :: "qos_request option \<Rightarrow> avp_data option" where
  "qosGroup q =
     (case q of
        None \<Rightarrow> None
      | Some q \<Rightarrow>
          (let children =
             opt_avp (q_Class q) (\<lambda>v. AVP AVPQoSClass VM Vendor3GPP (Enumerated v))
             @ opt_avp (q_HorizontalAccuracyMeters q)
                 (\<lambda>v. AVP AVPHorizontalAccuracy VM Vendor3GPP (Unsigned32 (ucast (EncodeUncertaintyValue v))))
             @ opt_avp (q_VerticalAccuracyMeters q)
                 (\<lambda>v. AVP AVPVerticalAccuracy VM Vendor3GPP (Unsigned32 (ucast (EncodeUncertaintyValue v))))
             @ (if q_VerticalRequested q
                then [AVP AVPVerticalRequested VM Vendor3GPP (Enumerated VerticalIsRequested)] else [])
             @ opt_avp (q_ResponseTimeClass q) (\<lambda>v. AVP AVPResponseTime VM Vendor3GPP (Enumerated v))
           in if children = [] then None else Some (GroupedAVP children)))"

definition session :: "bytes \<Rightarrow> string \<Rightarrow> string" where
  "session rnd h = h @ '';slg;'' @ EncodeToString rnd"

definition plr_avps :: "slg_config \<Rightarrow> bytes \<Rightarrow> serving_node \<Rightarrow> location_request \<Rightarrow> avp list" where
  "plr_avps cfg rnd n r =
     [AVP avp_SessionID Mbit 0 (UTF8String (session rnd (gc_OriginHost cfg))),
      AVP avp_AuthSessionState Mbit 0 (Enumerated 1),
      AVP avp_OriginHost Mbit 0 (DiameterIdentity (gc_OriginHost cfg)),
      AVP avp_OriginRealm Mbit 0 (DiameterIdentity (gc_OriginRealm cfg)),
      AVP avp_DestinationHost Mbit 0 (DiameterIdentity (sn_MMEHost n)),
      AVP avp_DestinationRealm Mbit 0 (DiameterIdentity (sn_MMERealm n)),
      AVP AVPLocationType VM Vendor3GPP (Enumerated (lr_LocationType r)),
      AVP AVPClientName VM Vendor3GPP (lcsNameGroup (lr_ClientName r))]
     @ (if TrimSpace (lr_RequestorName r) \<noteq> []
        then [AVP AVPRequestorName VM Vendor3GPP (GroupedAVP
          [AVP AVPLCSRequestorIDString VM Vendor3GPP (UTF8String (lr_RequestorName r)),
           AVP AVPLCSFormatIndicator VM Vendor3GPP (Enumerated LCSFormatLogicalName)])] else [])
     @ opt_avp (lr_Priority r) (\<lambda>v. AVP AVPPriority VM Vendor3GPP (Unsigned32 v))
     @ opt_avp (qosGroup (lr_QoS r)) (\<lambda>g. AVP AVPQoS VM Vendor3GPP g)
     @ opt_avp (lr_PrivacyCheck r) (\<lambda>v. AVP AVPPrivacyCheckNonSess VM Vendor3GPP (GroupedAVP
          [AVP AVPPrivacyCheck VM Vendor3GPP (Enumerated v)]))
     @ (if lr_VelocityRequested r then [AVP AVPVelocityRequested VM Vendor3GPP (Enumerated VelocityIsRequested)] else [])
     @ opt_avp (lr_ServiceTypeID r) (\<lambda>v. AVP AVPServiceTypeID VM Vendor3GPP (Unsigned32 v))
     @ [AVP AVPSupportedGADShapes VM Vendor3GPP (Unsigned32 supportedGADShapesMask),
        AVP avp_LCSClientType Mbit 0 (Enumerated (lr_ClientType r))]
     @ (if IMSI (lr_Target r) \<noteq> [] then [AVP avp_UserName Mbit 0 (UTF8String (IMSI (lr_Target r)))] else [])"

definition BuildPLR ::
  "diam_lib \<Rightarrow> slg_config \<Rightarrow> bytes \<Rightarrow> serving_node \<Rightarrow> location_request \<Rightarrow> slg_error + message" where
  "BuildPLR lib cfg rnd n r =
     (if sn_Type n \<noteq> ''mme'' \<or> TrimSpace (sn_MMEHost n) = [] \<or> TrimSpace (sn_MMERealm n) = []
      then Inl (slg_err ErrRouteUnavailable)
      else if Validate (lr_Target r) \<noteq> None \<or> TrimSpace (lr_ClientName r) = [] then Inl (slg_err ErrInvalidRequest)
      else if lr_LocationType r \<noteq> LocationCurrent \<and> lr_LocationType r \<noteq> LocationCurrentOrLastKnown
      then Inl (slg_err ErrInvalidRequest)
      else
        (let m = NewRequest lib CommandProvideLocation slg_ApplicationID;
             m = m\<lparr>Header := (Header m)\<lparr>CommandFlags := CommandFlags (Header m) OR ProxiableFlag\<rparr>\<rparr>;
             m = add_avps lib m (plr_avps cfg rnd n r)
         in if MSISDN (lr_Target r) \<noteq> []
            then (case EncodeMSISDN (MSISDN (lr_Target r)) of
                    None \<Rightarrow> Inl (slg_err ErrInvalidRequest)
                  | Some b \<Rightarrow> Inr (NewAVP lib m (AVP avpMSISDN VM Vendor3GPP (OctetString b))))
            else Inr m))"

section \<open>The positioning payload\<close>

record positioning_payload =
  pp_raw :: bytes
  pp_ecgi :: bytes
  pp_velocity :: bytes
  pp_eutran :: bytes
  pp_accuracyFulfilment :: "u32 option"
  pp_ageOfLocationEstimate :: "u32 option"

datatype payload_error = Malformed | Contradiction

text \<open>The loops over the AVPs of one code: a value of the wrong type fails, and the last one wins.\<close>

fun raw_loop :: "bytes \<Rightarrow> avp list \<Rightarrow> payload_error + bytes" where
  "raw_loop raw [] = Inr raw"
| "raw_loop raw (a # as) =
     (case avp_data a of
        OctetString v \<Rightarrow>
          (if length v > maxRaw then Inl Malformed
           else if raw \<noteq> [] then Inl Contradiction
           else raw_loop v as)
      | _ \<Rightarrow> Inl Malformed)"

fun octets_loop :: "(bytes \<Rightarrow> bool) \<Rightarrow> bytes \<Rightarrow> avp list \<Rightarrow> bytes option" where
  "octets_loop ok acc [] = Some acc"
| "octets_loop ok acc (a # as) =
     (case avp_data a of OctetString v \<Rightarrow> if ok v then octets_loop ok v as else None | _ \<Rightarrow> None)"

fun enum_loop :: "u32 option \<Rightarrow> avp list \<Rightarrow> u32 option option" where
  "enum_loop acc [] = Some acc"
| "enum_loop acc (a # as) = (case avp_data a of Enumerated v \<Rightarrow> enum_loop (Some v) as | _ \<Rightarrow> None)"

fun u32_loop :: "u32 option \<Rightarrow> avp list \<Rightarrow> u32 option option" where
  "u32_loop acc [] = Some acc"
| "u32_loop acc (a # as) = (case avp_data a of Unsigned32 v \<Rightarrow> u32_loop (Some v) as | _ \<Rightarrow> None)"

definition decodePositioningPayload :: "message \<Rightarrow> payload_error + positioning_payload" where
  "decodePositioningPayload m =
     (case raw_loop [] (find_avps m avp_LocationEstimate 0) of
        Inl e \<Rightarrow> Inl e
      | Inr raw \<Rightarrow>
     (case octets_loop (\<lambda>v. length v = 7) [] (find_avps m AVPECGI Vendor3GPP) of
        None \<Rightarrow> Inl Malformed
      | Some ecgi \<Rightarrow>
     (case octets_loop (\<lambda>v. True) [] (find_avps m AVPVelocityEstimate Vendor3GPP) of
        None \<Rightarrow> Inl Malformed
      | Some velocity \<Rightarrow>
     (case octets_loop (\<lambda>v. True) [] (find_avps m AVPEUTRANPositioningData Vendor3GPP) of
        None \<Rightarrow> Inl Malformed
      | Some eutran \<Rightarrow>
     (case enum_loop None (find_avps m AVPAccuracyFulfilmentInd Vendor3GPP) of
        None \<Rightarrow> Inl Malformed
      | Some accuracy \<Rightarrow>
     (case u32_loop None (find_avps m AVPAgeOfLocationEstimate Vendor3GPP) of
        None \<Rightarrow> Inl Malformed
      | Some age \<Rightarrow>
          Inr \<lparr>pp_raw = raw, pp_ecgi = ecgi, pp_velocity = velocity, pp_eutran = eutran,
            pp_accuracyFulfilment = accuracy, pp_ageOfLocationEstimate = age\<rparr>))))))"

definition gadShapeName :: "shape_type \<Rightarrow> string" where
  "gadShapeName s = (case s of
     ShapeEllipsoidPointUncertaintyCircle \<Rightarrow> ''ellipsoid_point_uncertainty_circle''
   | ShapeEllipsoidPointUncertaintyEllipse \<Rightarrow> ''ellipsoid_point_uncertainty_ellipse''
   | ShapePolygon \<Rightarrow> ''polygon''
   | _ \<Rightarrow> ''ellipsoid_point'')"

definition positionFromGAD :: "gad_result \<Rightarrow> geographic_position option" where
  "positionFromGAD g =
     (case g_Point g of
        None \<Rightarrow> None
      | Some p \<Rightarrow> Some \<lparr>gp_Shape = gadShapeName (g_Shape g), gp_Latitude = LatitudeDegrees p,
          gp_Longitude = LongitudeDegrees p, gp_UncertaintyMeters = g_UncertaintyMeters g,
          gp_SemiMajorMeters = map_option SemiMajorMeters (g_Ellipse g),
          gp_SemiMinorMeters = map_option SemiMinorMeters (g_Ellipse g),
          gp_OrientationDegrees = map_option OrientationDegrees (g_Ellipse g),
          gp_ConfidencePercent = map_option (\<lambda>e. ucast (ConfidencePercent e)) (g_Ellipse g)\<rparr>)"

section \<open>Provide-Location answers\<close>

definition exp_error :: "u32 \<Rightarrow> slg_error" where
  "exp_error v =
     \<lparr>ge_Kind = (if v = 5001 then ErrSlgUnknownSubscriber
        else if v = 4221 then ErrUEUnreachable
        else if v = 4224 then ErrPositioningDenied
        else if v = 4225 then ErrPositioningFailed
        else SlgExperimentalFailure),
      ge_ResultCode = 0, ge_ExperimentalCode = v\<rparr>"

text \<open>The result of an answer: \<open>None\<close> for the single success, otherwise the error.\<close>

definition pla_result :: "message \<Rightarrow> slg_error option" where
  "pla_result ans =
     (let base = find_avps ans avp_ResultCode 0; ex = find_avps ans avp_ExperimentalResult 0 in
      if length base > 1 \<or> length ex > 1 \<or> length base + length ex \<noteq> 1 then Some (slg_err ErrMalformedPLA)
      else if length base = 1 then
        (case avp_data (base ! 0) of
           Unsigned32 v \<Rightarrow>
             (if v \<noteq> Success then Some \<lparr>ge_Kind = SlgBaseFailure, ge_ResultCode = v, ge_ExperimentalCode = 0\<rparr> else None)
         | _ \<Rightarrow> Some (slg_err ErrMalformedPLA))
      else
        (case avp_data (ex ! 0) of
           GroupedAVP g \<Rightarrow>
             (let x = findGrouped g avp_ExperimentalResultCode 0 in
              if length x \<noteq> 1 then Some (slg_err ErrMalformedPLA)
              else case avp_data (x ! 0) of
                Unsigned32 v \<Rightarrow> Some (exp_error v)
              | _ \<Rightarrow> Some (slg_err ErrMalformedPLA))
         | _ \<Rightarrow> Some (slg_err ErrMalformedPLA)))"

definition pla_payload :: "positioning_payload \<Rightarrow> slg_error + positioning_result" where
  "pla_payload pp =
     (let out = \<lparr>pr_Kind = Kind_None, pr_RawLocationEstimate = pp_raw pp, pr_RawVelocityEstimate = pp_velocity pp,
            pr_ECGI = pp_ecgi pp, pr_EUTRANPositioningData = pp_eutran pp,
            pr_AccuracyFulfilment = pp_accuracyFulfilment pp, pr_AgeOfLocationEstimate = pp_ageOfLocationEstimate pp,
            pr_ResultCode = Success, pr_ExperimentalCode = 0, pr_Position = None\<rparr> in
      if pp_raw pp \<noteq> [] then
        (case Decode (pp_raw pp) of
           Inl e \<Rightarrow> Inl (slg_err ErrMalformedPLA)
         | Inr g \<Rightarrow> Inr (out\<lparr>pr_Position := positionFromGAD g, pr_Kind := LocationEstimate\<rparr>))
      else if pp_ecgi pp \<noteq> [] then Inr (out\<lparr>pr_Kind := AdditionalInformation\<rparr>)
      else Inr (out\<lparr>pr_Kind := NoImmediateResult\<rparr>))"

definition DecodePLA :: "message option \<Rightarrow> message option \<Rightarrow> slg_error + positioning_result" where
  "DecodePLA req ans =
     (case ans of
        None \<Rightarrow> Inl (slg_err ErrMalformedPLA)
      | Some a \<Rightarrow>
          (if ApplicationID (Header a) \<noteq> slg_ApplicationID \<or> CommandCode (Header a) \<noteq> CommandProvideLocation
              \<or> is_request a
           then Inl (slg_err ErrMalformedPLA)
           else if (case req of None \<Rightarrow> False
                    | Some q \<Rightarrow> HopByHopID (Header q) \<noteq> HopByHopID (Header a)
                        \<or> EndToEndID (Header q) \<noteq> EndToEndID (Header a))
           then Inl (slg_err ErrMalformedPLA)
           else case pla_result a of
             Some e \<Rightarrow> Inl e
           | None \<Rightarrow>
               (case decodePositioningPayload a of
                  Inl Malformed \<Rightarrow> Inl (slg_err ErrMalformedPLA)
                | Inl Contradiction \<Rightarrow> Inl (slg_err ErrContradictoryPLA)
                | Inr pp \<Rightarrow> pla_payload pp)))"

datatype provide_error = SlgError slg_error | SlgTransport transport_error

definition ProvideLocation ::
  "diam_lib \<Rightarrow> slg_config \<Rightarrow> bytes \<Rightarrow> transport_error option \<Rightarrow> round_trip \<Rightarrow> serving_node \<Rightarrow> location_request
     \<Rightarrow> provide_error + positioning_result" where
  "ProvideLocation lib cfg rnd route rt node r =
     (case BuildPLR lib cfg rnd node r of
        Inl e \<Rightarrow> Inl (SlgError e)
      | Inr m \<Rightarrow>
          (case route of
             Some e \<Rightarrow> Inl (SlgError (slg_err ErrRouteUnavailable))
           | None \<Rightarrow>
               (case rt m of
                  (m', Inl e, cerr) \<Rightarrow> Inl (SlgTransport e)
                | (m', Inr a, cerr) \<Rightarrow>
                    (case DecodePLA (Some m') a of
                       Inl e \<Rightarrow> Inl (SlgError e)
                     | Inr out \<Rightarrow> Inr out))))"

section \<open>Location reports\<close>

fun username_loop :: "string \<Rightarrow> avp list \<Rightarrow> string option" where
  "username_loop acc [] = Some acc"
| "username_loop acc (a # as) = (case avp_data a of UTF8String s \<Rightarrow> username_loop s as | _ \<Rightarrow> None)"

fun msisdn_loop :: "string \<Rightarrow> avp list \<Rightarrow> string option" where
  "msisdn_loop acc [] = Some acc"
| "msisdn_loop acc (a # as) =
     (case avp_data a of
        OctetString b \<Rightarrow> (case DecodeMSISDN b of None \<Rightarrow> None | Some s \<Rightarrow> msisdn_loop s as)
      | _ \<Rightarrow> None)"

fun client_name_loop :: "string \<Rightarrow> avp list \<Rightarrow> string option" where
  "client_name_loop acc [] = Some acc"
| "client_name_loop acc (a # as) =
     (case avp_data a of
        GroupedAVP g \<Rightarrow>
          (let n = findGrouped g AVPLCSNameString Vendor3GPP in
           client_name_loop
             (if length n = 1 then (case avp_data (n ! 0) of UTF8String s \<Rightarrow> s | _ \<Rightarrow> acc) else acc) as)
      | _ \<Rightarrow> None)"

definition location_report_header :: "message \<Rightarrow> bool" where
  "location_report_header m \<longleftrightarrow>
     ApplicationID (Header m) = slg_ApplicationID \<and> CommandCode (Header m) = CommandLocationReport \<and> is_request m"

definition DecodeLRR :: "message option \<Rightarrow> slg_error + location_report" where
  "DecodeLRR m =
     (case m of
        None \<Rightarrow> Inl (slg_err ErrMalformedLRR)
      | Some m \<Rightarrow>
     (if \<not> location_report_header m then Inl (slg_err ErrMalformedLRR)
      else
     (let ev = find_avps m AVPLocationEvent Vendor3GPP in
      if length ev \<noteq> 1 then Inl (slg_err ErrMalformedLRR)
      else case avp_data (ev ! 0) of
        Enumerated v \<Rightarrow>
     (case username_loop [] (find_avps m avp_UserName 0) of
        None \<Rightarrow> Inl (slg_err ErrMalformedLRR)
      | Some imsi \<Rightarrow>
     (case msisdn_loop [] (find_avps m avpMSISDN Vendor3GPP) of
        None \<Rightarrow> Inl (slg_err ErrMalformedLRR)
      | Some msisdn \<Rightarrow>
     (case client_name_loop [] (find_avps m AVPClientName Vendor3GPP) of
        None \<Rightarrow> Inl (slg_err ErrMalformedLRR)
      | Some name \<Rightarrow>
     (case octets_loop (\<lambda>b. length b = 1) [] (find_avps m AVPLCSReferenceNumber Vendor3GPP) of
        None \<Rightarrow> Inl (slg_err ErrMalformedLRR)
      | Some ref \<Rightarrow>
     (case decodePositioningPayload m of
        Inl _ \<Rightarrow> Inl (slg_err ErrMalformedLRR)
      | Inr pp \<Rightarrow>
     (let out = \<lparr>rep_LocationEvent = v, rep_Target = \<lparr>IMSI = imsi, MSISDN = msisdn\<rparr>, rep_ClientName = name,
            rep_LCSReferenceNumber = (case ref of [] \<Rightarrow> None | b # _ \<Rightarrow> Some b),
            rep_RawLocationEstimate = pp_raw pp, rep_ECGI = pp_ecgi pp, rep_RawVelocityEstimate = pp_velocity pp,
            rep_EUTRANPositioningData = pp_eutran pp, rep_AccuracyFulfilment = pp_accuracyFulfilment pp,
            rep_AgeOfLocationEstimate = pp_ageOfLocationEstimate pp, rep_Position = None\<rparr> in
      if pp_raw pp \<noteq> [] then
        (case Decode (pp_raw pp) of
           Inl _ \<Rightarrow> Inl (slg_err ErrMalformedLRR)
         | Inr g \<Rightarrow> Inr (out\<lparr>rep_Position := positionFromGAD g\<rparr>))
      else Inr out))))))
      | _ \<Rightarrow> Inl (slg_err ErrMalformedLRR))))"

definition BuildLRA :: "diam_lib \<Rightarrow> slg_config \<Rightarrow> message option \<Rightarrow> u32 \<Rightarrow> slg_error + message" where
  "BuildLRA lib cfg req resultCode =
     (case req of
        None \<Rightarrow> Inl (slg_err ErrMalformedLRR)
      | Some q \<Rightarrow>
          (if \<not> location_report_header q then Inl (slg_err ErrMalformedLRR)
           else
             (let sess = find_avps q avp_SessionID 0 in
              if length sess \<noteq> 1 then Inl (slg_err ErrMalformedLRR)
              else Inr (add_avps lib (Answer lib q resultCode)
                [AVP avp_SessionID Mbit 0 (avp_data (sess ! 0)),
                 AVP avp_AuthSessionState Mbit 0 (Enumerated 1),
                 AVP avp_OriginHost Mbit 0 (DiameterIdentity (gc_OriginHost cfg)),
                 AVP avp_OriginRealm Mbit 0 (DiameterIdentity (gc_OriginRealm cfg))]))))"

section \<open>Facts\<close>

lemma Decode_Inr_ok: "Decode data = Inr g \<Longrightarrow> gad_ok g"
  using Decode_sound_lemma [of data] by (simp add: sound_def)

text \<open>A position that is reported is on the globe.\<close>

definition position_ok :: "geographic_position \<Rightarrow> bool" where
  "position_ok p \<longleftrightarrow> - 90 < gp_Latitude p \<and> gp_Latitude p < 90 \<and> - 180 \<le> gp_Longitude p \<and> gp_Longitude p < 180
     \<and> (\<forall>u. gp_UncertaintyMeters p = Some u \<longrightarrow> 0 \<le> u)"

lemma positionFromGAD_ok: "gad_ok g \<Longrightarrow> positionFromGAD g = Some p \<Longrightarrow> position_ok p"
  by (auto simp: positionFromGAD_def gad_ok_def point_ok_def position_ok_def split: option.splits)

lemma pla_result_None:
  "pla_result m = None \<longleftrightarrow>
     map avp_data (find_avps m avp_ResultCode 0) = [Unsigned32 Success] \<and> find_avps m avp_ExperimentalResult 0 = []"
proof -
  consider "find_avps m avp_ResultCode 0 = []" | a where "find_avps m avp_ResultCode 0 = [a]"
    | a b r where "find_avps m avp_ResultCode 0 = a # b # r"
    by (metis list.exhaust)
  then show ?thesis
    by cases (auto simp: pla_result_def Let_def split: avp_data.splits)
qed

lemma octets_loop_ok: "octets_loop ok acc as = Some v \<Longrightarrow> v = acc \<or> ok v"
  by (induction ok acc as rule: octets_loop.induct) (auto split: avp_data.splits if_splits)

lemma raw_loop_len: "raw_loop raw as = Inr v \<Longrightarrow> length raw \<le> maxRaw \<Longrightarrow> length v \<le> maxRaw"
  by (induction raw as rule: raw_loop.induct) (auto split: avp_data.splits if_splits)

text \<open>A second non-empty location estimate is never accepted.\<close>

lemma raw_loop_single:
  "raw_loop raw as = Inr v \<Longrightarrow> raw \<noteq> [] \<Longrightarrow> as = [] \<and> v = raw"
  by (cases as) (auto split: avp_data.splits if_splits)

lemma raw_loop_mem: "raw_loop raw as = Inr v \<Longrightarrow> v = raw \<or> OctetString v \<in> avp_data ` set as"
  by (induction raw as rule: raw_loop.induct) (auto split: avp_data.splits if_splits)

lemma payload_facts:
  assumes "decodePositioningPayload m = Inr pp"
  shows "length (pp_raw pp) \<le> maxRaw" and "pp_ecgi pp = [] \<or> length (pp_ecgi pp) = 7"
    and "pp_raw pp = [] \<or> OctetString (pp_raw pp) \<in> avp_data ` set (find_avps m avp_LocationEstimate 0)"
proof -
  from assms have r: "raw_loop [] (find_avps m avp_LocationEstimate 0) = Inr (pp_raw pp)"
    and e: "octets_loop (\<lambda>v. length v = 7) [] (find_avps m AVPECGI Vendor3GPP) = Some (pp_ecgi pp)"
    by (auto simp: decodePositioningPayload_def split: sum.splits option.splits)
  show "length (pp_raw pp) \<le> maxRaw" "pp_ecgi pp = [] \<or> length (pp_ecgi pp) = 7"
    "pp_raw pp = [] \<or> OctetString (pp_raw pp) \<in> avp_data ` set (find_avps m avp_LocationEstimate 0)"
    using raw_loop_len [OF r] octets_loop_ok [OF e] raw_loop_mem [OF r] by auto
qed

text \<open>What the kind of a positioning result says about its contents.\<close>

definition result_ok :: "positioning_result \<Rightarrow> bool" where
  "result_ok out \<longleftrightarrow>
     (case pr_Kind out of
        LocationEstimate \<Rightarrow> pr_RawLocationEstimate out \<noteq> [] \<and> length (pr_RawLocationEstimate out) \<le> maxRaw
          \<and> (\<exists>g. Decode (pr_RawLocationEstimate out) = Inr g \<and> pr_Position out = positionFromGAD g)
          \<and> (\<forall>p. pr_Position out = Some p \<longrightarrow> position_ok p)
      | AdditionalInformation \<Rightarrow> pr_RawLocationEstimate out = [] \<and> length (pr_ECGI out) = 7 \<and> pr_Position out = None
      | NoImmediateResult \<Rightarrow> pr_RawLocationEstimate out = [] \<and> pr_ECGI out = [] \<and> pr_Position out = None
      | _ \<Rightarrow> False)"

lemma pla_payload_ok:
  assumes "pla_payload pp = Inr out" and "length (pp_raw pp) \<le> maxRaw" and "pp_ecgi pp = [] \<or> length (pp_ecgi pp) = 7"
  shows "result_ok out"
proof (cases "pp_raw pp = []")
  case True
  with assms(1,3) show ?thesis
    by (auto simp: pla_payload_def Let_def result_ok_def split: if_splits)
next
  case False
  with assms(1) obtain g where g: "Decode (pp_raw pp) = Inr g"
    and out: "pr_Kind out = LocationEstimate" "pr_RawLocationEstimate out = pp_raw pp" "pr_Position out = positionFromGAD g"
    by (auto simp: pla_payload_def Let_def split: sum.splits)
  from positionFromGAD_ok [OF Decode_Inr_ok [OF g]] g out False assms(2) show ?thesis
    by (simp add: result_ok_def)
qed

lemma payload_result_ok: "decodePositioningPayload m = Inr pp \<Longrightarrow> pla_payload pp = Inr out \<Longrightarrow> result_ok out"
  using pla_payload_ok payload_facts by blast

lemma DecodePLA_result_ok: "DecodePLA req ans = Inr out \<Longrightarrow> result_ok out"
  by (auto simp: DecodePLA_def split: option.splits if_splits sum.splits payload_error.splits
      intro: payload_result_ok)

section \<open>Properties\<close>

text \<open>
  C32: An answer is taken as a positioning result only if it answers the Provide-Location request that
  was sent and its single result is success; and then the kind of the result tells its contents: an
  estimate is a description of at most 8192 octets that the GAD decoder accepts, with a position on
  the globe; additional information is a seven-octet cell identity and no estimate; otherwise there is
  neither.  No other kind is ever produced.
\<close>

theorem DecodePLA_sound:
  assumes "DecodePLA (Some req) ans = Inr out"
  shows "\<exists>a. ans = Some a \<and> \<not> is_request a
    \<and> ApplicationID (Header a) = slg_ApplicationID \<and> CommandCode (Header a) = CommandProvideLocation
    \<and> HopByHopID (Header a) = HopByHopID (Header req) \<and> EndToEndID (Header a) = EndToEndID (Header req)
    \<and> map avp_data (find_avps a avp_ResultCode 0) = [Unsigned32 Success] \<and> find_avps a avp_ExperimentalResult 0 = []
    \<and> (pr_RawLocationEstimate out = [] \<or>
       OctetString (pr_RawLocationEstimate out) \<in> avp_data ` set (find_avps a avp_LocationEstimate 0))
    \<and> result_ok out"
proof -
  from assms obtain a pp where a: "ans = Some a" "\<not> is_request a" "ApplicationID (Header a) = slg_ApplicationID"
    "CommandCode (Header a) = CommandProvideLocation" "HopByHopID (Header a) = HopByHopID (Header req)"
    "EndToEndID (Header a) = EndToEndID (Header req)" "pla_result a = None"
    and pp: "decodePositioningPayload a = Inr pp" "pla_payload pp = Inr out"
    by (auto simp: DecodePLA_def split: option.splits if_splits sum.splits payload_error.splits)
  have "pr_RawLocationEstimate out = pp_raw pp"
    using pp(2) by (auto simp: pla_payload_def Let_def split: if_splits sum.splits)
  with payload_facts(3) [OF pp(1)] a DecodePLA_result_ok [OF assms] show ?thesis
    by (simp add: pla_result_None)
qed

definition sample_PLA :: message where
  "sample_PLA = \<lparr>Header = \<lparr>CommandFlags = 0, CommandCode = CommandProvideLocation,
       ApplicationID = slg_ApplicationID, HopByHopID = 0, EndToEndID = 0\<rparr>,
     AVPs = [AVP avp_ResultCode Mbit 0 (Unsigned32 Success),
       AVP AVPECGI VM Vendor3GPP (OctetString [1, 2, 3, 4, 5, 6, 7])]\<rparr>"

theorem DecodePLA_sound_witness:
  "\<exists>out. DecodePLA (Some sample_PLA) (Some sample_PLA) = Inr out \<and> pr_Kind out = AdditionalInformation \<and> result_ok out"
proof -
  obtain out where d: "DecodePLA (Some sample_PLA) (Some sample_PLA) = Inr out" and k: "pr_Kind out = AdditionalInformation"
    by (simp add: DecodePLA_def sample_PLA_def is_request_def pla_result_def find_avps_def Let_def
        decodePositioningPayload_def pla_payload_def diam_consts slg_consts)
  from DecodePLA_sound [OF d] d k show ?thesis by blast
qed

lemma header_AVPs [simp]: "is_request (m\<lparr>Header := h\<rparr>) \<longleftrightarrow> CommandFlags h AND RequestFlag \<noteq> 0"
  by (simp add: is_request_def)

lemma proxiable_keeps_request: "CommandFlags h AND RequestFlag \<noteq> 0 \<Longrightarrow> (CommandFlags h OR ProxiableFlag) AND RequestFlag \<noteq> 0"
  by (auto simp: bit.conj_disj_distrib2 RequestFlag_def ProxiableFlag_def or_eq_0_iff)

lemma with_code_if [simp]: "with_code c v (if P then as else []) = (if P then with_code c v as else [])"
  by simp

lemma with_code_opt [simp]:
  "with_code c v (case x of None \<Rightarrow> [] | Some y \<Rightarrow> [AVP c' fl v' (d y)]) =
     (if c' = c \<and> v' = v then (case x of None \<Rightarrow> [] | Some y \<Rightarrow> [AVP c' fl v' (d y)]) else [])"
  by (cases x) simp_all

lemma plr_with_code:
  "with_code avp_DestinationHost 0 (plr_avps cfg rnd n r) = [AVP avp_DestinationHost Mbit 0 (DiameterIdentity (sn_MMEHost n))]"
  "with_code avp_DestinationRealm 0 (plr_avps cfg rnd n r) = [AVP avp_DestinationRealm Mbit 0 (DiameterIdentity (sn_MMERealm n))]"
  "with_code AVPLocationType Vendor3GPP (plr_avps cfg rnd n r) = [AVP AVPLocationType VM Vendor3GPP (Enumerated (lr_LocationType r))]"
  "with_code avp_LCSClientType 0 (plr_avps cfg rnd n r) = [AVP avp_LCSClientType Mbit 0 (Enumerated (lr_ClientType r))]"
  "with_code AVPClientName Vendor3GPP (plr_avps cfg rnd n r) = [AVP AVPClientName VM Vendor3GPP (lcsNameGroup (lr_ClientName r))]"
  "with_code AVPSupportedGADShapes Vendor3GPP (plr_avps cfg rnd n r) =
     [AVP AVPSupportedGADShapes VM Vendor3GPP (Unsigned32 supportedGADShapesMask)]"
  "with_code avp_UserName 0 (plr_avps cfg rnd n r) =
     (if IMSI (lr_Target r) = [] then [] else [AVP avp_UserName Mbit 0 (UTF8String (IMSI (lr_Target r)))])"
  "with_code avpMSISDN Vendor3GPP (plr_avps cfg rnd n r) = []"
  by (simp_all add: plr_avps_def slg_consts slh_consts diam_consts)

lemma plr_with_options:
  "with_code AVPRequestorName Vendor3GPP (plr_avps cfg rnd n r) =
     (if TrimSpace (lr_RequestorName r) = [] then []
      else [AVP AVPRequestorName VM Vendor3GPP (GroupedAVP
        [AVP AVPLCSRequestorIDString VM Vendor3GPP (UTF8String (lr_RequestorName r)),
         AVP AVPLCSFormatIndicator VM Vendor3GPP (Enumerated LCSFormatLogicalName)])])"
  "with_code AVPPriority Vendor3GPP (plr_avps cfg rnd n r) = opt_avp (lr_Priority r) (\<lambda>v. AVP AVPPriority VM Vendor3GPP (Unsigned32 v))"
  "with_code AVPQoS Vendor3GPP (plr_avps cfg rnd n r) = opt_avp (qosGroup (lr_QoS r)) (\<lambda>g. AVP AVPQoS VM Vendor3GPP g)"
  "with_code AVPPrivacyCheckNonSess Vendor3GPP (plr_avps cfg rnd n r) = opt_avp (lr_PrivacyCheck r)
     (\<lambda>v. AVP AVPPrivacyCheckNonSess VM Vendor3GPP (GroupedAVP [AVP AVPPrivacyCheck VM Vendor3GPP (Enumerated v)]))"
  "with_code AVPVelocityRequested Vendor3GPP (plr_avps cfg rnd n r) =
     (if lr_VelocityRequested r then [AVP AVPVelocityRequested VM Vendor3GPP (Enumerated VelocityIsRequested)] else [])"
  "with_code AVPServiceTypeID Vendor3GPP (plr_avps cfg rnd n r) =
     opt_avp (lr_ServiceTypeID r) (\<lambda>v. AVP AVPServiceTypeID VM Vendor3GPP (Unsigned32 v))"
  by (simp_all add: plr_avps_def slg_consts slh_consts diam_consts)

text \<open>
  The quality of service in a request: no group when nothing is asked for, and otherwise one group in which each
  wish that is set, and no other, has its value; accuracies are uncertainty codes.
\<close>

definition carries_qos :: "qos_request option \<Rightarrow> avp list \<Rightarrow> bool" where
  "carries_qos qos avps \<longleftrightarrow>
     (case qos of
        None \<Rightarrow> with_code AVPQoS Vendor3GPP avps = []
      | Some q \<Rightarrow>
          if q_Class q = None \<and> q_HorizontalAccuracyMeters q = None \<and> q_VerticalAccuracyMeters q = None
            \<and> \<not> q_VerticalRequested q \<and> q_ResponseTimeClass q = None
          then with_code AVPQoS Vendor3GPP avps = []
          else \<exists>cs. with_code AVPQoS Vendor3GPP avps = [AVP AVPQoS VM Vendor3GPP (GroupedAVP cs)]
            \<and> map avp_data (with_code AVPQoSClass Vendor3GPP cs) = (case q_Class q of None \<Rightarrow> [] | Some v \<Rightarrow> [Enumerated v])
            \<and> map avp_data (with_code AVPHorizontalAccuracy Vendor3GPP cs) =
                (case q_HorizontalAccuracyMeters q of None \<Rightarrow> [] | Some v \<Rightarrow> [Unsigned32 (ucast (EncodeUncertaintyValue v))])
            \<and> map avp_data (with_code AVPVerticalAccuracy Vendor3GPP cs) =
                (case q_VerticalAccuracyMeters q of None \<Rightarrow> [] | Some v \<Rightarrow> [Unsigned32 (ucast (EncodeUncertaintyValue v))])
            \<and> map avp_data (with_code AVPVerticalRequested Vendor3GPP cs) =
                (if q_VerticalRequested q then [Enumerated VerticalIsRequested] else [])
            \<and> map avp_data (with_code AVPResponseTime Vendor3GPP cs) =
                (case q_ResponseTimeClass q of None \<Rightarrow> [] | Some v \<Rightarrow> [Enumerated v]))"

lemma map_avp_data_opt: "map avp_data (case x of None \<Rightarrow> [] | Some y \<Rightarrow> [AVP c fl v (d y)]) = (case x of None \<Rightarrow> [] | Some y \<Rightarrow> [d y])"
  by (cases x) simp_all

lemma qosGroup_carried:
  assumes "with_code AVPQoS Vendor3GPP avps = opt_avp (qosGroup qos) (\<lambda>g. AVP AVPQoS VM Vendor3GPP g)"
  shows "carries_qos qos avps"
proof (cases qos)
  case None
  with assms show ?thesis by (simp add: carries_qos_def qosGroup_def)
next
  case (Some q)
  show ?thesis
  proof (cases "q_Class q = None \<and> q_HorizontalAccuracyMeters q = None \<and> q_VerticalAccuracyMeters q = None
      \<and> \<not> q_VerticalRequested q \<and> q_ResponseTimeClass q = None")
    case True
    with assms Some show ?thesis by (simp add: carries_qos_def qosGroup_def)
  next
    case False
    then obtain cs where g: "qosGroup qos = Some (GroupedAVP cs)" and cs: "cs =
        opt_avp (q_Class q) (\<lambda>v. AVP AVPQoSClass VM Vendor3GPP (Enumerated v))
        @ opt_avp (q_HorizontalAccuracyMeters q) (\<lambda>v. AVP AVPHorizontalAccuracy VM Vendor3GPP (Unsigned32 (ucast (EncodeUncertaintyValue v))))
        @ opt_avp (q_VerticalAccuracyMeters q) (\<lambda>v. AVP AVPVerticalAccuracy VM Vendor3GPP (Unsigned32 (ucast (EncodeUncertaintyValue v))))
        @ (if q_VerticalRequested q then [AVP AVPVerticalRequested VM Vendor3GPP (Enumerated VerticalIsRequested)] else [])
        @ opt_avp (q_ResponseTimeClass q) (\<lambda>v. AVP AVPResponseTime VM Vendor3GPP (Enumerated v))"
      unfolding qosGroup_def Some by (auto simp: Let_def split: option.splits)
    have "with_code AVPQoS Vendor3GPP avps = [AVP AVPQoS VM Vendor3GPP (GroupedAVP cs)]" using assms g by simp
    moreover have "map avp_data (with_code AVPQoSClass Vendor3GPP cs) = (case q_Class q of None \<Rightarrow> [] | Some v \<Rightarrow> [Enumerated v])"
      "map avp_data (with_code AVPHorizontalAccuracy Vendor3GPP cs) =
        (case q_HorizontalAccuracyMeters q of None \<Rightarrow> [] | Some v \<Rightarrow> [Unsigned32 (ucast (EncodeUncertaintyValue v))])"
      "map avp_data (with_code AVPVerticalAccuracy Vendor3GPP cs) =
        (case q_VerticalAccuracyMeters q of None \<Rightarrow> [] | Some v \<Rightarrow> [Unsigned32 (ucast (EncodeUncertaintyValue v))])"
      "map avp_data (with_code AVPVerticalRequested Vendor3GPP cs) = (if q_VerticalRequested q then [Enumerated VerticalIsRequested] else [])"
      "map avp_data (with_code AVPResponseTime Vendor3GPP cs) = (case q_ResponseTimeClass q of None \<Rightarrow> [] | Some v \<Rightarrow> [Enumerated v])"
      unfolding cs by (simp_all add: slg_consts map_avp_data_opt)
    ultimately show ?thesis using False Some by (auto simp: carries_qos_def)
  qed
qed

lemma mask_value: "supportedGADShapesMask = 15"
  by (simp add: supportedGADShapesMask_def)

text \<open>
  C34: A Provide-Location request is built only for a serving MME with host and realm, a valid target,
  a named client and one of the two location types, and it carries them: destination host and realm,
  the location type and client type, the client's name, the target's identities, and the mask of
  exactly the four shapes the GAD decoder supports.  It carries each option that is set, and no other: the
  requestor's name, the priority, the wished quality of service, the privacy check, the wish for a
  velocity and the service type.
\<close>

theorem BuildPLR_carries_request:
  assumes "diam_lib_ok lib" and "BuildPLR lib cfg rnd n r = Inr m"
  shows "is_request m \<and> CommandCode (Header m) = CommandProvideLocation \<and> ApplicationID (Header m) = slg_ApplicationID
    \<and> sn_Type n = ''mme'' \<and> valid_target (lr_Target r)
    \<and> with_code avp_DestinationHost 0 (AVPs m) = [AVP avp_DestinationHost Mbit 0 (DiameterIdentity (sn_MMEHost n))]
    \<and> with_code avp_DestinationRealm 0 (AVPs m) = [AVP avp_DestinationRealm Mbit 0 (DiameterIdentity (sn_MMERealm n))]
    \<and> with_code AVPLocationType Vendor3GPP (AVPs m) = [AVP AVPLocationType VM Vendor3GPP (Enumerated (lr_LocationType r))]
    \<and> with_code avp_LCSClientType 0 (AVPs m) = [AVP avp_LCSClientType Mbit 0 (Enumerated (lr_ClientType r))]
    \<and> with_code AVPClientName Vendor3GPP (AVPs m) = [AVP AVPClientName VM Vendor3GPP (GroupedAVP
        [AVP AVPLCSNameString VM Vendor3GPP (UTF8String (lr_ClientName r)),
         AVP AVPLCSFormatIndicator VM Vendor3GPP (Enumerated LCSFormatLogicalName)])]
    \<and> with_code AVPRequestorName Vendor3GPP (AVPs m) =
        (if TrimSpace (lr_RequestorName r) = [] then []
         else [AVP AVPRequestorName VM Vendor3GPP (GroupedAVP
           [AVP AVPLCSRequestorIDString VM Vendor3GPP (UTF8String (lr_RequestorName r)),
            AVP AVPLCSFormatIndicator VM Vendor3GPP (Enumerated LCSFormatLogicalName)])])
    \<and> with_code AVPPriority Vendor3GPP (AVPs m) =
        (case lr_Priority r of None \<Rightarrow> [] | Some v \<Rightarrow> [AVP AVPPriority VM Vendor3GPP (Unsigned32 v)])
    \<and> carries_qos (lr_QoS r) (AVPs m)
    \<and> with_code AVPPrivacyCheckNonSess Vendor3GPP (AVPs m) = (case lr_PrivacyCheck r of None \<Rightarrow> []
        | Some v \<Rightarrow> [AVP AVPPrivacyCheckNonSess VM Vendor3GPP (GroupedAVP [AVP AVPPrivacyCheck VM Vendor3GPP (Enumerated v)])])
    \<and> with_code AVPVelocityRequested Vendor3GPP (AVPs m) =
        (if lr_VelocityRequested r then [AVP AVPVelocityRequested VM Vendor3GPP (Enumerated VelocityIsRequested)] else [])
    \<and> with_code AVPServiceTypeID Vendor3GPP (AVPs m) =
        (case lr_ServiceTypeID r of None \<Rightarrow> [] | Some v \<Rightarrow> [AVP AVPServiceTypeID VM Vendor3GPP (Unsigned32 v)])
    \<and> with_code AVPSupportedGADShapes Vendor3GPP (AVPs m) = [AVP AVPSupportedGADShapes VM Vendor3GPP (Unsigned32 15)]
    \<and> with_code avp_UserName 0 (AVPs m) =
        (if IMSI (lr_Target r) = [] then [] else [AVP avp_UserName Mbit 0 (UTF8String (IMSI (lr_Target r)))])
    \<and> (if MSISDN (lr_Target r) = [] then with_code avpMSISDN Vendor3GPP (AVPs m) = []
       else \<exists>b. with_code avpMSISDN Vendor3GPP (AVPs m) = [AVP avpMSISDN VM Vendor3GPP (OctetString b)]
            \<and> DecodeMSISDN b = Some (MSISDN (lr_Target r)))"
proof -
  define m0 where "m0 = NewRequest lib CommandProvideLocation slg_ApplicationID"
  define m1 where "m1 = m0\<lparr>Header := (Header m0)\<lparr>CommandFlags := CommandFlags (Header m0) OR ProxiableFlag\<rparr>\<rparr>"
  have h0: "is_request m0" "CommandCode (Header m0) = CommandProvideLocation" "ApplicationID (Header m0) = slg_ApplicationID"
    "AVPs m0 = []" using NewRequest_ok [OF assms(1)] by (simp_all add: m0_def)
  have h1: "is_request m1" "CommandCode (Header m1) = CommandProvideLocation" "ApplicationID (Header m1) = slg_ApplicationID"
    "AVPs m1 = []"
    using h0 proxiable_keeps_request [of "Header m0"] by (simp_all add: m1_def) (simp add: is_request_def)
  from assms(2) have v: "sn_Type n = ''mme''" "valid_target (lr_Target r)"
    by (auto simp: BuildPLR_def Validate_None split: if_splits)
  have add: "add_avps lib m1 (plr_avps cfg rnd n r) = m1\<lparr>AVPs := plr_avps cfg rnd n r\<rparr>"
    using add_avps_AVPs [OF assms(1), of m1] h1(4) by simp
  have one: "NewAVP lib x a = x\<lparr>AVPs := AVPs x @ [a]\<rparr>" for x a using assms(1) by (simp add: diam_lib_ok_def)
  obtain extra where m: "m = m1\<lparr>AVPs := plr_avps cfg rnd n r @ extra\<rparr>"
    and e: "if MSISDN (lr_Target r) = [] then extra = []
      else \<exists>b. EncodeMSISDN (MSISDN (lr_Target r)) = Some b \<and> extra = [AVP avpMSISDN VM Vendor3GPP (OctetString b)]"
    using assms(2) unfolding BuildPLR_def Let_def m0_def [symmetric] m1_def [symmetric] add one
    by (auto split: if_splits option.splits)
  have d: "DecodeMSISDN b = Some s" if "EncodeMSISDN s = Some b" for s b
    using encode_pairs_decode [of s] encode_pairs_digits [of s] that by (auto simp: EncodeMSISDN_def split: if_splits)
  have x: "with_code c v extra = []" if "c \<noteq> avpMSISDN" for c v
    using e that by (auto split: if_splits)
  have "if MSISDN (lr_Target r) = [] then with_code avpMSISDN Vendor3GPP (AVPs m) = []
       else \<exists>b. with_code avpMSISDN Vendor3GPP (AVPs m) = [AVP avpMSISDN VM Vendor3GPP (OctetString b)]
            \<and> DecodeMSISDN b = Some (MSISDN (lr_Target r))"
    using e d by (auto simp: m plr_with_code split: if_splits)
  moreover have "avp_DestinationHost \<noteq> avpMSISDN" "avp_DestinationRealm \<noteq> avpMSISDN" "AVPLocationType \<noteq> avpMSISDN"
    "avp_LCSClientType \<noteq> avpMSISDN" "AVPClientName \<noteq> avpMSISDN" "AVPSupportedGADShapes \<noteq> avpMSISDN"
    "avp_UserName \<noteq> avpMSISDN" "AVPRequestorName \<noteq> avpMSISDN" "AVPPriority \<noteq> avpMSISDN" "AVPQoS \<noteq> avpMSISDN"
    "AVPPrivacyCheckNonSess \<noteq> avpMSISDN" "AVPVelocityRequested \<noteq> avpMSISDN" "AVPServiceTypeID \<noteq> avpMSISDN"
    by (simp_all add: slg_consts slh_consts diam_consts)
  moreover from this have "carries_qos (lr_QoS r) (AVPs m)"
    by (intro qosGroup_carried) (simp add: m plr_with_options x)
  ultimately show ?thesis using h1 v by (simp add: m plr_with_code plr_with_options lcsNameGroup_def x mask_value)
qed

definition sample_node :: serving_node where
  "sample_node = \<lparr>sn_Type = ''mme'', sn_MMEHost = ''7'', sn_MMERealm = ''8'', sn_Source = ''slh'', sn_ResolvedAt = 0\<rparr>"

definition sample_location_request :: location_request where
  "sample_location_request = \<lparr>lr_Target = \<lparr>IMSI = [], MSISDN = ''155''\<rparr>, lr_LocationType = 0, lr_ClientType = 1,
     lr_ClientName = ''9'', lr_RequestorName = [], lr_ServiceTypeID = None, lr_Priority = Some 1,
     lr_VelocityRequested = False, lr_QoS = None, lr_PrivacyCheck = None\<rparr>"

lemma trim_digit: "is_digit c \<Longrightarrow> TrimSpace [c] = [c]"
  by (rule TrimSpace_digits) simp

lemma sample_BuildPLR:
  "\<exists>m. BuildPLR sample_lib \<lparr>gc_OriginHost = ''g'', gc_OriginRealm = ''r'', gc_RequestTimeout = 0\<rparr> [] sample_node
     sample_location_request = Inr m"
proof -
  have "Validate \<lparr>IMSI = [], MSISDN = ''155''\<rparr> = None" by (simp add: Validate_None valid_digits is_digit_alt)
  moreover have "EncodeMSISDN ''155'' \<noteq> None"
    using encode_pairs_digits [of "''155''"] by (simp add: EncodeMSISDN_def is_digit_alt)
  moreover have "TrimSpace ''7'' \<noteq> []" "TrimSpace ''8'' \<noteq> []" "TrimSpace ''9'' \<noteq> []"
    by (simp_all add: trim_digit is_digit_alt)
  ultimately show ?thesis
    by (auto simp: BuildPLR_def sample_node_def sample_location_request_def domain_consts Let_def)
qed

theorem BuildPLR_carries_request_witness:
  "\<exists>m b. BuildPLR sample_lib \<lparr>gc_OriginHost = ''g'', gc_OriginRealm = ''r'', gc_RequestTimeout = 0\<rparr> [] sample_node
     sample_location_request = Inr m
     \<and> with_code avpMSISDN Vendor3GPP (AVPs m) = [AVP avpMSISDN VM Vendor3GPP (OctetString b)]
     \<and> with_code AVPPriority Vendor3GPP (AVPs m) = [AVP AVPPriority VM Vendor3GPP (Unsigned32 1)]"
proof -
  from sample_BuildPLR obtain m where m: "BuildPLR sample_lib \<lparr>gc_OriginHost = ''g'', gc_OriginRealm = ''r'',
      gc_RequestTimeout = 0\<rparr> [] sample_node sample_location_request = Inr m" by blast
  from BuildPLR_carries_request [OF sample_lib_ok m] m show ?thesis
    by (auto simp: sample_location_request_def)
qed

text \<open>
  A serving node without a realm, which the decoder of Routing-Info answers accepts, can never be
  asked for a location: every Provide-Location request for it is refused as unroutable.
\<close>

theorem node_without_realm_refused:
  assumes "DecodeRIA cfg now req ans = Inr n" and "sn_MMERealm n = []"
  shows "ProvideLocation lib gcfg rnd route rt n r = Inl (SlgError (slg_err ErrRouteUnavailable))"
  using assms(2) by (simp add: ProvideLocation_def BuildPLR_def)

theorem node_without_realm_refused_witness:
  "\<exists>n. DecodeRIA sample_slh 7 (Some sample_RIA) (Some sample_RIA) = Inr n
     \<and> (\<forall>gcfg rt. ProvideLocation sample_lib gcfg [] None rt n sample_location_request =
           Inl (SlgError (slg_err ErrRouteUnavailable)))"
proof -
  have "TrimSpace ''7'' = ''7''" by (simp add: trim_digit is_digit_alt)
  then obtain n where d: "DecodeRIA sample_slh 7 (Some sample_RIA) (Some sample_RIA) = Inr n" and r: "sn_MMERealm n = []"
    by (simp add: DecodeRIA_def sample_RIA_def sample_slh_def is_request_def resultError_def find_avps_def
        findGrouped_def serving_node_of_def diam_consts slh_consts)
  from node_without_realm_refused [OF d r] d show ?thesis by blast
qed

end
