(* ===== verification/GMLC_Db.thy ===== *)
theory GMLC_Db
  imports GMLC_Domain
begin

text \<open>
  The schema of the SQLite store (\<open>internal/storage/storage.go\<close>, \<open>internal/storage/sqlite\<close> and its
  migrations): the rows of each table, the database as the record of its tables, and the two ways the
  operations reach it, a single statement (\<open>exec\<close>) and a transaction that is rolled back on an error
  (\<open>transact\<close>).  The tables are lists in insertion order.  A database failure (a busy database, a
  cancelled context, a failed commit) is an argument of every operation: the failing operation returns
  \<open>ErrDB\<close> and leaves the database as it was.
\<close>

section \<open>Errors, statements and transactions\<close>

datatype store_error = ErrNotFound | ErrConflict | ErrDB

definition exec :: "bool \<Rightarrow> ('db \<Rightarrow> (store_error + 'a) \<times> 'db) \<Rightarrow> 'db \<Rightarrow> (store_error + 'a) \<times> 'db" where
  "exec fault f db = (if fault then (Inl ErrDB, db) else f db)"

definition transact :: "('db \<Rightarrow> (store_error + 'a) \<times> 'db) \<Rightarrow> 'db \<Rightarrow> (store_error + 'a) \<times> 'db" where
  "transact f db = (case f db of (Inl e, _) \<Rightarrow> (Inl e, db) | (Inr x, db') \<Rightarrow> (Inr x, db'))"

lemma exec_False [simp]: "exec False f db = f db"
  by (simp add: exec_def)

lemma exec_True [simp]: "exec True f db = (Inl ErrDB, db)"
  by (simp add: exec_def)

text \<open>A statement or a transaction that reports an error has changed nothing.\<close>

lemma transact_Inl: "transact f db = (Inl e, db') \<Longrightarrow> db' = db"
  by (auto simp: transact_def split: prod.splits sum.splits)

lemma transact_Inr: "transact f db = (Inr x, db') \<longleftrightarrow> f db = (Inr x, db')"
  by (auto simp: transact_def split: prod.splits sum.splits)

lemma exec_Inr: "exec fault f db = (Inr x, db') \<longleftrightarrow> \<not> fault \<and> f db = (Inr x, db')"
  by (auto simp: exec_def)

section \<open>Rows\<close>

text \<open>\<open>storage.Client\<close>, and its row without the services and target prefixes, which have their own tables.\<close>

record client =
  c_ID :: string
  c_CredentialHash :: bytes
  c_Services :: "string list"
  c_TargetPrefixes :: "string list"
  c_Enabled :: bool
  c_LCSClientType :: u32
  c_LCSPrivacyCheck :: u32

record client_row =
  cl_id :: string
  cl_credential_hash :: bytes
  cl_enabled :: int
  cl_lcs_client_type :: u32
  cl_lcs_privacy_check :: u32
  cl_created_at :: stamp
  cl_updated_at :: stamp

text \<open>The five columns a QoS request is stored in.\<close>

type_synonym qos_columns = "u32 option \<times> float64 option \<times> float64 option \<times> int \<times> u32 option"

record request_row =
  row_id :: string
  row_client_id :: string
  row_idempotency_key :: string
  row_service :: string
  row_target_kind :: string
  row_target_value :: string
  row_state :: state
  row_failure_code :: string
  row_failure_description :: string
  row_created_at :: stamp
  row_updated_at :: stamp
  row_attempt_count :: int
  row_next_attempt_at :: "stamp option"
  row_location_type :: u32
  row_priority :: "u32 option"
  row_qos :: qos_columns
  row_subscription_id :: "string option"

text \<open>A result row: the key, the stored time, and the remaining columns, which hold the fields of the result.\<close>

record result_row =
  res_request_id :: string
  res_created_at :: stamp
  res_value :: loc_result

record node_row =
  node_request_id :: string
  node_type :: string
  node_mme_host :: string
  node_mme_realm :: string
  node_source :: string
  node_resolved_at :: stamp

record audit_event =
  ev_RequestID :: string
  ev_ClientID :: string
  ev_Type :: string
  ev_Detail :: string
  ev_At :: "time option"

record audit_row =
  au_request_id :: string
  au_client_id :: string
  au_type :: string
  au_detail :: string
  au_created_at :: stamp

record subscription =
  s_ID :: string
  s_ClientID :: string
  s_CallbackURL :: string
  s_CallbackSecret :: bytes
  s_CreatedAt :: time

record subscription_row =
  sub_id :: string
  sub_client_id :: string
  sub_callback_url :: string
  sub_callback_secret :: bytes
  sub_created_at :: stamp

datatype delivery_state = DeliveryPending | DeliveryInFlight | DeliveryDelivered | DeliveryFailed

record delivery =
  d_ID :: string
  d_SubscriptionID :: string
  d_Payload :: bytes
  d_State :: delivery_state
  d_AttemptCount :: int
  d_NextAttemptAt :: "time option"
  d_LastResponseCode :: "int option"
  d_CreatedAt :: time
  d_UpdatedAt :: time

record delivery_row =
  del_id :: string
  del_subscription_id :: string
  del_payload :: bytes
  del_state :: delivery_state
  del_attempt_count :: int
  del_next_attempt_at :: "stamp option"
  del_last_response_code :: "int option"
  del_created_at :: stamp
  del_updated_at :: stamp

datatype deferred_state =
  DeferredSubscriptionPending | DeferredSubscriptionReported | DeferredSubscriptionExpired

record deferred_sub =
  df_LCSReferenceNumber :: u8
  df_ClientID :: string
  df_TargetKind :: string
  df_TargetValue :: string
  df_State :: deferred_state
  df_CreatedAt :: time
  df_UpdatedAt :: time

record deferred_row =
  dfr_ref :: u8
  dfr_client_id :: string
  dfr_target_kind :: string
  dfr_target_value :: string
  dfr_state :: deferred_state
  dfr_created_at :: stamp
  dfr_updated_at :: stamp

text \<open>\<open>storage.LocationReport\<close>; its row has the same columns with the time of reception as text.\<close>

record stored_report =
  sr_ID :: string
  sr_LCSReferenceNumber :: "u8 option"
  sr_LocationEvent :: u32
  sr_TargetKind :: string
  sr_TargetValue :: string
  sr_RawGAD :: bytes
  sr_ECGI :: bytes
  sr_AccuracyFulfilment :: "u32 option"
  sr_AgeOfLocationEstimate :: "u32 option"
  sr_RawVelocityEstimate :: bytes
  sr_EUTRANPositioningData :: bytes
  sr_ReceivedAt :: "time option"

record report_row =
  rpt_received_at :: stamp
  rpt_value :: stored_report

record history_row =
  hr_id :: string
  hr_target_kind :: string
  hr_target_value :: string
  hr_shape :: string
  hr_latitude :: "rat option"
  hr_longitude :: "rat option"
  hr_uncertainty_meters :: "rat option"
  hr_recorded_at :: stamp

record history_point =
  hp_Shape :: string
  hp_Latitude :: "rat option"
  hp_Longitude :: "rat option"
  hp_UncertaintyMeters :: "rat option"
  hp_RecordedAt :: time

section \<open>The database\<close>

record db =
  lcs_clients :: "client_row list"
  client_services :: "(string \<times> string) list"
  client_target_prefixes :: "(string \<times> string) list"
  location_requests :: "request_row list"
  location_results :: "result_row list"
  request_serving_nodes :: "node_row list"
  audit_events :: "audit_row list"
  delivery_subscriptions :: "subscription_row list"
  deliveries :: "delivery_row list"
  deferred_location_subscriptions :: "deferred_row list"
  location_reports :: "report_row list"
  location_history :: "history_row list"

definition empty_db :: db where
  "empty_db = \<lparr>lcs_clients = [], client_services = [], client_target_prefixes = [],
     location_requests = [], location_results = [], request_serving_nodes = [], audit_events = [],
     delivery_subscriptions = [], deliveries = [], deferred_location_subscriptions = [],
     location_reports = [], location_history = []\<rparr>"

section \<open>Claim queues\<close>

text \<open>
  Requests and deliveries are handed to their workers in the same way: the first due pending row in
  the order of its creation is marked as taken by an update guarded by its being pending.  This
  interface states what the rows and the update have to satisfy; the two tables interpret it.
\<close>

locale claim_queue = claimed: keyed_update key "claim t"
  for key :: "'r \<Rightarrow> 'k" and claim :: "stamp \<Rightarrow> 'r \<Rightarrow> 'r" and t :: stamp +
  fixes ord :: "'r \<Rightarrow> 'o::linorder" and ready :: "stamp \<Rightarrow> 'r \<Rightarrow> bool" and pending :: "'r \<Rightarrow> bool"
  assumes ready_pending: "ready u r \<Longrightarrow> pending r"
    and taken: "\<not> pending (claim t r)"
begin

lemma picked:
  "first_by ord (filter (ready u) rows) = Some r \<Longrightarrow>
     r \<in> set rows \<and> ready u r \<and> pending r \<and> (\<forall>q \<in> set rows. ready u q \<longrightarrow> ord r \<le> ord q)"
  by (auto dest!: first_by_Some intro: ready_pending)

lemma none_picked: "first_by ord (filter (ready u) rows) = None \<longleftrightarrow> (\<forall>q \<in> set rows. \<not> ready u q)"
  by (auto simp: filter_empty_conv)

lemma claimed_row:
  assumes "key_unique key rows" and "r \<in> set rows" and "pending r"
  shows "RowsAffected (\<lambda>q. key q = key r \<and> pending q) rows = 1"
    and "row_by key (key r) (update_where (\<lambda>q. key q = key r \<and> pending q) (claim t) rows) = Some (claim t r)"
  using affected_iff [OF assms(1)] row_by_unique [OF assms(1,2)] assms(3)
  by (simp_all add: claimed.row_after)

text \<open>A row that was claimed is not picked again, at whatever time.\<close>

lemma not_picked_again:
  assumes "key_unique key rows" and "r \<in> set rows" and "pending r"
    and "first_by ord (filter (ready u) (update_where (\<lambda>q. key q = key r \<and> pending q) (claim t) rows)) = Some q"
  shows "key q \<noteq> key r"
proof
  let ?rows = "update_where (\<lambda>q. key q = key r \<and> pending q) (claim t) rows"
  assume k: "key q = key r"
  from picked [OF assms(4)] have q: "q \<in> set ?rows" "pending q" by simp_all
  have "key_unique key ?rows" using assms(1) by (rule claimed.unique_kept)
  from row_by_unique [OF this q(1)] k claimed_row(2) [OF assms(1-3)] have "q = claim t r" by simp
  with q(2) taken show False by simp
qed

end

end
