(* ===== verification/GMLC_Requests.thy ===== *)
theory GMLC_Requests
  imports GMLC_Db
begin

text \<open>
  The part of \<open>internal/storage/sqlite/sqlite.go\<close> that keeps clients, location requests, their results
  and serving nodes, and the audit trail.  Each operation is translated statement by statement; the
  clock readings are arguments, and so is whether the database fails.
\<close>

section \<open>Clients\<close>

definition boolInt :: "bool \<Rightarrow> int" where
  "boolInt v = (if v then 1 else 0)"

text \<open>\<open>INSERT\<close> of the values of a client into a table keyed by both columns: a duplicate is an error.\<close>

fun insert_values :: "string \<Rightarrow> string list \<Rightarrow> (string \<times> string) list \<Rightarrow> (string \<times> string) list option" where
  "insert_values c [] tbl = Some tbl"
| "insert_values c (v # vs) tbl = (if (c, v) \<in> set tbl then None else insert_values c vs (tbl @ [(c, v)]))"

definition set_client :: "client \<Rightarrow> stamp \<Rightarrow> client_row \<Rightarrow> client_row" where
  "set_client c now r = r\<lparr>cl_credential_hash := c_CredentialHash c, cl_enabled := boolInt (c_Enabled c),
     cl_lcs_client_type := c_LCSClientType c, cl_lcs_privacy_check := c_LCSPrivacyCheck c,
     cl_updated_at := now\<rparr>"

definition upsert_client_row :: "client \<Rightarrow> stamp \<Rightarrow> client_row list \<Rightarrow> client_row list" where
  "upsert_client_row c now rows =
     (if row_by cl_id (c_ID c) rows = None
      then rows @ [\<lparr>cl_id = c_ID c, cl_credential_hash = c_CredentialHash c,
        cl_enabled = boolInt (c_Enabled c), cl_lcs_client_type = c_LCSClientType c,
        cl_lcs_privacy_check = c_LCSPrivacyCheck c, cl_created_at = now, cl_updated_at = now\<rparr>]
      else update_where (\<lambda>r. cl_id r = c_ID c) (set_client c now) rows)"

definition UpsertClient :: "bool \<Rightarrow> time \<Rightarrow> client \<Rightarrow> db \<Rightarrow> (store_error + unit) \<times> db" where
  "UpsertClient fault now c = exec fault (transact (\<lambda>db.
     (let db = db\<lparr>lcs_clients := upsert_client_row c (utc now) (lcs_clients db)\<rparr>;
          svc = filter (\<lambda>p. fst p \<noteq> c_ID c) (client_services db);
          pre = filter (\<lambda>p. fst p \<noteq> c_ID c) (client_target_prefixes db)
      in case insert_values (c_ID c) (c_Services c) svc of
           None \<Rightarrow> (Inl ErrDB, db)
         | Some svc \<Rightarrow>
             (case insert_values (c_ID c) (c_TargetPrefixes c) pre of
                None \<Rightarrow> (Inl ErrDB, db)
              | Some pre \<Rightarrow> (Inr (), db\<lparr>client_services := svc, client_target_prefixes := pre\<rparr>)))))"

definition GetClientCredential :: "bool \<Rightarrow> string \<Rightarrow> db \<Rightarrow> store_error + client" where
  "GetClientCredential fault i db =
     (if fault then Inl ErrDB
      else case row_by cl_id i (lcs_clients db) of
        None \<Rightarrow> Inl ErrNotFound
      | Some r \<Rightarrow> Inr \<lparr>c_ID = cl_id r, c_CredentialHash = cl_credential_hash r, c_Services = [],
          c_TargetPrefixes = [], c_Enabled = (cl_enabled r = 1),
          c_LCSClientType = cl_lcs_client_type r, c_LCSPrivacyCheck = cl_lcs_privacy_check r\<rparr>)"

definition GetClientAuthzData :: "bool \<Rightarrow> string \<Rightarrow> db \<Rightarrow> store_error + string list \<times> string list" where
  "GetClientAuthzData fault i db =
     (if fault then Inl ErrDB
      else Inr (map snd (filter (\<lambda>p. fst p = i) (client_services db)),
                map snd (filter (\<lambda>p. fst p = i) (client_target_prefixes db))))"

section \<open>QoS columns\<close>

definition qosColumns :: "qos_request option \<Rightarrow> qos_columns" where
  "qosColumns q =
     (case q of
        None \<Rightarrow> (None, None, None, 0, None)
      | Some q \<Rightarrow> (q_Class q, q_HorizontalAccuracyMeters q, q_VerticalAccuracyMeters q,
          boolInt (q_VerticalRequested q), q_ResponseTimeClass q))"

text \<open>SQLite stores a NaN bound to a REAL column as NULL.\<close>

definition sql_real :: "float64 option \<Rightarrow> float64 option" where
  "sql_real v = (if v = Some NaN then None else v)"

definition store_qos :: "qos_columns \<Rightarrow> qos_columns" where
  "store_qos c = (case c of (cl, h, v, vr, rt) \<Rightarrow> (cl, sql_real h, sql_real v, vr, rt))"

definition scanQoS :: "qos_columns \<Rightarrow> qos_request option" where
  "scanQoS c = (case c of (cl, h, v, vr, rt) \<Rightarrow>
     (if cl = None \<and> h = None \<and> v = None \<and> rt = None \<and> vr = 0 then None
      else Some \<lparr>q_Class = cl, q_HorizontalAccuracyMeters = h, q_VerticalAccuracyMeters = v,
        q_VerticalRequested = (vr = 1), q_ResponseTimeClass = rt\<rparr>))"

section \<open>Requests\<close>

definition insert_row :: "time \<Rightarrow> request \<Rightarrow> request_row" where
  "insert_row now r = \<lparr>row_id = rq_ID r, row_client_id = rq_ClientID r,
     row_idempotency_key = rq_IdempotencyKey r, row_service = rq_Service r,
     row_target_kind = rq_TargetKind r, row_target_value = rq_TargetValue r, row_state = rq_State r,
     row_failure_code = rq_FailureCode r, row_failure_description = [], row_created_at = utc now,
     row_updated_at = utc now, row_attempt_count = 0, row_next_attempt_at = None,
     row_location_type = rq_LocationType r, row_priority = rq_Priority r,
     row_qos = store_qos (qosColumns (rq_QoS r)), row_subscription_id = rq_SubscriptionID r\<rparr>"

text \<open>The columns \<open>GetRequest\<close>, \<open>byClientKey\<close> and \<open>getRequestTx\<close> select, and how they are scanned.\<close>

definition request_of_row :: "request_row \<Rightarrow> request" where
  "request_of_row q = \<lparr>rq_ID = row_id q, rq_ClientID = row_client_id q, rq_TargetKind = row_target_kind q,
     rq_TargetValue = row_target_value q, rq_IdempotencyKey = row_idempotency_key q,
     rq_Service = row_service q, rq_State = row_state q, rq_FailureCode = row_failure_code q,
     rq_CreatedAt = parseTime (row_created_at q), rq_UpdatedAt = parseTime (row_updated_at q),
     rq_AttemptCount = row_attempt_count q, rq_NextAttemptAt = None,
     rq_LocationType = row_location_type q, rq_Priority = row_priority q, rq_QoS = scanQoS (row_qos q),
     rq_SubscriptionID = row_subscription_id q\<rparr>"

definition client_key :: "request_row \<Rightarrow> string \<times> string" where
  "client_key q = (row_client_id q, row_idempotency_key q)"

text \<open>The constraints of the table: primary key, the unique pair, and the reference to the client.\<close>

definition insert_violates :: "request_row \<Rightarrow> db \<Rightarrow> bool" where
  "insert_violates q db \<longleftrightarrow>
     row_by row_id (row_id q) (location_requests db) \<noteq> None
     \<or> row_by client_key (client_key q) (location_requests db) \<noteq> None
     \<or> row_by cl_id (row_client_id q) (lcs_clients db) = None"

definition byClientKey :: "bool \<Rightarrow> string \<Rightarrow> string \<Rightarrow> db \<Rightarrow> store_error + request" where
  "byClientKey fault c k db =
     (if fault then Inl ErrDB
      else case row_by client_key (c, k) (location_requests db) of
        None \<Rightarrow> Inl ErrNotFound
      | Some q \<Rightarrow> Inr (request_of_row q))"

text \<open>\<open>fault\<close> is a failure of the insertion that is not a constraint error, \<open>fault2\<close> one of the lookup after it.\<close>

definition CreateRequest ::
  "bool \<Rightarrow> bool \<Rightarrow> time \<Rightarrow> request \<Rightarrow> db \<Rightarrow> (store_error + request \<times> bool) \<times> db" where
  "CreateRequest fault fault2 now r = exec fault (\<lambda>db.
     (let r = r\<lparr>rq_CreatedAt := now, rq_UpdatedAt := now\<rparr>; q = insert_row now r in
      if \<not> insert_violates q db
      then (Inr (r, True), db\<lparr>location_requests := location_requests db @ [q]\<rparr>)
      else (case byClientKey fault2 (rq_ClientID r) (rq_IdempotencyKey r) db of
              Inl e \<Rightarrow> (Inl e, db)
            | Inr old \<Rightarrow> (Inr (old, False), db))))"

definition GetRequest :: "bool \<Rightarrow> string \<Rightarrow> db \<Rightarrow> store_error + request" where
  "GetRequest fault i db =
     (if fault then Inl ErrDB
      else case row_by row_id i (location_requests db) of
        None \<Rightarrow> Inl ErrNotFound
      | Some q \<Rightarrow> Inr (request_of_row q))"

definition getRequestTx :: "string \<Rightarrow> db \<Rightarrow> store_error + request" where
  "getRequestTx i db = GetRequest False i db"

text \<open>The \<open>SET\<close> clauses of the updates of \<open>location_requests\<close>.\<close>

definition set_subscription :: "string \<Rightarrow> request_row \<Rightarrow> request_row" where
  "set_subscription s q = q\<lparr>row_subscription_id := Some s\<rparr>"

definition set_state :: "state \<Rightarrow> string \<Rightarrow> stamp \<Rightarrow> request_row \<Rightarrow> request_row" where
  "set_state to code now q = q\<lparr>row_state := to, row_failure_code := code, row_updated_at := now\<rparr>"

definition set_claimed :: "stamp \<Rightarrow> request_row \<Rightarrow> request_row" where
  "set_claimed now q = q\<lparr>row_state := StateResolving, row_attempt_count := row_attempt_count q + 1,
     row_updated_at := now\<rparr>"

definition set_locating :: "stamp \<Rightarrow> request_row \<Rightarrow> request_row" where
  "set_locating now q = q\<lparr>row_state := StateLocating, row_updated_at := now\<rparr>"

definition set_requeued :: "stamp \<Rightarrow> string \<Rightarrow> stamp \<Rightarrow> request_row \<Rightarrow> request_row" where
  "set_requeued nxt code now q = q\<lparr>row_state := StateQueued, row_next_attempt_at := Some nxt,
     row_failure_code := code, row_updated_at := now\<rparr>"

definition set_failed :: "string \<Rightarrow> string \<Rightarrow> stamp \<Rightarrow> request_row \<Rightarrow> request_row" where
  "set_failed code desc now q = q\<lparr>row_state := StateFailed, row_failure_code := code,
     row_failure_description := desc, row_updated_at := now\<rparr>"

definition set_completed :: "stamp \<Rightarrow> request_row \<Rightarrow> request_row" where
  "set_completed now q = q\<lparr>row_state := StateCompleted, row_updated_at := now\<rparr>"

definition set_recovered :: "stamp \<Rightarrow> request_row \<Rightarrow> request_row" where
  "set_recovered now q = q\<lparr>row_state := StateQueued, row_next_attempt_at := Some now, row_updated_at := now\<rparr>"

lemmas set_defs = set_subscription_def set_state_def set_claimed_def set_locating_def set_requeued_def
  set_failed_def set_completed_def set_recovered_def

text \<open>\<open>UPDATE location_requests SET f WHERE id = i AND state = st\<close>, with its affected-rows count.\<close>

definition guarded :: "string \<Rightarrow> state \<Rightarrow> request_row \<Rightarrow> bool" where
  "guarded i st q \<longleftrightarrow> row_id q = i \<and> row_state q = st"

definition update_requests :: "(request_row \<Rightarrow> bool) \<Rightarrow> (request_row \<Rightarrow> request_row) \<Rightarrow> db \<Rightarrow> db" where
  "update_requests P f db = db\<lparr>location_requests := update_where P f (location_requests db)\<rparr>"

definition update_guarded ::
  "string \<Rightarrow> state \<Rightarrow> (request_row \<Rightarrow> request_row) \<Rightarrow> db \<Rightarrow> (store_error + unit) \<times> db" where
  "update_guarded i st f db =
     (let db' = update_requests (guarded i st) f db in
      if RowsAffected (guarded i st) (location_requests db) \<noteq> 1 then (Inl ErrConflict, db')
      else (Inr (), db'))"

definition SetRequestSubscription :: "bool \<Rightarrow> string \<Rightarrow> string \<Rightarrow> db \<Rightarrow> (store_error + unit) \<times> db" where
  "SetRequestSubscription fault i s = exec fault (\<lambda>db.
     (Inr (), update_requests (\<lambda>q. row_id q = i) (set_subscription s) db))"

definition TransitionRequest ::
  "bool \<Rightarrow> time \<Rightarrow> string \<Rightarrow> state \<Rightarrow> string \<Rightarrow> db \<Rightarrow> (store_error + request) \<times> db" where
  "TransitionRequest fault now i to code = exec fault (transact (\<lambda>db.
     (case getRequestTx i db of
        Inl e \<Rightarrow> (Inl e, db)
      | Inr r \<Rightarrow>
          (if \<not> CanTransition (rq_State r) to then (Inl ErrConflict, db)
           else case update_guarded i (rq_State r) (set_state to code (utc now)) db of
             (Inl e, db) \<Rightarrow> (Inl e, db)
           | (Inr _, db) \<Rightarrow>
               (Inr (r\<lparr>rq_State := to, rq_FailureCode := code, rq_UpdatedAt := now\<rparr>), db)))))"

definition claimable :: "stamp \<Rightarrow> request_row \<Rightarrow> bool" where
  "claimable now q \<longleftrightarrow> row_state q = StateQueued \<and>
     (case row_next_attempt_at q of None \<Rightarrow> True | Some t \<Rightarrow> t \<le> now)"

definition request_order :: "request_row \<Rightarrow> stamp \<times> string" where
  "request_order q = (row_created_at q, row_id q)"

definition ClaimNextQueued :: "bool \<Rightarrow> time \<Rightarrow> db \<Rightarrow> (store_error + request option) \<times> db" where
  "ClaimNextQueued fault now = exec fault (transact (\<lambda>db.
     (case first_by request_order (filter (claimable (utc now)) (location_requests db)) of
        None \<Rightarrow> (Inr None, db)
      | Some q \<Rightarrow>
          (case update_guarded (row_id q) StateQueued (set_claimed (utc now)) db of
             (Inl e, db) \<Rightarrow> (Inl e, db)
           | (Inr _, db) \<Rightarrow>
               (case getRequestTx (row_id q) db of
                  Inl e \<Rightarrow> (Inl e, db)
                | Inr r \<Rightarrow> (Inr (Some (r\<lparr>rq_State := StateResolving\<rparr>)), db))))))"

definition node_row_of :: "string \<Rightarrow> serving_node \<Rightarrow> node_row" where
  "node_row_of i n = \<lparr>node_request_id = i, node_type = sn_Type n, node_mme_host = sn_MMEHost n,
     node_mme_realm = sn_MMERealm n, node_source = sn_Source n, node_resolved_at = utc (sn_ResolvedAt n)\<rparr>"

text \<open>\<open>INSERT .. ON CONFLICT(key) DO UPDATE\<close> of all other columns.\<close>

definition upsert :: "('r \<Rightarrow> 'k) \<Rightarrow> 'r \<Rightarrow> 'r list \<Rightarrow> 'r list" where
  "upsert key r rows =
     (if row_by key (key r) rows = None then rows @ [r]
      else update_where (\<lambda>q. key q = key r) (\<lambda>_. r) rows)"

definition SaveServingNodeAndLocate ::
  "bool \<Rightarrow> time \<Rightarrow> string \<Rightarrow> serving_node \<Rightarrow> db \<Rightarrow> (store_error + unit) \<times> db" where
  "SaveServingNodeAndLocate fault now i n = exec fault (transact (\<lambda>db.
     (case update_guarded i StateResolving (set_locating (utc now)) db of
        (Inl e, db) \<Rightarrow> (Inl e, db)
      | (Inr _, db) \<Rightarrow> (Inr (), db\<lparr>request_serving_nodes :=
          upsert node_request_id (node_row_of i n) (request_serving_nodes db)\<rparr>))))"

text \<open>The row's request must exist (a foreign key).\<close>

definition SaveServingNode :: "bool \<Rightarrow> string \<Rightarrow> serving_node \<Rightarrow> db \<Rightarrow> (store_error + unit) \<times> db" where
  "SaveServingNode fault i n = exec fault (\<lambda>db.
     (if row_by row_id i (location_requests db) = None then (Inl ErrDB, db)
      else (Inr (), db\<lparr>request_serving_nodes :=
        upsert node_request_id (node_row_of i n) (request_serving_nodes db)\<rparr>)))"

text \<open>A single statement: when it affected no row it has changed nothing.\<close>

definition Requeue ::
  "bool \<Rightarrow> time \<Rightarrow> string \<Rightarrow> state \<Rightarrow> time \<Rightarrow> string \<Rightarrow> db \<Rightarrow> (store_error + unit) \<times> db" where
  "Requeue fault now i from nxt code =
     exec fault (update_guarded i from (set_requeued (utc nxt) code (utc now)))"

definition FailRequest ::
  "bool \<Rightarrow> time \<Rightarrow> string \<Rightarrow> state \<Rightarrow> string \<Rightarrow> string \<Rightarrow> db \<Rightarrow> (store_error + unit) \<times> db" where
  "FailRequest fault now i from code desc =
     exec fault (update_guarded i from (set_failed code desc (utc now)))"

definition result_row_of :: "string \<Rightarrow> loc_result \<Rightarrow> result_row" where
  "result_row_of i v = \<lparr>res_request_id = i, res_created_at = utc (rs_CreatedAt v), res_value = v\<rparr>"

definition CompleteRequest ::
  "bool \<Rightarrow> time \<Rightarrow> string \<Rightarrow> loc_result \<Rightarrow> db \<Rightarrow> (store_error + unit) \<times> db" where
  "CompleteRequest fault now i v = exec fault (transact (\<lambda>db.
     (case update_guarded i StateLocating (set_completed (utc now)) db of
        (Inl e, db) \<Rightarrow> (Inl e, db)
      | (Inr _, db) \<Rightarrow> (Inr (), db\<lparr>location_results :=
          upsert res_request_id (result_row_of i v) (location_results db)\<rparr>))))"

definition GetResult :: "bool \<Rightarrow> string \<Rightarrow> db \<Rightarrow> store_error + loc_result" where
  "GetResult fault i db =
     (if fault then Inl ErrDB
      else case row_by res_request_id i (location_results db) of
        None \<Rightarrow> Inl ErrNotFound
      | Some q \<Rightarrow> Inr ((res_value q)\<lparr>rs_RequestID := res_request_id q,
          rs_CreatedAt := parseTime (res_created_at q)\<rparr>))"

definition RecordAudit :: "bool \<Rightarrow> time \<Rightarrow> audit_event \<Rightarrow> db \<Rightarrow> (store_error + unit) \<times> db" where
  "RecordAudit fault now e = exec fault (\<lambda>db.
     (let when = (case ev_At e of None \<Rightarrow> now | Some t \<Rightarrow> t) in
      (Inr (), db\<lparr>audit_events := audit_events db @ [\<lparr>au_request_id = ev_RequestID e,
        au_client_id = ev_ClientID e, au_type = ev_Type e, au_detail = ev_Detail e,
        au_created_at = utc when\<rparr>]\<rparr>)))"

definition interrupted :: "request_row \<Rightarrow> bool" where
  "interrupted q \<longleftrightarrow> row_state q = StateResolving \<or> row_state q = StateLocating"

definition Recover :: "bool \<Rightarrow> time \<Rightarrow> db \<Rightarrow> (store_error + unit) \<times> db" where
  "Recover fault now = exec fault (\<lambda>db.
     (Inr (), update_requests interrupted (set_recovered (utc now)) db))"

text \<open>
  Deleting a request deletes its result and its serving node (\<open>ON DELETE CASCADE\<close>); the audit trail
  has no reference to requests and is cut by its own time.
\<close>

definition purgeable :: "stamp \<Rightarrow> request_row \<Rightarrow> bool" where
  "purgeable before q \<longleftrightarrow> row_created_at q < before \<and>
     row_state q \<in> {StateCompleted, StateFailed, StateCancelled, StateExpired, StateIndeterminate}"

definition Purge :: "bool \<Rightarrow> time \<Rightarrow> time \<Rightarrow> db \<Rightarrow> (store_error + unit) \<times> db" where
  "Purge fault requestBefore resultBefore = exec fault (\<lambda>db.
     (let results = filter (\<lambda>v. \<not> res_created_at v < utc resultBefore) (location_results db);
          gone = row_id ` set (filter (purgeable (utc requestBefore)) (location_requests db))
      in (Inr (), db\<lparr>
           location_requests := filter (\<lambda>q. \<not> purgeable (utc requestBefore) q) (location_requests db),
           location_results := filter (\<lambda>v. res_request_id v \<notin> gone) results,
           request_serving_nodes := filter (\<lambda>n. node_request_id n \<notin> gone) (request_serving_nodes db),
           audit_events := filter (\<lambda>a. \<not> au_created_at a < utc requestBefore) (audit_events db)\<rparr>)))"

section \<open>The invariant of the request tables, and how a row may evolve\<close>

definition requests_inv :: "db \<Rightarrow> bool" where
  "requests_inv db \<longleftrightarrow>
     key_unique row_id (location_requests db) \<and> key_unique client_key (location_requests db)
     \<and> (\<forall>q \<in> set (location_requests db). row_client_id q \<in> cl_id ` set (lcs_clients db))
     \<and> key_unique res_request_id (location_results db)
     \<and> (\<forall>v \<in> set (location_results db). \<exists>q \<in> set (location_requests db).
          row_id q = res_request_id v \<and> row_state q = StateCompleted)
     \<and> node_request_id ` set (request_serving_nodes db) \<subseteq> row_id ` set (location_requests db)"

text \<open>What an operation may do to a row: keep its identity and options, and move its state as the life cycle permits.\<close>

definition row_evolves :: "request_row \<Rightarrow> request_row \<Rightarrow> bool" where
  "row_evolves q q' \<longleftrightarrow>
     row_id q' = row_id q \<and> row_client_id q' = row_client_id q
     \<and> row_idempotency_key q' = row_idempotency_key q \<and> row_service q' = row_service q
     \<and> row_target_kind q' = row_target_kind q \<and> row_target_value q' = row_target_value q
     \<and> row_created_at q' = row_created_at q \<and> row_location_type q' = row_location_type q
     \<and> row_priority q' = row_priority q \<and> row_qos q' = row_qos q
     \<and> CanTransition\<^sup>=\<^sup>= (row_state q) (row_state q')
     \<and> row_attempt_count q \<le> row_attempt_count q'"

definition evolution :: "db \<Rightarrow> db \<Rightarrow> bool" where
  "evolution db db' \<longleftrightarrow>
     (\<forall>q \<in> set (location_requests db). \<exists>q' \<in> set (location_requests db'). row_evolves q q')"

lemma row_evolves_refl [simp]: "row_evolves q q"
  by (simp add: row_evolves_def)

lemma evolution_refl [simp]: "evolution db db"
  using row_evolves_refl by (force simp: evolution_def)

lemma evolution_same: "location_requests db' = location_requests db \<Longrightarrow> evolution db db'"
  using row_evolves_refl by (force simp: evolution_def)

lemma evolutionI:
  "(\<And>q. q \<in> set (location_requests db) \<Longrightarrow> \<exists>q' \<in> set (location_requests db'). row_evolves q q')
     \<Longrightarrow> evolution db db'"
  by (simp add: evolution_def)

lemma row_evolves_id: "row_evolves q q' \<Longrightarrow> row_id q' = row_id q"
  by (simp add: row_evolves_def)

text \<open>A terminal row stays as it is in everything but its subscription.\<close>

lemma row_evolves_terminal: "row_evolves q q' \<Longrightarrow> Terminal (row_state q) \<Longrightarrow> row_state q' = row_state q"
  unfolding row_evolves_def by (elim conjE) (rule request_lifecycle.terminal_reflcl)

lemma row_evolves_client_key: "row_evolves q q' \<Longrightarrow> client_key q' = client_key q"
  by (simp add: row_evolves_def client_key_def)

text \<open>
  An update of \<open>location_requests\<close>: its \<open>SET\<close> clause evolves every row its \<open>WHERE\<close> clause selects.
  The invariant and the evolution of the table follow once for all updates.
\<close>

locale request_update = keyed_update row_id f
  for f :: "request_row \<Rightarrow> request_row" +
  fixes P :: "request_row \<Rightarrow> bool"
  assumes evolves: "P q \<Longrightarrow> row_evolves q (f q)"
begin

lemma row_evolution: "row_evolves q (if P q then f q else q)"
  by (simp add: evolves)

lemma updated_evolution: "evolution db (update_requests P f db)"
proof (rule evolutionI)
  fix q
  assume "q \<in> set (location_requests db)"
  then have "(if P q then f q else q) \<in> set (location_requests (update_requests P f db))"
    by (auto simp: update_requests_def update_where_def)
  with row_evolution show "\<exists>q' \<in> set (location_requests (update_requests P f db)). row_evolves q q'"
    by blast
qed

lemma updated_inv:
  assumes "requests_inv db"
  shows "requests_inv (update_requests P f db)"
proof -
  define g where "g = (\<lambda>q. if P q then f q else q)"
  have rows: "location_requests (update_requests P f db) = map g (location_requests db)"
    by (simp add: update_requests_def update_where_def g_def)
  have ev: "row_evolves q (g q)" for q using row_evolution [of q] by (simp add: g_def)
  have g: "row_id (g q) = row_id q" "client_key (g q) = client_key q" "row_client_id (g q) = row_client_id q"
    and fin: "row_state q = StateCompleted \<Longrightarrow> row_state (g q) = StateCompleted" for q
    using ev [of q] row_evolves_terminal [of q "g q"] row_evolves_client_key [of q "g q"]
    by (simp_all add: row_evolves_def)
  have "row_id \<circ> g = row_id" "client_key \<circ> g = client_key"
    using g by (simp_all add: fun_eq_iff)
  moreover have "row_id ` set (map g rs) = row_id ` set rs" for rs
    using g(1) by (simp only: set_map image_image)
  moreover have "\<forall>v \<in> set (location_results db). \<exists>q \<in> set (map g (location_requests db)).
      row_id q = res_request_id v \<and> row_state q = StateCompleted"
    using assms g(1) fin unfolding requests_inv_def by (metis (no_types, lifting) image_eqI list.set_map)
  moreover have "\<forall>q \<in> set (map g (location_requests db)). row_client_id q \<in> cl_id ` set (lcs_clients db)"
    using assms g(3) unfolding requests_inv_def by (auto simp only: set_map)
  ultimately show ?thesis
    using assms unfolding requests_inv_def rows key_unique_def
    by (simp add: update_requests_def)
qed

text \<open>A guarded update succeeds exactly when the row is there in the expected state, and then changes that row.\<close>

lemma guarded_ok:
  assumes "key_unique row_id (location_requests db)" and "P = guarded i st"
  shows "update_guarded i st f db =
    (if \<exists>q. row_by row_id i (location_requests db) = Some q \<and> row_state q = st
     then (Inr (), update_requests P f db) else (Inl ErrConflict, db))"
proof -
  note aff = affected_iff [OF assms(1), of i "\<lambda>q. row_state q = st"]
  show ?thesis
  proof (cases "\<exists>q. row_by row_id i (location_requests db) = Some q \<and> row_state q = st")
    case True
    with aff assms(2) show ?thesis by (auto simp: update_guarded_def guarded_def [abs_def])
  next
    case False
    have "update_where (guarded i st) f (location_requests db) = location_requests db"
      using False row_by_unique [OF assms(1)]
      by (auto simp: update_where_def guarded_def intro!: map_idI)
    with False aff show ?thesis
      by (auto simp: update_guarded_def update_requests_def guarded_def [abs_def] split: option.splits)
  qed
qed

end

lemma evolves_simps:
  "row_evolves q (set_subscription s q)"
  "CanTransition (row_state q) to \<Longrightarrow> row_evolves q (set_state to code now q)"
  "row_state q = StateQueued \<Longrightarrow> row_evolves q (set_claimed now q)"
  "row_state q = StateResolving \<Longrightarrow> row_evolves q (set_locating now q)"
  "row_state q = StateLocating \<Longrightarrow> row_evolves q (set_completed now q)"
  "row_state q = StateResolving \<or> row_state q = StateLocating \<Longrightarrow> row_evolves q (set_requeued nxt code now q)"
  "row_state q = StateResolving \<or> row_state q = StateLocating \<Longrightarrow> row_evolves q (set_recovered now q)"
  "\<not> Terminal (row_state q) \<Longrightarrow> row_evolves q (set_failed code desc now q)"
  by (auto simp: row_evolves_def set_defs CanTransition_Resolving CanTransition_Locating CanTransition_Completed
      CanTransition_Queued CanTransition_Failed)

interpretation set_subscription: request_update "set_subscription s" "\<lambda>q. row_id q = i" for s i
  by unfold_locales (simp add: set_defs, auto simp: evolves_simps)

interpretation set_claimed: request_update "set_claimed now" "guarded i StateQueued" for now i
  by unfold_locales (simp add: set_defs, auto simp: evolves_simps guarded_def)

interpretation set_locating: request_update "set_locating now" "guarded i StateResolving" for now i
  by unfold_locales (simp add: set_defs, auto simp: evolves_simps guarded_def)

interpretation set_completed: request_update "set_completed now" "guarded i StateLocating" for now i
  by unfold_locales (simp add: set_defs, auto simp: evolves_simps guarded_def)

interpretation set_recovered: request_update "set_recovered now" interrupted for now
  by unfold_locales (simp add: set_defs, auto simp: evolves_simps interrupted_def)

lemma set_state_update:
  "CanTransition st to \<Longrightarrow> request_update (set_state to code now) (guarded i st)"
  by unfold_locales (simp add: set_defs, auto simp: evolves_simps guarded_def)

lemma set_requeued_update:
  "st = StateResolving \<or> st = StateLocating \<Longrightarrow> request_update (set_requeued nxt code now) (guarded i st)"
  by unfold_locales (simp add: set_defs, auto simp: evolves_simps guarded_def)

lemma set_failed_update:
  "\<not> Terminal st \<Longrightarrow> request_update (set_failed code desc now) (guarded i st)"
  by unfold_locales (simp add: set_defs, auto simp: evolves_simps guarded_def)

section \<open>Every operation keeps the invariant and evolves the rows\<close>

definition kept :: "db \<Rightarrow> db \<Rightarrow> bool" where
  "kept db db' \<longleftrightarrow> requests_inv db' \<and> evolution db db'"

lemma kept_refl: "requests_inv db \<Longrightarrow> kept db db"
  by (simp add: kept_def)

lemma kept_exec:
  assumes "exec fault f db = (r, db')" and "requests_inv db" and "f db = (r, db') \<Longrightarrow> kept db db'"
  shows "kept db db'"
  using assms by (cases fault) (auto simp: kept_refl)

lemma kept_tx:
  assumes "requests_inv db" and "exec fault (transact f) db = (r, db')"
    and "\<And>x. f db = (Inr x, db') \<Longrightarrow> kept db db'"
  shows "kept db db'"
  using assms by (cases fault; cases r) (auto simp: transact_Inr kept_refl dest: transact_Inl)

lemma request_update_kept: "request_update f P \<Longrightarrow> requests_inv db \<Longrightarrow> kept db (update_requests P f db)"
  by (simp add: kept_def request_update.updated_inv request_update.updated_evolution)

lemma requests_inv_unique: "requests_inv db \<Longrightarrow> key_unique row_id (location_requests db)"
  by (simp add: requests_inv_def)

lemma update_guarded_spec:
  assumes "request_update f (guarded i st)" and "requests_inv db"
  shows "update_guarded i st f db =
    (if \<exists>q. row_by row_id i (location_requests db) = Some q \<and> row_state q = st
     then (Inr (), update_requests (guarded i st) f db) else (Inl ErrConflict, db))"
  using request_update.guarded_ok [OF assms(1) requests_inv_unique [OF assms(2)] refl] .

lemma update_guarded_kept:
  assumes "request_update f (guarded i st)" and "requests_inv db" and "update_guarded i st f db = (r, db')"
  shows "kept db db'"
  using assms request_update_kept [OF assms(1,2)]
  by (auto simp: update_guarded_spec [OF assms(1,2)] kept_refl split: if_splits)

lemma upsert_unique: "key_unique key rows \<Longrightarrow> key_unique key (upsert key r rows)"
proof -
  assume u: "key_unique key rows"
  have "map key (update_where (\<lambda>q. key q = key r) (\<lambda>_. r) rows) = map key rows"
    by (simp add: update_where_def)
  with u show ?thesis by (auto simp: upsert_def key_unique_append) (simp add: key_unique_def)
qed

lemma upsert_set: "set (upsert key r rows) \<subseteq> insert r (set rows)"
  by (auto simp: upsert_def update_where_def)

lemma upsert_row: "row_by key i (upsert key r rows) = (if key r = i then Some r else row_by key i rows)"
proof (cases "row_by key (key r) rows")
  case None
  then show ?thesis by (auto simp: upsert_def row_by_append split: option.splits)
next
  case (Some q)
  have *: "row_by key i (update_where (\<lambda>q. key q = key r) (\<lambda>_. r) rows) =
      map_option (\<lambda>q. if key q = key r then r else q) (row_by key i rows)"
    by (induction rows) (auto simp: row_by_def update_where_def)
  show ?thesis
    using Some row_by_Some [of key i rows]
    by (cases "row_by key i rows") (auto simp: upsert_def *)
qed

lemma kept_nodes:
  assumes "kept db db'" and "i \<in> row_id ` set (location_requests db')"
  shows "kept db (db'\<lparr>request_serving_nodes := upsert node_request_id (node_row_of i n) (request_serving_nodes db')\<rparr>)"
proof -
  have "node_request_id ` set (upsert node_request_id (node_row_of i n) ns) \<subseteq> insert i (node_request_id ` set ns)" for ns
    using upsert_set [of node_request_id "node_row_of i n" ns] by (auto simp: node_row_of_def)
  then have "node_request_id ` set (upsert node_request_id (node_row_of i n) (request_serving_nodes db'))
      \<subseteq> row_id ` set (location_requests db')"
    using assms unfolding kept_def requests_inv_def by (meson insert_subset order_trans)
  with assms(1) show ?thesis by (simp add: kept_def requests_inv_def evolution_def)
qed

lemma kept_result:
  assumes "kept db db'" and "\<exists>q \<in> set (location_requests db'). row_id q = i \<and> row_state q = StateCompleted"
  shows "kept db (db'\<lparr>location_results := upsert res_request_id (result_row_of i v) (location_results db')\<rparr>)"
proof -
  have "\<forall>w \<in> set (upsert res_request_id (result_row_of i v) (location_results db')).
      \<exists>q \<in> set (location_requests db'). row_id q = res_request_id w \<and> row_state q = StateCompleted"
  proof
    fix w
    assume "w \<in> set (upsert res_request_id (result_row_of i v) (location_results db'))"
    then have "w = result_row_of i v \<or> w \<in> set (location_results db')" using upsert_set by fast
    then show "\<exists>q \<in> set (location_requests db'). row_id q = res_request_id w \<and> row_state q = StateCompleted"
      using assms by (auto simp: kept_def requests_inv_def result_row_of_def)
  qed
  with assms(1) show ?thesis by (simp add: kept_def requests_inv_def evolution_def upsert_unique)
qed

lemma row_after_guarded:
  assumes "request_update f (guarded i st)" and "row_by row_id i (location_requests db) = Some q"
    and "row_state q = st"
  shows "row_by row_id i (location_requests (update_requests (guarded i st) f db)) = Some (f q)"
  using keyed_update.row_after [OF request_update.axioms(1) [OF assms(1)]] assms(2,3)
  by (auto simp: update_requests_def guarded_def dest: row_by_Some)

lemma kept_frame:
  assumes "requests_inv db" and "location_requests db' = location_requests db"
    and "location_results db' = location_results db" and "request_serving_nodes db' = request_serving_nodes db"
    and "cl_id ` set (lcs_clients db) \<subseteq> cl_id ` set (lcs_clients db')"
  shows "kept db db'"
proof -
  have "\<forall>q \<in> set (location_requests db). row_client_id q \<in> cl_id ` set (lcs_clients db')"
    using assms(1,5) unfolding requests_inv_def by blast
  with assms show ?thesis by (simp add: kept_def requests_inv_def evolution_same)
qed

named_theorems keeps \<open>operations that keep the request invariant\<close>

interpretation set_client: keyed_update cl_id "set_client c now" for c now
  by unfold_locales (simp add: set_client_def)

lemma UpsertClient_kept [keeps]:
  assumes "UpsertClient fault now c db = (r, db')" and "requests_inv db"
  shows "kept db db'"
proof (rule kept_tx [OF assms(2) assms(1) [unfolded UpsertClient_def]], goal_cases)
  case (1 x)
  have c: "cl_id ` set rows \<subseteq> cl_id ` set (upsert_client_row c n rows)" for n rows
    by (auto simp: upsert_client_row_def set_client.keys_kept)
  from 1 have "location_requests db' = location_requests db" "location_results db' = location_results db"
    "request_serving_nodes db' = request_serving_nodes db"
    "lcs_clients db' = upsert_client_row c (utc now) (lcs_clients db)"
    by (auto simp: Let_def split: option.splits)
  with assms(2) c show "kept db db'" by (intro kept_frame) simp_all
qed

lemma CreateRequest_kept [keeps]:
  assumes "CreateRequest fault fault2 now r db = (res, db')" and "requests_inv db"
  shows "kept db db'"
proof (rule kept_exec [OF assms(1) [unfolded CreateRequest_def] assms(2)], goal_cases)
  case 1
  let ?r = "r\<lparr>rq_CreatedAt := now, rq_UpdatedAt := now\<rparr>"
  let ?q = "insert_row now ?r"
  from 1 consider "db' = db"
    | "\<not> insert_violates ?q db" "db' = db\<lparr>location_requests := location_requests db @ [?q]\<rparr>"
    by (auto simp: Let_def split: if_splits sum.splits)
  then show "kept db db'"
  proof cases
    case 2
    then have "row_by row_id (row_id ?q) (location_requests db) = None"
      "row_by client_key (client_key ?q) (location_requests db) = None"
      "row_client_id ?q \<in> cl_id ` set (lcs_clients db)"
      by (auto simp: insert_violates_def row_by_None)
    with 2(2) assms(2) have "requests_inv db'"
      by (auto simp: requests_inv_def key_unique_append)
    moreover have "evolution db db'" 
      using 2(2) row_evolves_refl by (intro evolutionI) force
    ultimately show ?thesis by (simp add: kept_def)
  qed (simp add: kept_refl assms(2))
qed

lemma SetRequestSubscription_kept [keeps]:
  "SetRequestSubscription fault i s db = (r, db') \<Longrightarrow> requests_inv db \<Longrightarrow> kept db db'"
  unfolding SetRequestSubscription_def
  by (erule kept_exec)
    (auto intro: kept_refl request_update_kept set_subscription.request_update_axioms)

lemma TransitionRequest_kept [keeps]:
  assumes "TransitionRequest fault now i to code db = (r, db')" and "requests_inv db"
  shows "kept db db'"
proof (rule kept_tx [OF assms(2) assms(1) [unfolded TransitionRequest_def]], goal_cases)
  case (1 x)
  from 1 obtain st where "CanTransition st to" "update_guarded i st (set_state to code (utc now)) db = (Inr (), db')"
    by (auto split: sum.splits if_splits prod.splits)
  then show "kept db db'" using update_guarded_kept [OF set_state_update assms(2)] by blast
qed

lemma ClaimNextQueued_kept [keeps]:
  assumes "ClaimNextQueued fault now db = (r, db')" and "requests_inv db"
  shows "kept db db'"
proof (rule kept_tx [OF assms(2) assms(1) [unfolded ClaimNextQueued_def]], goal_cases)
  case (1 x)
  from 1 consider "db' = db"
    | i where "update_guarded i StateQueued (set_claimed (utc now)) db = (Inr (), db')"
    by (auto split: sum.splits option.splits prod.splits)
  then show "kept db db'"
    by cases (auto simp: kept_refl assms(2)
        intro: update_guarded_kept [OF set_claimed.request_update_axioms assms(2)])
qed

lemma update_guarded_Inr:
  assumes "request_update f (guarded i st)" and "requests_inv db" and "update_guarded i st f db = (Inr x, db')"
  obtains q where "row_by row_id i (location_requests db) = Some q" and "row_state q = st"
    and "db' = update_requests (guarded i st) f db" and "row_by row_id i (location_requests db') = Some (f q)"
    and "kept db db'"
  using assms(3) row_after_guarded [OF assms(1)] update_guarded_kept [OF assms]
  by (auto simp: update_guarded_spec [OF assms(1,2)] split: if_splits)

lemma SaveServingNodeAndLocate_kept [keeps]:
  assumes "SaveServingNodeAndLocate fault now i n db = (r, db')" and "requests_inv db"
  shows "kept db db'"
proof (rule kept_tx [OF assms(2) assms(1) [unfolded SaveServingNodeAndLocate_def]], goal_cases)
  case (1 x)
  from 1 obtain db1 where u: "update_guarded i StateResolving (set_locating (utc now)) db = (Inr (), db1)"
    and d: "db' = db1\<lparr>request_serving_nodes := upsert node_request_id (node_row_of i n) (request_serving_nodes db1)\<rparr>"
    by (auto split: sum.splits prod.splits)
  from u obtain q where "row_by row_id i (location_requests db1) = Some q" "kept db db1"
    by (rule update_guarded_Inr [OF set_locating.request_update_axioms assms(2)])
  then show "kept db db'" unfolding d by (intro kept_nodes) (auto dest: row_by_Some)
qed

lemma SaveServingNode_kept [keeps]:
  "SaveServingNode fault i n db = (r, db') \<Longrightarrow> requests_inv db \<Longrightarrow> kept db db'"
  unfolding SaveServingNode_def
  by (erule kept_exec)
    (auto intro!: kept_refl kept_nodes simp: row_by_None split: if_splits)

lemma Requeue_kept [keeps]:
  "Requeue fault now i from nxt code db = (r, db') \<Longrightarrow> from = StateResolving \<or> from = StateLocating
     \<Longrightarrow> requests_inv db \<Longrightarrow> kept db db'"
  unfolding Requeue_def
  by (erule kept_exec) (auto intro: kept_refl update_guarded_kept [OF set_requeued_update])

lemma FailRequest_kept [keeps]:
  "FailRequest fault now i from code desc db = (r, db') \<Longrightarrow> \<not> Terminal from \<Longrightarrow> requests_inv db \<Longrightarrow> kept db db'"
  unfolding FailRequest_def
  by (erule kept_exec) (auto intro: kept_refl update_guarded_kept [OF set_failed_update])

lemma CompleteRequest_kept [keeps]:
  assumes "CompleteRequest fault now i v db = (r, db')" and "requests_inv db"
  shows "kept db db'"
proof (rule kept_tx [OF assms(2) assms(1) [unfolded CompleteRequest_def]], goal_cases)
  case (1 x)
  from 1 obtain db1 where u: "update_guarded i StateLocating (set_completed (utc now)) db = (Inr (), db1)"
    and d: "db' = db1\<lparr>location_results := upsert res_request_id (result_row_of i v) (location_results db1)\<rparr>"
    by (auto split: sum.splits prod.splits)
  from u obtain q where "row_by row_id i (location_requests db1) = Some (set_completed (utc now) q)" "kept db db1"
    by (rule update_guarded_Inr [OF set_completed.request_update_axioms assms(2)])
  then show "kept db db'" unfolding d
    by (intro kept_result) (auto dest!: row_by_Some simp: set_completed_def)
qed

lemma RecordAudit_kept [keeps]:
  "RecordAudit fault now e db = (r, db') \<Longrightarrow> requests_inv db \<Longrightarrow> kept db db'"
  unfolding RecordAudit_def
  by (erule kept_exec) (auto simp: Let_def intro!: kept_frame)

lemma Recover_kept [keeps]: "Recover fault now db = (r, db') \<Longrightarrow> requests_inv db \<Longrightarrow> kept db db'"
  unfolding Recover_def
  by (erule kept_exec)
    (auto intro: kept_refl request_update_kept set_recovered.request_update_axioms)

lemma inv_result:
  "requests_inv db \<Longrightarrow> v \<in> set (location_results db) \<Longrightarrow>
     \<exists>q \<in> set (location_requests db). row_id q = res_request_id v \<and> row_state q = StateCompleted"
  by (simp add: requests_inv_def)

lemma inv_node:
  "requests_inv db \<Longrightarrow> node_request_id ` set (request_serving_nodes db) \<subseteq> row_id ` set (location_requests db)"
  by (simp add: requests_inv_def)

lemma Purge_inv:
  assumes "Purge fault before rbefore db = (r, db')" and "requests_inv db"
  shows "requests_inv db'"
proof (cases fault)
  case True
  with assms show ?thesis by (simp add: Purge_def)
next
  case False
  define old where "old = purgeable (utc before)"
  define gone where "gone = row_id ` set (filter old (location_requests db))"
  have rows: "location_requests db' = filter (\<lambda>q. \<not> old q) (location_requests db)"
    and results: "set (location_results db') \<subseteq> {v \<in> set (location_results db). res_request_id v \<notin> gone}"
    and nodes: "set (request_serving_nodes db') = {n \<in> set (request_serving_nodes db). node_request_id n \<notin> gone}"
    and runique: "key_unique res_request_id (location_results db')"
    and clients: "lcs_clients db' = lcs_clients db"
    using False assms by (auto simp: Purge_def Let_def old_def gone_def requests_inv_def key_unique_filter)
  have keep: "q \<in> set (location_requests db')" if "q \<in> set (location_requests db)" "row_id q \<notin> gone" for q
    using that by (auto simp: rows gone_def)
  show ?thesis
  proof -
    have "key_unique row_id (location_requests db')" "key_unique client_key (location_requests db')"
      using assms(2) by (simp_all add: rows requests_inv_def key_unique_filter)
    moreover have "\<forall>q \<in> set (location_requests db'). row_client_id q \<in> cl_id ` set (lcs_clients db')"
      using assms(2) by (simp add: rows clients requests_inv_def)
    moreover have "\<exists>q \<in> set (location_requests db'). row_id q = res_request_id v \<and> row_state q = StateCompleted"
      if "v \<in> set (location_results db')" for v
    proof -
      from that results have v: "v \<in> set (location_results db)" "res_request_id v \<notin> gone" by auto
      from inv_result [OF assms(2) v(1)] obtain q where q: "q \<in> set (location_requests db)"
        "row_id q = res_request_id v" "row_state q = StateCompleted" by blast
      with keep [OF q(1)] v(2) show ?thesis by auto
    qed
    moreover have "node_request_id ` set (request_serving_nodes db') \<subseteq> row_id ` set (location_requests db')"
    proof
      fix i
      assume "i \<in> node_request_id ` set (request_serving_nodes db')"
      then have n: "i \<in> node_request_id ` set (request_serving_nodes db)" and g: "i \<notin> gone"
        by (auto simp: nodes)
      from subsetD [OF inv_node [OF assms(2)] n] obtain q where "i = row_id q" "q \<in> set (location_requests db)"
        by (rule imageE)
      with keep [of q] g show "i \<in> row_id ` set (location_requests db')" by simp
    qed
    ultimately show ?thesis using runique by (simp add: requests_inv_def)
  qed
qed

section \<open>The claim queue of requests\<close>

interpretation request_queue: claim_queue row_id set_claimed t request_order claimable
  "\<lambda>q. row_state q = StateQueued" for t
  by unfold_locales (simp_all add: claimable_def set_claimed_def)

lemma guarded_eq: "guarded i st = (\<lambda>q. row_id q = i \<and> row_state q = st)"
  by (simp add: guarded_def [abs_def])

text \<open>The whole claim, under the invariant: what is claimed, what it becomes, and what is returned.\<close>

lemma ClaimNextQueued_eq:
  assumes "requests_inv db"
  shows "ClaimNextQueued False now db =
    (case first_by request_order (filter (claimable (utc now)) (location_requests db)) of
       None \<Rightarrow> (Inr None, db)
     | Some q \<Rightarrow> (Inr (Some (request_of_row (set_claimed (utc now) q))),
         update_requests (guarded (row_id q) StateQueued) (set_claimed (utc now)) db))"
proof (cases "first_by request_order (filter (claimable (utc now)) (location_requests db))")
  case None
  then show ?thesis by (simp add: ClaimNextQueued_def transact_def)
next
  case (Some q)
  note p = request_queue.picked [OF Some]
  have u: "key_unique row_id (location_requests db)" using assms by (rule requests_inv_unique)
  with p have r: "row_by row_id (row_id q) (location_requests db) = Some q" by (simp add: row_by_unique)
  let ?db = "update_requests (guarded (row_id q) StateQueued) (set_claimed (utc now)) db"
  have "row_by row_id (row_id q) (location_requests ?db) = Some (set_claimed (utc now) q)"
    using row_after_guarded [OF set_claimed.request_update_axioms r] p by simp
  moreover have "update_guarded (row_id q) StateQueued (set_claimed (utc now)) db = (Inr (), ?db)"
    using update_guarded_spec [OF set_claimed.request_update_axioms assms] r p by simp
  moreover have "(request_of_row (set_claimed t x))\<lparr>rq_State := StateResolving\<rparr> = request_of_row (set_claimed t x)" for t x
    by (simp add: request_of_row_def set_claimed_def)
  ultimately show ?thesis
    using Some by (simp add: ClaimNextQueued_def transact_def getRequestTx_def GetRequest_def)
qed

section \<open>Properties\<close>

definition sample_client :: client_row where
  "sample_client = \<lparr>cl_id = ''c'', cl_credential_hash = [1], cl_enabled = 1, cl_lcs_client_type = 1,
     cl_lcs_privacy_check = 0, cl_created_at = utc 0, cl_updated_at = utc 0\<rparr>"

definition sample_request :: "string \<Rightarrow> request" where
  "sample_request i = \<lparr>rq_ID = i, rq_ClientID = ''c'', rq_TargetKind = ''msisdn'', rq_TargetValue = ''155'',
     rq_IdempotencyKey = i, rq_Service = ServiceImmediate, rq_State = StateQueued, rq_FailureCode = [],
     rq_CreatedAt = 0, rq_UpdatedAt = 0, rq_AttemptCount = 0, rq_NextAttemptAt = None,
     rq_LocationType = 0, rq_Priority = None, rq_QoS = None, rq_SubscriptionID = None\<rparr>"

definition sample_row :: "string \<Rightarrow> request_row" where
  "sample_row i = insert_row 0 (sample_request i)"

definition sample_db :: "request_row list \<Rightarrow> db" where
  "sample_db rows = empty_db\<lparr>lcs_clients := [sample_client], location_requests := rows\<rparr>"

lemmas sample_defs = sample_client_def sample_request_def sample_row_def sample_db_def empty_db_def

lemma sample_rows [simp]: "location_requests (sample_db rows) = rows"
  by (simp add: sample_db_def)

lemma sample_inv: "requests_inv (sample_db [sample_row ''a'', sample_row ''b''])"
  by (simp add: requests_inv_def sample_defs key_unique_def insert_row_def client_key_def)

lemma sample_first:
  "first_by request_order (filter (claimable (utc 5)) [sample_row ''a'', sample_row ''b'']) = Some (sample_row ''a'')"
  by (simp add: sample_defs insert_row_def claimable_def request_order_def less_eq_char_def)

lemma sample_claim:
  "\<exists>r db'. ClaimNextQueued False 5 (sample_db [sample_row ''a'', sample_row ''b'']) = (Inr (Some r), db')"
  by (simp only: ClaimNextQueued_eq [OF sample_inv] sample_rows sample_first option.case) simp

text \<open>
  Claiming the next request.  Without a database failure it returns nothing only when no request
  is queued and due, and then changes nothing; otherwise it returns the queued, due request that is
  first by creation stamp and id, now resolving with one more attempt, and changes that row only.
\<close>

theorem ClaimNextQueued_spec:
  assumes "requests_inv db" and "ClaimNextQueued False now db = (res, db')"
  shows "case res of
      Inl e \<Rightarrow> False
    | Inr None \<Rightarrow> db' = db \<and> (\<forall>q \<in> set (location_requests db). \<not> claimable (utc now) q)
    | Inr (Some r) \<Rightarrow> \<exists>q \<in> set (location_requests db). claimable (utc now) q
        \<and> (\<forall>p \<in> set (location_requests db). claimable (utc now) p \<longrightarrow> request_order q \<le> request_order p)
        \<and> r = (request_of_row q)\<lparr>rq_State := StateResolving, rq_AttemptCount := row_attempt_count q + 1,
             rq_UpdatedAt := now\<rparr>
        \<and> db' = db\<lparr>location_requests := map (\<lambda>p. if row_id p = row_id q then set_claimed (utc now) p else p)
             (location_requests db)\<rparr>"
proof (cases "first_by request_order (filter (claimable (utc now)) (location_requests db))")
  case None
  with assms request_queue.none_picked show ?thesis by (auto simp: ClaimNextQueued_eq)
next
  case (Some q)
  note p = request_queue.picked [OF Some]
  have u: "p = q" if "p \<in> set (location_requests db)" "row_id p = row_id q" for p
    using row_by_unique [OF requests_inv_unique [OF assms(1)]] that p by (metis option.inject)
  have e1: "update_requests (guarded (row_id q) StateQueued) (set_claimed (utc now)) db =
      db\<lparr>location_requests := map (\<lambda>p. if row_id p = row_id q then set_claimed (utc now) p else p) (location_requests db)\<rparr>"
  proof -
    have "map (\<lambda>p. if guarded (row_id q) StateQueued p then set_claimed (utc now) p else p) (location_requests db) =
        map (\<lambda>p. if row_id p = row_id q then set_claimed (utc now) p else p) (location_requests db)"
      using u p by (intro map_cong refl) (auto simp: guarded_def)
    then show ?thesis by (simp add: update_requests_def update_where_def)
  qed
  have e2: "request_of_row (set_claimed (utc now) q) =
      (request_of_row q)\<lparr>rq_State := StateResolving, rq_AttemptCount := row_attempt_count q + 1, rq_UpdatedAt := now\<rparr>"
    by (simp add: request_of_row_def set_claimed_def)
  from assms Some have r: "res = Inr (Some (request_of_row (set_claimed (utc now) q)))"
    "db' = update_requests (guarded (row_id q) StateQueued) (set_claimed (utc now)) db"
    by (auto simp: ClaimNextQueued_eq)
  show ?thesis
    unfolding r e1 e2 sum.case option.case by (rule bexI [of _ q]) (use p in simp_all)
qed

theorem ClaimNextQueued_spec_witness:
  "\<exists>r db'. ClaimNextQueued False 5 (sample_db [sample_row ''a'', sample_row ''b'']) = (Inr (Some r), db')
     \<and> (\<exists>q \<in> set [sample_row ''a'', sample_row ''b'']. claimable (utc 5) q \<and> rq_ID r = row_id q)"
proof -
  let ?db = "sample_db [sample_row ''a'', sample_row ''b'']"
  obtain r db' where c: "ClaimNextQueued False 5 ?db = (Inr (Some r), db')"
    using sample_claim by blast
  from ClaimNextQueued_spec [OF sample_inv c, unfolded sum.case option.case]
  obtain q where q: "q \<in> set (location_requests ?db)" "claimable (utc 5) q"
    and r: "r = (request_of_row q)\<lparr>rq_State := StateResolving, rq_AttemptCount := row_attempt_count q + 1,
      rq_UpdatedAt := 5\<rparr>"
    by (elim bexE conjE)
  from r have "rq_ID r = row_id q" by (simp add: request_of_row_def)
  with c q show ?thesis by (metis sample_rows)
qed

text \<open>
  No request is handed out twice: a second claim, at whatever time, returns a different request,
  because the first one left its row out of the queued state.
\<close>

theorem claimed_once:
  assumes "requests_inv db" and "ClaimNextQueued False now db = (Inr (Some r), db')"
    and "ClaimNextQueued fault later db' = (Inr (Some r'), db'')"
  shows "rq_ID r' \<noteq> rq_ID r"
proof -
  have i': "requests_inv db'" using ClaimNextQueued_kept [OF assms(2,1)] by (simp add: kept_def)
  from assms(1,2) obtain q where q: "first_by request_order (filter (claimable (utc now)) (location_requests db)) = Some q"
    "r = request_of_row (set_claimed (utc now) q)"
    "db' = update_requests (guarded (row_id q) StateQueued) (set_claimed (utc now)) db"
    by (auto simp: ClaimNextQueued_eq split: option.splits)
  from assms(3) i' have "\<not> fault" by (cases fault) (auto simp: ClaimNextQueued_def)
  with assms(3) i' obtain q' where q': "first_by request_order (filter (claimable (utc later)) (location_requests db')) = Some q'"
    "r' = request_of_row (set_claimed (utc later) q')"
    by (auto simp: ClaimNextQueued_eq split: option.splits)
  have "row_id q' \<noteq> row_id q"
    using request_queue.not_picked_again [OF requests_inv_unique [OF assms(1)], of q "utc later" "utc now" q']
      request_queue.picked [OF q(1)] q'(1) q(3)
    by (simp add: update_requests_def guarded_eq)
  with q(2) q'(2) show ?thesis by (simp add: request_of_row_def set_claimed_def)
qed

theorem claimed_once_witness:
  "\<exists>r db'. ClaimNextQueued False 5 (sample_db [sample_row ''a'', sample_row ''b'']) = (Inr (Some r), db')
     \<and> (\<forall>r' db''. ClaimNextQueued False 6 db' = (Inr (Some r'), db'') \<longrightarrow> rq_ID r' \<noteq> rq_ID r)"
proof -
  obtain r db' where c: "ClaimNextQueued False 5 (sample_db [sample_row ''a'', sample_row ''b'']) = (Inr (Some r), db')"
    using sample_claim by blast
  with claimed_once [OF sample_inv c] show ?thesis by blast
qed

lemma row_by_client_key_unique:
  "requests_inv db \<Longrightarrow> q \<in> set (location_requests db) \<Longrightarrow> row_by client_key (client_key q) (location_requests db) = Some q"
  by (simp add: requests_inv_def row_by_unique)

lemma CreateRequest_existing:
  assumes "requests_inv db" and "q \<in> set (location_requests db)"
    and "row_client_id q = rq_ClientID r" and "row_idempotency_key q = rq_IdempotencyKey r"
  shows "CreateRequest False False now r db = (Inr (request_of_row q, False), db)"
proof -
  have "client_key q = (rq_ClientID r, rq_IdempotencyKey r)" using assms(3,4) by (simp add: client_key_def)
  with row_by_client_key_unique [OF assms(1,2)]
  have "row_by client_key (rq_ClientID r, rq_IdempotencyKey r) (location_requests db) = Some q" by simp
  then show ?thesis
    by (simp add: CreateRequest_def Let_def insert_violates_def byClientKey_def insert_row_def client_key_def)
qed

text \<open>
  Idempotent creation: as long as a row with the client and idempotency key of a request exists,
  creating the request again (under whatever id and with whatever contents) returns the stored
  request, reports that nothing was created, and leaves the database as it was.
\<close>

theorem CreateRequest_replay:
  assumes "requests_inv db" and "q \<in> set (location_requests db)"
    and "row_client_id q = rq_ClientID r" and "row_idempotency_key q = rq_IdempotencyKey r"
  shows "CreateRequest False False now r db = (Inr (request_of_row q, False), db)"
  using assms by (rule CreateRequest_existing)

theorem CreateRequest_replay_witness:
  "CreateRequest False False 9 ((sample_request ''z'')\<lparr>rq_IdempotencyKey := ''b''\<rparr>)
     (sample_db [sample_row ''a'', sample_row ''b'']) =
   (Inr (request_of_row (sample_row ''b''), False), sample_db [sample_row ''a'', sample_row ''b''])"
  by (rule CreateRequest_replay [OF sample_inv]) (simp_all add: sample_defs insert_row_def)

text \<open>The columns of a QoS request are read back as they were, when it says anything and has no NaN.\<close>

lemma scanQoS_columns:
  "q_HorizontalAccuracyMeters q \<noteq> Some NaN \<Longrightarrow> q_VerticalAccuracyMeters q \<noteq> Some NaN \<Longrightarrow>
   scanQoS (store_qos (qosColumns (Some q))) =
     (if q = \<lparr>q_Class = None, q_HorizontalAccuracyMeters = None, q_VerticalAccuracyMeters = None,
        q_VerticalRequested = False, q_ResponseTimeClass = None\<rparr> then None else Some q)"
  by (cases q) (simp add: qosColumns_def store_qos_def scanQoS_def sql_real_def boolInt_def)

lemma scanQoS_None [simp]: "scanQoS (store_qos (qosColumns None)) = None"
  by (simp add: qosColumns_def store_qos_def scanQoS_def sql_real_def)

text \<open>
  What is created can be read back: after a request is created, reading it by its id gives the
  request as it was submitted, stamped with the time of its creation to the nanosecond, with no
  attempts, and with its QoS unless that was empty (and provided no accuracy is NaN).
\<close>

theorem CreateRequest_GetRequest:
  assumes "CreateRequest False fault2 now r db = (Inr (r', True), db')"
    and "\<And>q. rq_QoS r = Some q \<Longrightarrow> q_HorizontalAccuracyMeters q \<noteq> Some NaN \<and> q_VerticalAccuracyMeters q \<noteq> Some NaN"
  shows "GetRequest False (rq_ID r) db' =
    Inr (r\<lparr>rq_CreatedAt := now, rq_UpdatedAt := now, rq_AttemptCount := 0, rq_NextAttemptAt := None,
      rq_QoS := (if rq_QoS r = Some \<lparr>q_Class = None, q_HorizontalAccuracyMeters = None,
         q_VerticalAccuracyMeters = None, q_VerticalRequested = False, q_ResponseTimeClass = None\<rparr>
       then None else rq_QoS r)\<rparr>)"
proof -
  let ?q = "insert_row now (r\<lparr>rq_CreatedAt := now, rq_UpdatedAt := now\<rparr>)"
  from assms(1) have v: "\<not> insert_violates ?q db" and db': "db' = db\<lparr>location_requests := location_requests db @ [?q]\<rparr>"
    by (auto simp: CreateRequest_def Let_def split: if_splits sum.splits)
  then have "row_by row_id (rq_ID r) (location_requests db') = Some ?q"
    by (simp add: row_by_append insert_violates_def insert_row_def)
  then have "GetRequest False (rq_ID r) db' = Inr (request_of_row ?q)" by (simp add: GetRequest_def)
  with assms(2) show ?thesis
    by (cases "rq_QoS r") (auto simp: request_of_row_def insert_row_def scanQoS_columns)
qed

theorem CreateRequest_GetRequest_witness:
  "\<exists>r' db'. CreateRequest False False 7 (sample_request ''a'') (sample_db []) = (Inr (r', True), db')
     \<and> GetRequest False ''a'' db' = Inr ((sample_request ''a'')\<lparr>rq_CreatedAt := 7, rq_UpdatedAt := 7\<rparr>)"
proof -
  obtain r' db' where c: "CreateRequest False False 7 (sample_request ''a'') (sample_db []) = (Inr (r', True), db')"
    by (simp add: CreateRequest_def Let_def insert_violates_def sample_defs insert_row_def row_by_def)
  from CreateRequest_GetRequest [OF c] c show ?thesis by (simp add: sample_request_def)
qed

lemma TransitionRequest_eq:
  assumes "requests_inv db"
  shows "TransitionRequest False now i to code db =
    (case row_by row_id i (location_requests db) of
       None \<Rightarrow> (Inl ErrNotFound, db)
     | Some q \<Rightarrow>
         if CanTransition (row_state q) to
         then (Inr ((request_of_row q)\<lparr>rq_State := to, rq_FailureCode := code, rq_UpdatedAt := now\<rparr>),
               update_requests (guarded i (row_state q)) (set_state to code (utc now)) db)
         else (Inl ErrConflict, db))"
proof (cases "row_by row_id i (location_requests db)")
  case None
  then show ?thesis by (simp add: TransitionRequest_def transact_def getRequestTx_def GetRequest_def)
next
  case (Some q)
  have st: "rq_State (request_of_row q) = row_state q" by (simp add: request_of_row_def)
  show ?thesis
  proof (cases "CanTransition (row_state q) to")
    case True
    have "update_guarded i (row_state q) (set_state to code (utc now)) db =
        (Inr (), update_requests (guarded i (row_state q)) (set_state to code (utc now)) db)"
      using update_guarded_spec [OF set_state_update [OF True] assms] Some by simp
    with Some True show ?thesis
      by (simp add: TransitionRequest_def transact_def getRequestTx_def GetRequest_def st)
  next
    case False
    with Some show ?thesis
      by (simp add: TransitionRequest_def transact_def getRequestTx_def GetRequest_def st)
  qed
qed

text \<open>
  A transition succeeds exactly when the request exists and the life cycle permits the step from
  its stored state; then it returns the request in its new state and writes that state, code and time
  to its row only.  In every other case it returns an error and changes nothing.
\<close>

theorem TransitionRequest_spec:
  assumes "requests_inv db"
  shows "TransitionRequest False now i to code db =
    (case row_by row_id i (location_requests db) of
       None \<Rightarrow> (Inl ErrNotFound, db)
     | Some q \<Rightarrow>
         if CanTransition (row_state q) to
         then (Inr ((request_of_row q)\<lparr>rq_State := to, rq_FailureCode := code, rq_UpdatedAt := now\<rparr>),
               update_requests (guarded i (row_state q)) (set_state to code (utc now)) db)
         else (Inl ErrConflict, db))"
  using assms by (rule TransitionRequest_eq)

theorem TransitionRequest_spec_witness:
  "fst (TransitionRequest False 9 ''b'' StateCompleted [] (sample_db [sample_row ''a'', sample_row ''b''])) = Inl ErrConflict"
  by (subst TransitionRequest_spec [OF sample_inv])
    (simp add: row_by_def sample_row_def insert_row_def sample_request_def CanTransition_Completed)

text \<open>
  Completing a locating request stores its result: reading the result back gives every field
  that was stored, the time to the nanosecond, under the id of the request, and the request is then
  completed.
\<close>

theorem CompleteRequest_GetResult:
  assumes "requests_inv db" and "CompleteRequest False now i v db = (Inr (), db')"
  shows "GetResult False i db' = Inr (v\<lparr>rs_RequestID := i\<rparr>)
    \<and> (\<exists>q. row_by row_id i (location_requests db) = Some q \<and> row_state q = StateLocating
        \<and> GetRequest False i db' = Inr ((request_of_row q)\<lparr>rq_State := StateCompleted, rq_UpdatedAt := now\<rparr>))"
proof -
  from assms(2) obtain db1 where u: "update_guarded i StateLocating (set_completed (utc now)) db = (Inr (), db1)"
    and d: "db' = db1\<lparr>location_results := upsert res_request_id (result_row_of i v) (location_results db1)\<rparr>"
    by (auto simp: CompleteRequest_def transact_Inr split: sum.splits prod.splits)
  from u obtain q where q: "row_by row_id i (location_requests db) = Some q" "row_state q = StateLocating"
    and r: "row_by row_id i (location_requests db1) = Some (set_completed (utc now) q)"
    by (rule update_guarded_Inr [OF set_completed.request_update_axioms assms(1)])
  have "GetResult False i db' = Inr (v\<lparr>rs_RequestID := i\<rparr>)"
    by (simp add: d GetResult_def upsert_row result_row_of_def)
  moreover have "GetRequest False i db' = Inr ((request_of_row q)\<lparr>rq_State := StateCompleted, rq_UpdatedAt := now\<rparr>)"
    using r by (simp add: d GetRequest_def request_of_row_def set_completed_def)
  ultimately show ?thesis using q by simp
qed

definition sample_result :: loc_result where
  "sample_result = \<lparr>rs_RequestID = ''a'', rs_RawGAD = [0], rs_Shape = ''point'', rs_CreatedAt = 12,
     rs_Latitude = Some 1, rs_Longitude = Some 2, rs_UncertaintyMeters = None, rs_SemiMajorMeters = None,
     rs_SemiMinorMeters = None, rs_OrientationDegrees = None, rs_ConfidencePercent = None,
     rs_AgeOfLocationEstimate = None, rs_AccuracyFulfilment = None, rs_RawVelocityEstimate = [],
     rs_EUTRANPositioningData = [], rs_ECGI = [], rs_Source = ''slh''\<rparr>"

text \<open>A request that was requeued once with a transient failure and is now being located.\<close>

definition sample_locating :: request_row where
  "sample_locating = (sample_row ''a'')\<lparr>row_state := StateLocating, row_failure_code := ''temporarily_unavailable''\<rparr>"

lemma sample_locating_inv: "requests_inv (sample_db [sample_locating])"
  by (simp add: requests_inv_def sample_locating_def sample_defs key_unique_def insert_row_def)

lemma sample_locating_row [simp]:
  "row_by row_id ''a'' [sample_locating] = Some sample_locating" "row_state sample_locating = StateLocating"
  by (simp_all add: row_by_def sample_locating_def sample_row_def insert_row_def sample_request_def)

lemma sample_complete:
  "\<exists>db'. CompleteRequest False 13 ''a'' sample_result (sample_db [sample_locating]) = (Inr (), db')"
  by (simp add: CompleteRequest_def transact_def
      update_guarded_spec [OF set_completed.request_update_axioms sample_locating_inv])

theorem CompleteRequest_GetResult_witness:
  "\<exists>db'. CompleteRequest False 13 ''a'' sample_result (sample_db [sample_locating]) = (Inr (), db')
     \<and> GetResult False ''a'' db' = Inr sample_result"
proof -
  from sample_complete obtain db' where
    c: "CompleteRequest False 13 ''a'' sample_result (sample_db [sample_locating]) = (Inr (), db')" by blast
  with CompleteRequest_GetResult [OF sample_locating_inv c] show ?thesis
    by (simp add: sample_result_def)
qed

text \<open>
  A completed request keeps the failure code of its last transient failure: the request below,
  requeued earlier as temporarily unavailable, reads as completed with that failure code.
\<close>

theorem CompleteRequest_keeps_failure_code:
  "\<exists>db' r. CompleteRequest False 13 ''a'' sample_result (sample_db [sample_locating]) = (Inr (), db')
     \<and> GetRequest False ''a'' db' = Inr r \<and> rq_State r = StateCompleted
     \<and> rq_FailureCode r = ''temporarily_unavailable''"
proof -
  let ?db = "update_requests (guarded ''a'' StateLocating) (set_completed (utc 13)) (sample_db [sample_locating])"
  have "row_by row_id ''a'' (location_requests ?db) = Some (set_completed (utc 13) sample_locating)"
    by (rule row_after_guarded [OF set_completed.request_update_axioms]) simp_all
  then have "GetRequest False ''a'' (?db\<lparr>location_results := x\<rparr>) =
      Inr (request_of_row (set_completed (utc 13) sample_locating))" for x
    by (simp add: GetRequest_def)
  moreover have "rq_State (request_of_row (set_completed (utc 13) sample_locating)) = StateCompleted"
    "rq_FailureCode (request_of_row (set_completed (utc 13) sample_locating)) = ''temporarily_unavailable''"
    by (simp_all add: request_of_row_def set_completed_def sample_locating_def)
  ultimately show ?thesis
    by (auto simp: CompleteRequest_def transact_def
        update_guarded_spec [OF set_completed.request_update_axioms sample_locating_inv])
qed

text \<open>
  Recovery after a restart loses no request: every request that was being resolved or located is
  queued again and due at once, every other row is untouched, and no row is left interrupted.
\<close>

theorem Recover_spec:
  assumes "Recover False now db = (res, db')"
  shows "res = Inr () \<and> length (location_requests db') = length (location_requests db)
    \<and> (\<forall>k < length (location_requests db).
         let q = location_requests db ! k; q' = location_requests db' ! k in
           (if interrupted q then row_evolves q q' \<and> claimable (utc now) q' else q' = q))
    \<and> (\<forall>q \<in> set (location_requests db'). \<not> interrupted q)"
proof -
  have rows: "location_requests db' = map (\<lambda>q. if interrupted q then set_recovered (utc now) q else q) (location_requests db)"
    and "res = Inr ()" using assms by (auto simp: Recover_def update_requests_def update_where_def)
  moreover have "\<not> interrupted (set_recovered t q)" "claimable (utc now) (set_recovered (utc now) q)" for t q
    by (simp_all add: interrupted_def set_recovered_def claimable_def)
  ultimately show ?thesis
    using set_recovered.evolves by (auto simp: Let_def)
qed

theorem Recover_spec_witness:
  "\<exists>db'. Recover False 20 (sample_db [sample_locating]) = (Inr (), db')
     \<and> claimable (utc 20) (location_requests db' ! 0)"
proof -
  obtain db' where r: "Recover False 20 (sample_db [sample_locating]) = (Inr (), db')"
    by (simp add: Recover_def)
  from Recover_spec [OF r] have "claimable (utc 20) (location_requests db' ! 0)"
    by (simp add: interrupted_def Let_def)
  with r show ?thesis by blast
qed

text \<open>
  The purge removes exactly the requests in a terminal state created before its cut-off stamp, and
  with a removed request its result and its serving node; no result of a remaining request is removed
  before the results' own cut-off.
\<close>

theorem Purge_spec:
  assumes "requests_inv db" and "Purge False before rbefore db = (res, db')"
  shows "set (location_requests db') =
      {q \<in> set (location_requests db). \<not> (Terminal (row_state q) \<and> row_created_at q < utc before)}
    \<and> set (location_results db') =
      {v \<in> set (location_results db). res_request_id v \<in> row_id ` set (location_requests db')
         \<and> \<not> res_created_at v < utc rbefore}
    \<and> (\<forall>n \<in> set (request_serving_nodes db'). node_request_id n \<in> row_id ` set (location_requests db'))"
proof -
  have k: "requests_inv db'" using assms(2,1) by (rule Purge_inv)
  define gone where "gone = row_id ` set (filter (purgeable (utc before)) (location_requests db))"
  have p: "purgeable (utc before) q \<longleftrightarrow> Terminal (row_state q) \<and> row_created_at q < utc before" for q
    by (auto simp: purgeable_def Terminal_def)
  have rows: "location_requests db' = filter (\<lambda>q. \<not> purgeable (utc before) q) (location_requests db)"
    and res: "set (location_results db') = {v \<in> set (location_results db).
        res_request_id v \<notin> gone \<and> \<not> res_created_at v < utc rbefore}"
    using assms(2) by (auto simp: Purge_def Let_def gone_def)
  have "res_request_id v \<in> row_id ` set (location_requests db')"
    if "v \<in> set (location_results db)" "res_request_id v \<notin> gone" for v
    using inv_result [OF assms(1) that(1)] that(2) by (force simp: rows gone_def)
  moreover have "res_request_id v \<notin> gone" if "res_request_id v \<in> row_id ` set (location_requests db')" for v
    using that row_by_unique [OF requests_inv_unique [OF assms(1)]]
    by (auto simp: rows gone_def) (metis option.inject)
  ultimately have "set (location_results db') =
      {v \<in> set (location_results db). res_request_id v \<in> row_id ` set (location_requests db')
         \<and> \<not> res_created_at v < utc rbefore}"
    unfolding res by blast
  moreover have "set (location_requests db') =
      {q \<in> set (location_requests db). \<not> (Terminal (row_state q) \<and> row_created_at q < utc before)}"
    by (auto simp: rows p)
  moreover have "\<forall>n \<in> set (request_serving_nodes db'). node_request_id n \<in> row_id ` set (location_requests db')"
    using inv_node [OF k] by (simp add: image_subset_iff)
  ultimately show ?thesis by blast
qed

theorem Purge_spec_witness:
  "set (location_requests (snd (Purge False (5 * second) 0 (sample_db [sample_locating])))) = {sample_locating}"
proof -
  obtain res db' where r: "Purge False (5 * second) 0 (sample_db [sample_locating]) = (res, db')" by force
  from Purge_spec [OF sample_locating_inv r] r show ?thesis by auto
qed

end
