(* ===== verification/GMLC_Outbox.thy ===== *)
theory GMLC_Outbox
  imports GMLC_Requests
begin

text \<open>
  The rest of \<open>internal/storage/sqlite/sqlite.go\<close>: callback subscriptions and the delivery outbox,
  deferred-location subscriptions and location reports, and the location history with its pruning and
  its thinned queries.  Identifiers from \<open>uuid.NewString\<close> are arguments.
\<close>

section \<open>Subscriptions and deliveries\<close>

definition CreateSubscription ::
  "bool \<Rightarrow> time \<Rightarrow> string \<Rightarrow> string \<Rightarrow> string \<Rightarrow> bytes \<Rightarrow> db \<Rightarrow> (store_error + subscription) \<times> db" where
  "CreateSubscription fault now uuid clientID url secret = exec fault (\<lambda>db.
     (let sub = \<lparr>s_ID = uuid, s_ClientID = clientID, s_CallbackURL = url, s_CallbackSecret = secret, s_CreatedAt = now\<rparr> in
      if row_by sub_id uuid (delivery_subscriptions db) \<noteq> None \<or> row_by cl_id clientID (lcs_clients db) = None
      then (Inl ErrDB, db)
      else (Inr sub, db\<lparr>delivery_subscriptions := delivery_subscriptions db @
        [\<lparr>sub_id = uuid, sub_client_id = clientID, sub_callback_url = url, sub_callback_secret = secret,
          sub_created_at = utc now\<rparr>]\<rparr>)))"

definition GetSubscription :: "bool \<Rightarrow> string \<Rightarrow> db \<Rightarrow> store_error + subscription" where
  "GetSubscription fault i db =
     (if fault then Inl ErrDB
      else case row_by sub_id i (delivery_subscriptions db) of
        None \<Rightarrow> Inl ErrNotFound
      | Some r \<Rightarrow> Inr \<lparr>s_ID = sub_id r, s_ClientID = sub_client_id r, s_CallbackURL = sub_callback_url r,
          s_CallbackSecret = sub_callback_secret r, s_CreatedAt = parseTime (sub_created_at r)\<rparr>)"

definition delivery_of_row :: "delivery_row \<Rightarrow> delivery" where
  "delivery_of_row r = \<lparr>d_ID = del_id r, d_SubscriptionID = del_subscription_id r, d_Payload = del_payload r,
     d_State = del_state r, d_AttemptCount = del_attempt_count r,
     d_NextAttemptAt = map_option parseTime (del_next_attempt_at r),
     d_LastResponseCode = del_last_response_code r, d_CreatedAt = parseTime (del_created_at r),
     d_UpdatedAt = parseTime (del_updated_at r)\<rparr>"

definition GetDelivery :: "bool \<Rightarrow> string \<Rightarrow> db \<Rightarrow> store_error + delivery" where
  "GetDelivery fault i db =
     (if fault then Inl ErrDB
      else case row_by del_id i (deliveries db) of
        None \<Rightarrow> Inl ErrNotFound
      | Some r \<Rightarrow> Inr (delivery_of_row r))"

definition getDeliveryTx :: "string \<Rightarrow> db \<Rightarrow> store_error + delivery" where
  "getDeliveryTx i db = GetDelivery False i db"

definition CreateDelivery ::
  "bool \<Rightarrow> time \<Rightarrow> string \<Rightarrow> string \<Rightarrow> bytes \<Rightarrow> db \<Rightarrow> (store_error + delivery) \<times> db" where
  "CreateDelivery fault now uuid subscriptionID payload = exec fault (\<lambda>db.
     (let row = \<lparr>del_id = uuid, del_subscription_id = subscriptionID, del_payload = payload,
            del_state = DeliveryPending, del_attempt_count = 0, del_next_attempt_at = None,
            del_last_response_code = None, del_created_at = utc now, del_updated_at = utc now\<rparr> in
      if row_by del_id uuid (deliveries db) \<noteq> None
         \<or> row_by sub_id subscriptionID (delivery_subscriptions db) = None
      then (Inl ErrDB, db)
      else (Inr (delivery_of_row row), db\<lparr>deliveries := deliveries db @ [row]\<rparr>)))"

definition set_in_flight :: "stamp \<Rightarrow> delivery_row \<Rightarrow> delivery_row" where
  "set_in_flight now r = r\<lparr>del_state := DeliveryInFlight, del_attempt_count := del_attempt_count r + 1,
     del_updated_at := now\<rparr>"

definition set_pending :: "stamp \<Rightarrow> stamp \<Rightarrow> delivery_row \<Rightarrow> delivery_row" where
  "set_pending nxt now r = r\<lparr>del_state := DeliveryPending, del_next_attempt_at := Some nxt, del_updated_at := now\<rparr>"

definition set_done :: "delivery_state \<Rightarrow> int \<Rightarrow> stamp \<Rightarrow> delivery_row \<Rightarrow> delivery_row" where
  "set_done st code now r = r\<lparr>del_state := st, del_last_response_code := Some code, del_updated_at := now\<rparr>"

lemmas del_set_defs = set_in_flight_def set_pending_def set_done_def

definition guarded_del :: "string \<Rightarrow> delivery_state \<Rightarrow> delivery_row \<Rightarrow> bool" where
  "guarded_del i st r \<longleftrightarrow> del_id r = i \<and> del_state r = st"

definition update_deliveries ::
  "string \<Rightarrow> delivery_state \<Rightarrow> (delivery_row \<Rightarrow> delivery_row) \<Rightarrow> db \<Rightarrow> (store_error + unit) \<times> db" where
  "update_deliveries i st f db =
     (let db' = db\<lparr>deliveries := update_where (guarded_del i st) f (deliveries db)\<rparr> in
      if RowsAffected (guarded_del i st) (deliveries db) \<noteq> 1 then (Inl ErrConflict, db')
      else (Inr (), db'))"

definition due_delivery :: "stamp \<Rightarrow> delivery_row \<Rightarrow> bool" where
  "due_delivery now r \<longleftrightarrow> del_state r = DeliveryPending \<and>
     (case del_next_attempt_at r of None \<Rightarrow> True | Some t \<Rightarrow> t \<le> now)"

definition delivery_order :: "delivery_row \<Rightarrow> stamp \<times> string" where
  "delivery_order r = (del_created_at r, del_id r)"

definition ClaimNextDelivery :: "bool \<Rightarrow> time \<Rightarrow> db \<Rightarrow> (store_error + delivery option) \<times> db" where
  "ClaimNextDelivery fault now = exec fault (transact (\<lambda>db.
     (case first_by delivery_order (filter (due_delivery (utc now)) (deliveries db)) of
        None \<Rightarrow> (Inr None, db)
      | Some r \<Rightarrow>
          (case update_deliveries (del_id r) DeliveryPending (set_in_flight (utc now)) db of
             (Inl e, db) \<Rightarrow> (Inl e, db)
           | (Inr _, db) \<Rightarrow>
               (case getDeliveryTx (del_id r) db of
                  Inl e \<Rightarrow> (Inl e, db)
                | Inr d \<Rightarrow> (Inr (Some (d\<lparr>d_State := DeliveryInFlight\<rparr>)), db))))))"

definition RequeueDelivery :: "bool \<Rightarrow> time \<Rightarrow> string \<Rightarrow> time \<Rightarrow> db \<Rightarrow> (store_error + unit) \<times> db" where
  "RequeueDelivery fault now i nxt =
     exec fault (update_deliveries i DeliveryInFlight (set_pending (utc nxt) (utc now)))"

definition FailDelivery :: "bool \<Rightarrow> time \<Rightarrow> string \<Rightarrow> int \<Rightarrow> db \<Rightarrow> (store_error + unit) \<times> db" where
  "FailDelivery fault now i code =
     exec fault (update_deliveries i DeliveryInFlight (set_done DeliveryFailed code (utc now)))"

definition MarkDelivered :: "bool \<Rightarrow> time \<Rightarrow> string \<Rightarrow> int \<Rightarrow> db \<Rightarrow> (store_error + unit) \<times> db" where
  "MarkDelivered fault now i code =
     exec fault (update_deliveries i DeliveryInFlight (set_done DeliveryDelivered code (utc now)))"

section \<open>Deferred subscriptions and location reports\<close>

definition CreateDeferredLocationSubscription ::
  "bool \<Rightarrow> time \<Rightarrow> string \<Rightarrow> string \<Rightarrow> string \<Rightarrow> u8 \<Rightarrow> db \<Rightarrow> (store_error + deferred_sub) \<times> db" where
  "CreateDeferredLocationSubscription fault now clientID kind val ref = exec fault (\<lambda>db.
     (if row_by dfr_ref ref (deferred_location_subscriptions db) \<noteq> None
         \<or> row_by cl_id clientID (lcs_clients db) = None
      then (Inl ErrDB, db)
      else (Inr \<lparr>df_LCSReferenceNumber = ref, df_ClientID = clientID, df_TargetKind = kind, df_TargetValue = val,
                 df_State = DeferredSubscriptionPending, df_CreatedAt = now, df_UpdatedAt = now\<rparr>,
            db\<lparr>deferred_location_subscriptions := deferred_location_subscriptions db @
              [\<lparr>dfr_ref = ref, dfr_client_id = clientID, dfr_target_kind = kind, dfr_target_value = val,
                dfr_state = DeferredSubscriptionPending, dfr_created_at = utc now, dfr_updated_at = utc now\<rparr>]\<rparr>)))"

definition FindPendingDeferredLocationSubscription :: "bool \<Rightarrow> u8 \<Rightarrow> db \<Rightarrow> store_error + deferred_sub" where
  "FindPendingDeferredLocationSubscription fault ref db =
     (if fault then Inl ErrDB
      else case find (\<lambda>r. dfr_ref r = ref \<and> dfr_state r = DeferredSubscriptionPending)
                  (deferred_location_subscriptions db) of
        None \<Rightarrow> Inl ErrNotFound
      | Some r \<Rightarrow> Inr \<lparr>df_LCSReferenceNumber = dfr_ref r, df_ClientID = dfr_client_id r,
          df_TargetKind = dfr_target_kind r, df_TargetValue = dfr_target_value r, df_State = dfr_state r,
          df_CreatedAt = parseTime (dfr_created_at r), df_UpdatedAt = parseTime (dfr_updated_at r)\<rparr>)"

definition set_reported :: "stamp \<Rightarrow> deferred_row \<Rightarrow> deferred_row" where
  "set_reported now r = r\<lparr>dfr_state := DeferredSubscriptionReported, dfr_updated_at := now\<rparr>"

definition pending_ref :: "u8 \<Rightarrow> deferred_row \<Rightarrow> bool" where
  "pending_ref ref r \<longleftrightarrow> dfr_ref r = ref \<and> dfr_state r = DeferredSubscriptionPending"

definition MarkDeferredLocationSubscriptionReported ::
  "bool \<Rightarrow> time \<Rightarrow> u8 \<Rightarrow> db \<Rightarrow> (store_error + unit) \<times> db" where
  "MarkDeferredLocationSubscriptionReported fault now ref = exec fault (\<lambda>db.
     (let db' = db\<lparr>deferred_location_subscriptions :=
            update_where (pending_ref ref) (set_reported (utc now)) (deferred_location_subscriptions db)\<rparr> in
      if RowsAffected (pending_ref ref) (deferred_location_subscriptions db) \<noteq> 1
      then (Inl ErrConflict, db') else (Inr (), db')))"

definition CreateLocationReport ::
  "bool \<Rightarrow> time \<Rightarrow> string \<Rightarrow> stored_report \<Rightarrow> db \<Rightarrow> (store_error + stored_report) \<times> db" where
  "CreateLocationReport fault now uuid r = exec fault (\<lambda>db.
     (let received = (case sr_ReceivedAt r of None \<Rightarrow> now | Some t \<Rightarrow> t);
          r = r\<lparr>sr_ID := uuid, sr_ReceivedAt := Some received\<rparr> in
      if row_by (sr_ID \<circ> rpt_value) uuid (location_reports db) \<noteq> None
         \<or> (case sr_LCSReferenceNumber r of None \<Rightarrow> False
            | Some ref \<Rightarrow> row_by dfr_ref ref (deferred_location_subscriptions db) = None)
      then (Inl ErrDB, db)
      else (Inr r, db\<lparr>location_reports := location_reports db @ [\<lparr>rpt_received_at = utc received, rpt_value = r\<rparr>]\<rparr>)))"

section \<open>Location history\<close>

definition maxHistoryPointsPerTarget :: nat where "maxHistoryPointsPerTarget = 20"

definition of_target :: "string \<Rightarrow> string \<Rightarrow> history_row \<Rightarrow> bool" where
  "of_target kind val h \<longleftrightarrow> hr_target_kind h = kind \<and> hr_target_value h = val"

text \<open>\<open>ORDER BY recorded_at DESC LIMIT n\<close>; among equal stamps the row inserted last comes first.\<close>

definition newest :: "nat \<Rightarrow> history_row list \<Rightarrow> history_row list" where
  "newest n rows = take n (rev (sort_key hr_recorded_at rows))"

definition RecordHistory ::
  "bool \<Rightarrow> string \<Rightarrow> string \<Rightarrow> string \<Rightarrow> loc_result \<Rightarrow> db \<Rightarrow> (store_error + unit) \<times> db" where
  "RecordHistory fault uuid kind val v = exec fault (\<lambda>db.
     (if row_by hr_id uuid (location_history db) \<noteq> None then (Inl ErrDB, db)
      else
        (let rows = location_history db @ [\<lparr>hr_id = uuid, hr_target_kind = kind, hr_target_value = val,
               hr_shape = rs_Shape v, hr_latitude = rs_Latitude v, hr_longitude = rs_Longitude v,
               hr_uncertainty_meters = rs_UncertaintyMeters v, hr_recorded_at = utc (rs_CreatedAt v)\<rparr>];
             kept_ids = map hr_id (newest maxHistoryPointsPerTarget (filter (of_target kind val) rows))
         in (Inr (), db\<lparr>location_history :=
               filter (\<lambda>h. \<not> (of_target kind val h \<and> hr_id h \<notin> set kept_ids)) rows\<rparr>))))"

definition maxScan :: nat where "maxScan = 10000"

definition point_of_row :: "history_row \<Rightarrow> history_point" where
  "point_of_row h = \<lparr>hp_Shape = hr_shape h, hp_Latitude = hr_latitude h, hp_Longitude = hr_longitude h,
     hp_UncertaintyMeters = hr_uncertainty_meters h, hp_RecordedAt = parseTime (hr_recorded_at h)\<rparr>"

text \<open>The thinning loop, after the point recorded at \<open>prev\<close> was kept.\<close>

fun thin_after :: "duration \<Rightarrow> time \<Rightarrow> history_point list \<Rightarrow> history_point list" where
  "thin_after d prev [] = []"
| "thin_after d prev (p # ps) =
     (if hp_RecordedAt p - prev \<ge> d then p # thin_after d (hp_RecordedAt p) ps else thin_after d prev ps)"

definition thin :: "duration \<Rightarrow> history_point list \<Rightarrow> history_point list" where
  "thin d ps = (case ps of [] \<Rightarrow> [] | p # ps \<Rightarrow> p # thin_after d (hp_RecordedAt p) ps)"

definition QueryHistory ::
  "bool \<Rightarrow> string \<Rightarrow> string \<Rightarrow> time \<Rightarrow> time \<Rightarrow> duration \<Rightarrow> int \<Rightarrow> db \<Rightarrow> store_error + history_point list" where
  "QueryHistory fault kind val start stop minInterval limit db =
     (if fault then Inl ErrDB
      else
        (let rows = filter (\<lambda>h. of_target kind val h \<and> utc start \<le> hr_recorded_at h \<and> hr_recorded_at h \<le> utc stop)
               (location_history db);
             ps = map point_of_row (take maxScan (sort_key hr_recorded_at rows));
             out = (if minInterval > 0 then thin minInterval ps else ps)
         in Inr (if limit > 0 \<and> int (length out) > limit then take (nat limit) out else out)))"

section \<open>Life cycle of a delivery\<close>

definition delivery_can :: "delivery_state \<Rightarrow> delivery_state \<Rightarrow> bool" where
  "delivery_can s t \<longleftrightarrow> s = DeliveryPending \<and> t = DeliveryInFlight
     \<or> s = DeliveryInFlight \<and> (t = DeliveryPending \<or> t = DeliveryDelivered \<or> t = DeliveryFailed)"

interpretation delivery_lifecycle: lifecycle delivery_can "\<lambda>s. s = DeliveryDelivered \<or> s = DeliveryFailed"
  by unfold_locales (auto simp: delivery_can_def)

definition del_evolves :: "delivery_row \<Rightarrow> delivery_row \<Rightarrow> bool" where
  "del_evolves r r' \<longleftrightarrow> del_id r' = del_id r \<and> del_subscription_id r' = del_subscription_id r
     \<and> del_payload r' = del_payload r \<and> del_created_at r' = del_created_at r
     \<and> delivery_can\<^sup>=\<^sup>= (del_state r) (del_state r') \<and> del_attempt_count r \<le> del_attempt_count r'
     \<and> (del_state r' = DeliveryInFlight \<and> del_state r \<noteq> DeliveryInFlight
        \<longrightarrow> del_attempt_count r' = del_attempt_count r + 1)"

definition outbox_inv :: "db \<Rightarrow> bool" where
  "outbox_inv db \<longleftrightarrow> key_unique del_id (deliveries db) \<and> key_unique sub_id (delivery_subscriptions db)
     \<and> del_subscription_id ` set (deliveries db) \<subseteq> sub_id ` set (delivery_subscriptions db)"

text \<open>
  What every operation keeps of the outbox: the invariant, every subscription, and every delivery,
  which moves as its life cycle permits; a terminal delivery is never touched again.
\<close>

definition outbox_kept :: "db \<Rightarrow> db \<Rightarrow> bool" where
  "outbox_kept db db' \<longleftrightarrow> outbox_inv db'
     \<and> set (delivery_subscriptions db) \<subseteq> set (delivery_subscriptions db')
     \<and> (\<forall>r \<in> set (deliveries db). \<exists>r' \<in> set (deliveries db'). del_evolves r r')"

lemma del_evolves_refl [simp]: "del_evolves r r"
  by (simp add: del_evolves_def)

lemma outbox_kept_more:
  assumes "outbox_inv db'" and "set (delivery_subscriptions db) \<subseteq> set (delivery_subscriptions db')"
    and "set (deliveries db) \<subseteq> set (deliveries db')"
  shows "outbox_kept db db'"
  unfolding outbox_kept_def using assms del_evolves_refl by blast

lemma outbox_kept_same:
  "outbox_inv db \<Longrightarrow> deliveries db' = deliveries db \<Longrightarrow> delivery_subscriptions db' = delivery_subscriptions db
     \<Longrightarrow> outbox_kept db db'"
  by (rule outbox_kept_more) (simp_all add: outbox_inv_def)

locale delivery_update = keyed_update del_id f
  for f :: "delivery_row \<Rightarrow> delivery_row" +
  fixes i :: string and st :: delivery_state
  assumes evolves: "guarded_del i st r \<Longrightarrow> del_evolves r (f r)"
begin

lemma row_evolution: "del_evolves r (if guarded_del i st r then f r else r)"
  by (simp add: evolves)

lemma updated_kept:
  assumes "outbox_inv db"
  shows "outbox_kept db (db\<lparr>deliveries := update_where (guarded_del i st) f (deliveries db)\<rparr>)"
proof -
  define g where "g = (\<lambda>r. if guarded_del i st r then f r else r)"
  have rows: "update_where (guarded_del i st) f rs = map g rs" for rs
    by (simp add: update_where_def g_def)
  have ev: "del_evolves r (g r)" for r using row_evolution by (simp add: g_def)
  then have "del_subscription_id (g r) = del_subscription_id r" for r by (simp add: del_evolves_def)
  then have "del_subscription_id ` set (map g rs) = del_subscription_id ` set rs" for rs
    by (simp add: image_image)
  moreover have "key_unique del_id (map g (deliveries db))"
    using unique_kept [of "deliveries db" "guarded_del i st"] assms by (simp add: outbox_inv_def rows)
  ultimately have "outbox_inv (db\<lparr>deliveries := map g (deliveries db)\<rparr>)"
    using assms by (simp add: outbox_inv_def)
  moreover have "\<forall>r \<in> set (deliveries db). \<exists>r' \<in> set (map g (deliveries db)). del_evolves r r'"
    using ev by auto
  ultimately show ?thesis unfolding outbox_kept_def rows by simp
qed

lemma guarded_ok:
  assumes "outbox_inv db"
  shows "update_deliveries i st f db =
    (if \<exists>r. row_by del_id i (deliveries db) = Some r \<and> del_state r = st
     then (Inr (), db\<lparr>deliveries := update_where (guarded_del i st) f (deliveries db)\<rparr>) else (Inl ErrConflict, db))"
proof -
  have u: "key_unique del_id (deliveries db)" using assms by (simp add: outbox_inv_def)
  note aff = affected_iff [OF u, of i "\<lambda>r. del_state r = st"]
  show ?thesis
  proof (cases "\<exists>r. row_by del_id i (deliveries db) = Some r \<and> del_state r = st")
    case True
    with aff show ?thesis by (auto simp: update_deliveries_def guarded_del_def [abs_def])
  next
    case False
    have "update_where (guarded_del i st) f (deliveries db) = deliveries db"
      using False row_by_unique [OF u] by (auto simp: update_where_def guarded_del_def intro!: map_idI)
    with False aff show ?thesis
      by (auto simp: update_deliveries_def guarded_del_def [abs_def] split: option.splits)
  qed
qed

lemma updated_row:
  assumes "row_by del_id i (deliveries db) = Some r" and "del_state r = st"
  shows "row_by del_id i (update_where (guarded_del i st) f (deliveries db)) = Some (f r)"
  using assms row_after [of i "guarded_del i st" "deliveries db"] by (auto simp: guarded_del_def dest: row_by_Some)

lemma update_deliveries_kept:
  assumes "update_deliveries i st f db = (r, db')" and "outbox_inv db"
  shows "outbox_kept db db'"
  using assms updated_kept [OF assms(2)] outbox_kept_same [OF assms(2)]
  by (auto simp: guarded_ok [OF assms(2)] split: if_splits)

end

interpretation set_in_flight: delivery_update "set_in_flight now" i DeliveryPending for now i
  by unfold_locales (auto simp: del_set_defs guarded_del_def del_evolves_def delivery_can_def)

interpretation set_pending: delivery_update "set_pending nxt now" i DeliveryInFlight for nxt now i
  by unfold_locales (auto simp: del_set_defs guarded_del_def del_evolves_def delivery_can_def)

interpretation set_failed_del: delivery_update "set_done DeliveryFailed code now" i DeliveryInFlight for code now i
  by unfold_locales (auto simp: del_set_defs guarded_del_def del_evolves_def delivery_can_def)

interpretation set_delivered: delivery_update "set_done DeliveryDelivered code now" i DeliveryInFlight for code now i
  by unfold_locales (auto simp: del_set_defs guarded_del_def del_evolves_def delivery_can_def)

interpretation delivery_queue: claim_queue del_id set_in_flight t delivery_order due_delivery
  "\<lambda>r. del_state r = DeliveryPending" for t
  by unfold_locales (simp_all add: due_delivery_def set_in_flight_def)

lemma guarded_del_eq: "guarded_del i st = (\<lambda>r. del_id r = i \<and> del_state r = st)"
  by (simp add: guarded_del_def [abs_def])

lemma outbox_exec:
  assumes "exec fault f db = (r, db')" and "outbox_inv db" and "f db = (r, db') \<Longrightarrow> outbox_kept db db'"
  shows "outbox_kept db db'"
  using assms by (cases fault) (auto simp: outbox_kept_same)

lemma ClaimNextDelivery_eq:
  assumes "outbox_inv db"
  shows "ClaimNextDelivery False now db =
    (case first_by delivery_order (filter (due_delivery (utc now)) (deliveries db)) of
       None \<Rightarrow> (Inr None, db)
     | Some r \<Rightarrow> (Inr (Some (delivery_of_row (set_in_flight (utc now) r))),
         db\<lparr>deliveries := update_where (guarded_del (del_id r) DeliveryPending) (set_in_flight (utc now)) (deliveries db)\<rparr>))"
proof (cases "first_by delivery_order (filter (due_delivery (utc now)) (deliveries db))")
  case None
  then show ?thesis by (simp add: ClaimNextDelivery_def transact_def)
next
  case (Some r)
  note p = delivery_queue.picked [OF Some]
  have "key_unique del_id (deliveries db)" using assms by (simp add: outbox_inv_def)
  with p have row: "row_by del_id (del_id r) (deliveries db) = Some r" by (simp add: row_by_unique)
  have "(delivery_of_row (set_in_flight t x))\<lparr>d_State := DeliveryInFlight\<rparr> = delivery_of_row (set_in_flight t x)" for t x
    by (simp add: delivery_of_row_def set_in_flight_def)
  with Some row p set_in_flight.updated_row [OF row] set_in_flight.guarded_ok [OF assms] show ?thesis
    by (simp add: ClaimNextDelivery_def transact_def getDeliveryTx_def GetDelivery_def)
qed

lemma ClaimNextDelivery_kept:
  assumes "ClaimNextDelivery fault now db = (res, db')" and "outbox_inv db"
  shows "outbox_kept db db'"
proof (cases fault)
  case True
  with assms show ?thesis by (simp add: ClaimNextDelivery_def outbox_kept_same)
next
  case False
  with assms set_in_flight.updated_kept [OF assms(2)] show ?thesis
    by (auto simp: ClaimNextDelivery_eq outbox_kept_same split: option.splits)
qed

lemma outbox_kept_deliveries:
  "RequeueDelivery fault now i nxt db = (res, db') \<Longrightarrow> outbox_inv db \<Longrightarrow> outbox_kept db db'"
  "FailDelivery fault now i code db = (res, db') \<Longrightarrow> outbox_inv db \<Longrightarrow> outbox_kept db db'"
  "MarkDelivered fault now i code db = (res, db') \<Longrightarrow> outbox_inv db \<Longrightarrow> outbox_kept db db'"
  unfolding RequeueDelivery_def FailDelivery_def MarkDelivered_def
  by (erule outbox_exec; simp add: set_pending.update_deliveries_kept set_failed_del.update_deliveries_kept
      set_delivered.update_deliveries_kept)+

lemma CreateDelivery_kept:
  assumes "CreateDelivery fault now uuid s p db = (res, db')" and "outbox_inv db"
  shows "outbox_kept db db'"
proof (rule outbox_exec [OF assms(1) [unfolded CreateDelivery_def] assms(2)], goal_cases)
  case 1
  let ?row = "\<lparr>del_id = uuid, del_subscription_id = s, del_payload = p,
            del_state = DeliveryPending, del_attempt_count = 0, del_next_attempt_at = None,
            del_last_response_code = None, del_created_at = utc now, del_updated_at = utc now\<rparr>"
  show ?case
  proof (cases "row_by del_id uuid (deliveries db) \<noteq> None \<or> row_by sub_id s (delivery_subscriptions db) = None")
    case True
    with 1 have "db' = db" by (simp add: Let_def)
    then show ?thesis by (simp add: outbox_kept_same assms(2))
  next
    case False
    with 1 have db': "db' = db\<lparr>deliveries := deliveries db @ [?row]\<rparr>" by (auto simp: Let_def)
    from False have "row_by del_id uuid (deliveries db) = None" and "s \<in> sub_id ` set (delivery_subscriptions db)"
      by (simp_all add: row_by_None)
    then have "outbox_inv db'" using assms(2) by (simp add: db' outbox_inv_def key_unique_append)
    then show ?thesis by (rule outbox_kept_more) (simp_all add: db' subset_insertI)
  qed
qed

lemma CreateSubscription_kept:
  assumes "CreateSubscription fault now uuid c url secret db = (res, db')" and "outbox_inv db"
  shows "outbox_kept db db'"
proof (rule outbox_exec [OF assms(1) [unfolded CreateSubscription_def] assms(2)], goal_cases)
  case 1
  let ?row = "\<lparr>sub_id = uuid, sub_client_id = c, sub_callback_url = url, sub_callback_secret = secret,
          sub_created_at = utc now\<rparr>"
  show ?case
  proof (cases "row_by sub_id uuid (delivery_subscriptions db) \<noteq> None \<or> row_by cl_id c (lcs_clients db) = None")
    case True
    with 1 have "db' = db" by (simp add: Let_def)
    then show ?thesis by (simp add: outbox_kept_same assms(2))
  next
    case False
    with 1 have db': "db' = db\<lparr>delivery_subscriptions := delivery_subscriptions db @ [?row]\<rparr>" by (auto simp: Let_def)
    have "outbox_inv db'" using assms(2) False by (simp add: db' outbox_inv_def key_unique_append subset_insertI2)
    then show ?thesis by (rule outbox_kept_more) (simp_all add: db' subset_insertI)
  qed
qed

section \<open>Facts about the history\<close>

lemma thin_after_gap: "p \<in> set (thin_after d prev ps) \<Longrightarrow> 0 \<le> d \<Longrightarrow> prev + d \<le> hp_RecordedAt p"
proof (induction d prev ps rule: thin_after.induct)
  case (2 d prev p' ps)
  then show ?case by (fastforce split: if_splits)
qed simp

text \<open>Points whose successive times grow by at least \<open>d\<close>.\<close>

fun spaced :: "duration \<Rightarrow> history_point list \<Rightarrow> bool" where
  "spaced d [] = True"
| "spaced d [p] = True"
| "spaced d (p # q # ps) = (hp_RecordedAt q - hp_RecordedAt p \<ge> d \<and> spaced d (q # ps))"

lemma spaced_thin_after: "spaced d (thin_after d prev ps)
    \<and> (case thin_after d prev ps of [] \<Rightarrow> True | q # _ \<Rightarrow> hp_RecordedAt q - prev \<ge> d)"
proof (induction d prev ps rule: thin_after.induct)
  case (2 d prev p ps)
  show ?case
  proof (cases "hp_RecordedAt p - prev \<ge> d")
    case True
    with 2 show ?thesis by (cases "thin_after d (hp_RecordedAt p) ps") auto
  qed (use 2 in simp)
qed simp

lemma spaced_thin: "spaced d (thin d ps)"
proof (cases ps)
  case (Cons p qs)
  then show ?thesis
    using spaced_thin_after [of d "hp_RecordedAt p" qs]
    by (cases "thin_after d (hp_RecordedAt p) qs") (auto simp: thin_def)
qed (simp add: thin_def)

lemma spaced_take: "spaced d ps \<Longrightarrow> spaced d (take n ps)"
proof (induction d ps arbitrary: n rule: spaced.induct)
  case (3 d p q ps)
  show ?case
  proof (cases n)
    case (Suc m)
    with 3 3(1) [of m] show ?thesis by (cases m) auto
  qed simp
qed (simp_all add: take_Cons split: nat.splits)

lemma set_thin_after: "set (thin_after d prev ps) \<subseteq> set ps"
  by (induction d prev ps rule: thin_after.induct) auto

lemma set_thin: "set (thin d ps) \<subseteq> set ps"
  using set_thin_after by (cases ps) (auto simp: thin_def)

lemma newest_length: "length (newest n rows) \<le> n"
  by (simp add: newest_def)

lemma set_newest: "set (newest n rows) \<subseteq> set rows"
  using set_take_subset [of n "rev (sort_key hr_recorded_at rows)"] by (auto simp: newest_def)

text \<open>Nothing that was left out is newer than something that was taken.\<close>

lemma newest_least:
  assumes "key_unique hr_id rows" and "h \<in> set (newest n rows)" and "g \<in> set rows" and "g \<notin> set (newest n rows)"
  shows "hr_recorded_at g \<le> hr_recorded_at h"
proof -
  define s where "s = rev (sort_key hr_recorded_at rows)"
  have sorted: "sorted (map hr_recorded_at (rev s))" by (simp add: s_def)
  have "g \<in> set (drop n s)"
    using assms(3,4) by (metis Un_iff append_take_drop_id newest_def s_def set_append set_rev set_sort)
  moreover have "h \<in> set (take n s)" using assms(2) by (simp add: newest_def s_def)
  moreover have "sorted (map hr_recorded_at (rev (drop n s) @ rev (take n s)))"
    using sorted by (metis append_take_drop_id rev_append)
  ultimately show ?thesis by (auto simp: sorted_append)
qed

section \<open>Properties\<close>

lemma outbox_inv_deliveries: "outbox_inv db \<Longrightarrow> key_unique del_id (deliveries db)"
  by (simp add: outbox_inv_def)

text \<open>
  No delivery is handed out twice: a second claim, at whatever time, returns a different delivery,
  and the claim has counted the attempt.
\<close>

theorem delivery_claimed_once:
  assumes "outbox_inv db" and "ClaimNextDelivery False now db = (Inr (Some d), db')"
    and "ClaimNextDelivery False later db' = (Inr (Some d'), db'')"
  shows "d_ID d' \<noteq> d_ID d \<and> (\<exists>r \<in> set (deliveries db). due_delivery (utc now) r \<and> d_ID d = del_id r
    \<and> d_AttemptCount d = del_attempt_count r + 1 \<and> d_Payload d = del_payload r)"
proof -
  have i': "outbox_inv db'" using ClaimNextDelivery_kept [OF assms(2,1)] by (simp add: outbox_kept_def)
  from assms(1,2) obtain r where r: "first_by delivery_order (filter (due_delivery (utc now)) (deliveries db)) = Some r"
    "d = delivery_of_row (set_in_flight (utc now) r)"
    "deliveries db' = update_where (guarded_del (del_id r) DeliveryPending) (set_in_flight (utc now)) (deliveries db)"
    by (auto simp: ClaimNextDelivery_eq split: option.splits)
  from assms(3) i' obtain r' where r': "first_by delivery_order (filter (due_delivery (utc later)) (deliveries db')) = Some r'"
    "d' = delivery_of_row (set_in_flight (utc later) r')"
    by (auto simp: ClaimNextDelivery_eq split: option.splits)
  note p = delivery_queue.picked [OF r(1)]
  have "del_id r' \<noteq> del_id r"
    using delivery_queue.not_picked_again [OF outbox_inv_deliveries [OF assms(1)], of r "utc later" "utc now" r'] p r'(1) r(3)
    by (simp add: guarded_del_eq)
  then have "d_ID d' \<noteq> d_ID d" by (simp add: r(2) r'(2) delivery_of_row_def set_in_flight_def)
  moreover have "d_ID d = del_id r" "d_AttemptCount d = del_attempt_count r + 1" "d_Payload d = del_payload r"
    by (simp_all add: r(2) delivery_of_row_def set_in_flight_def)
  ultimately show ?thesis using p by blast
qed

definition sample_delivery :: "string \<Rightarrow> delivery_row" where
  "sample_delivery i = \<lparr>del_id = i, del_subscription_id = ''s'', del_payload = [7], del_state = DeliveryPending,
     del_attempt_count = 0, del_next_attempt_at = None, del_last_response_code = None,
     del_created_at = utc 0, del_updated_at = utc 0\<rparr>"

definition sample_outbox :: db where
  "sample_outbox = empty_db\<lparr>delivery_subscriptions := [\<lparr>sub_id = ''s'', sub_client_id = ''c'', sub_callback_url = ''u'',
       sub_callback_secret = [1], sub_created_at = utc 0\<rparr>],
     deliveries := [sample_delivery ''x'', sample_delivery ''y'']\<rparr>"

lemma sample_outbox_inv: "outbox_inv sample_outbox"
  by (simp add: outbox_inv_def sample_outbox_def sample_delivery_def key_unique_def)

lemma sample_first_delivery:
  "first_by delivery_order (filter (due_delivery (utc 5)) (deliveries sample_outbox)) = Some (sample_delivery ''x'')"
  by (simp add: sample_outbox_def sample_delivery_def due_delivery_def delivery_order_def less_eq_char_def)

theorem delivery_claimed_once_witness:
  "\<exists>d db'. ClaimNextDelivery False 5 sample_outbox = (Inr (Some d), db')
     \<and> (\<forall>d' db''. ClaimNextDelivery False 6 db' = (Inr (Some d'), db'') \<longrightarrow> d_ID d' \<noteq> d_ID d)"
proof -
  obtain d db' where c: "ClaimNextDelivery False 5 sample_outbox = (Inr (Some d), db')"
    by (simp only: ClaimNextDelivery_eq [OF sample_outbox_inv] sample_first_delivery option.case)
  with delivery_claimed_once [OF sample_outbox_inv c] show ?thesis by blast
qed

text \<open>
  The history of a target is bounded and keeps the newest points: after a point is recorded the
  target has at most twenty, every dropped point has a stamp no later than every kept one, and the
  histories of other targets are untouched.
\<close>

theorem RecordHistory_bounded:
  assumes "key_unique hr_id (location_history db)"
    and "RecordHistory False uuid kind val v db = (Inr (), db')"
  shows "length (filter (of_target kind val) (location_history db')) \<le> 20
    \<and> (\<forall>g \<in> set (location_history db). \<forall>h \<in> set (location_history db').
         of_target kind val g \<and> g \<notin> set (location_history db') \<and> of_target kind val h
         \<longrightarrow> hr_recorded_at g \<le> hr_recorded_at h)
    \<and> filter (\<lambda>h. \<not> of_target kind val h) (location_history db') =
      filter (\<lambda>h. \<not> of_target kind val h) (location_history db)
    \<and> key_unique hr_id (location_history db')"
proof -
  define new where "new = \<lparr>hr_id = uuid, hr_target_kind = kind, hr_target_value = val,
               hr_shape = rs_Shape v, hr_latitude = rs_Latitude v, hr_longitude = rs_Longitude v,
               hr_uncertainty_meters = rs_UncertaintyMeters v, hr_recorded_at = utc (rs_CreatedAt v)\<rparr>"
  define rows where "rows = location_history db @ [new]"
  define mine where "mine = filter (of_target kind val) rows"
  define best where "best = newest 20 mine"
  from assms(2) have fresh: "row_by hr_id uuid (location_history db) = None"
    and db': "location_history db' = filter (\<lambda>h. \<not> (of_target kind val h \<and> hr_id h \<notin> hr_id ` set best)) rows"
    by (auto simp: RecordHistory_def Let_def rows_def new_def mine_def best_def maxHistoryPointsPerTarget_def
        split: if_splits)
  have u: "key_unique hr_id rows"
    unfolding rows_def using assms(1) fresh by (intro key_unique_append) (simp_all add: new_def)
  then have um: "key_unique hr_id mine" by (simp add: mine_def key_unique_filter)
  have sub: "set best \<subseteq> set mine" by (simp add: best_def set_newest)
  have mem: "hr_id h \<in> hr_id ` set best \<longleftrightarrow> h \<in> set best" if "h \<in> set mine" for h
  proof
    assume "hr_id h \<in> hr_id ` set best"
    then obtain g where "g \<in> set best" "hr_id h = hr_id g" by auto
    with sub that row_by_unique [OF um, of h] row_by_unique [OF um, of g] show "h \<in> set best" by auto
  qed auto
  have kept: "filter (of_target kind val) (location_history db') = filter (\<lambda>h. h \<in> set best) mine"
    unfolding db' mine_def filter_filter using mem by (intro filter_cong) (auto simp: mine_def)
  have "length (filter (\<lambda>h. h \<in> set best) mine) \<le> card (set best)"
  proof -
    have "distinct mine" using um by (auto simp: key_unique_def distinct_map)
    then have "length (filter (\<lambda>h. h \<in> set best) mine) = card (set (filter (\<lambda>h. h \<in> set best) mine))"
      by (simp only: distinct_card distinct_filter)
    also have "\<dots> \<le> card (set best)" by (rule card_mono) auto
    finally show ?thesis .
  qed
  also have "card (set best) \<le> length best" by (rule card_length)
  also have "length best \<le> 20" by (simp add: best_def newest_length)
  finally have len: "length (filter (of_target kind val) (location_history db')) \<le> 20" by (simp add: kept)
  have order: "hr_recorded_at g \<le> hr_recorded_at h"
    if "g \<in> set (location_history db)" "h \<in> set (location_history db')" "of_target kind val g"
      "g \<notin> set (location_history db')" "of_target kind val h" for g h
  proof -
    have "g \<in> set mine" using that(1,3) by (simp add: mine_def rows_def)
    moreover have "g \<notin> set best" using that(1,4) by (auto simp: db' rows_def)
    moreover have "h \<in> set (filter (of_target kind val) (location_history db'))" using that(2,5) by simp
    then have "h \<in> set best" unfolding kept by simp
    ultimately show ?thesis using newest_least [OF um] by (simp add: best_def)
  qed
  have "of_target kind val new" by (simp add: new_def of_target_def)
  then have "filter (\<lambda>h. \<not> of_target kind val h) (location_history db') =
      filter (\<lambda>h. \<not> of_target kind val h) (location_history db)"
    by (simp add: db' rows_def cong: conj_cong) (rule filter_cong, auto)
  with len order u show ?thesis by (auto simp: db' key_unique_filter)
qed

theorem RecordHistory_bounded_witness:
  "\<exists>db'. RecordHistory False ''h'' ''msisdn'' ''155'' sample_result empty_db = (Inr (), db')
     \<and> length (filter (of_target ''msisdn'' ''155'') (location_history db')) \<le> 20"
proof -
  obtain db' where r: "RecordHistory False ''h'' ''msisdn'' ''155'' sample_result empty_db = (Inr (), db')"
    by (simp add: RecordHistory_def empty_db_def row_by_def Let_def)
  have "key_unique hr_id (location_history empty_db)" by (simp add: key_unique_def empty_db_def)
  from RecordHistory_bounded [OF this r] r show ?thesis by blast
qed

text \<open>
  A history query returns points of the target only, recorded no earlier than the second of the
  start and no later than the second of the stop, in strictly increasing steps of at least the
  requested interval, and at most as many as the limit.
\<close>

theorem QueryHistory_spec:
  assumes "QueryHistory fault kind val start stop d limit db = Inr ps"
  shows "(\<forall>p \<in> set ps. \<exists>h \<in> set (location_history db). of_target kind val h \<and> p = point_of_row h
      \<and> utc start \<le> hr_recorded_at h \<and> hr_recorded_at h \<le> utc stop)
    \<and> (0 < d \<longrightarrow> spaced d ps) \<and> (0 < limit \<longrightarrow> int (length ps) \<le> limit)"
proof -
  define rows where "rows = filter (\<lambda>h. of_target kind val h \<and> utc start \<le> hr_recorded_at h
    \<and> hr_recorded_at h \<le> utc stop) (location_history db)"
  define qs where "qs = map point_of_row (take maxScan (sort_key hr_recorded_at rows))"
  define out where "out = (if d > 0 then thin d qs else qs)"
  have ps: "ps = (if limit > 0 \<and> int (length out) > limit then take (nat limit) out else out)"
    using assms by (auto simp: QueryHistory_def Let_def rows_def qs_def out_def split: if_splits)
  have "set out \<subseteq> set qs" using set_thin [of d qs] by (simp add: out_def)
  then have "set ps \<subseteq> set qs" using set_take_subset [of "nat limit" out] by (auto simp: ps)
  moreover have "set qs \<subseteq> point_of_row ` set rows"
    using set_take_subset [of maxScan "sort_key hr_recorded_at rows"] by (auto simp: qs_def)
  ultimately have "\<forall>p \<in> set ps. \<exists>h \<in> set (location_history db). of_target kind val h \<and> p = point_of_row h
      \<and> utc start \<le> hr_recorded_at h \<and> hr_recorded_at h \<le> utc stop"
    by (fastforce simp: rows_def)
  moreover have "spaced d ps" if "0 < d"
    using that spaced_thin by (simp add: ps out_def spaced_take)
  moreover have "int (length ps) \<le> limit" if "0 < limit" using that by (simp add: ps)
  ultimately show ?thesis by blast
qed

definition sample_history :: db where
  "sample_history = empty_db\<lparr>location_history := map (\<lambda>k. \<lparr>hr_id = fixed_digits 1 k, hr_target_kind = ''imsi'',
     hr_target_value = ''00101'', hr_shape = ''point'', hr_latitude = Some 1, hr_longitude = Some 2,
     hr_uncertainty_meters = None, hr_recorded_at = Stamp (int k) ''Z''\<rparr>) [0, 1, 2, 5]\<rparr>"

lemma digit_char_0: "digit_char 0 = CHR ''0''"
  by (simp add: digit_char_def char_of_eq_iff take_bit_eq_mod)

lemma fixed_digits_0: "fixed_digits k 0 = replicate k (CHR ''0'')"
  by (induction k) (simp_all add: replicate_append_same digit_char_0)

lemma frac_text_0: "frac_text 0 = ''Z''"
  by (simp add: frac_text_def fixed_digits_0 dropWhile_eq_Nil_conv)

theorem QueryHistory_spec_witness:
  "\<exists>ps. QueryHistory False ''imsi'' ''00101'' 0 (9 * second) (2 * second) 3 sample_history = Inr ps
     \<and> map hp_RecordedAt ps = [0, 2 * second, 5 * second] \<and> spaced (2 * second) ps"
proof -
  have e: "map hp_RecordedAt (projr (QueryHistory False ''imsi'' ''00101'' 0 (9 * second) (2 * second) 3 sample_history)) =
      [0, 2 * second, 5 * second]"
    by (simp add: QueryHistory_def sample_history_def maxScan_def utc_def frac_text_0 of_target_def less_eq_stamp_def
        point_of_row_def parseTime_def thin_def Let_def)
  obtain ps where q: "QueryHistory False ''imsi'' ''00101'' 0 (9 * second) (2 * second) 3 sample_history = Inr ps"
    by (simp add: QueryHistory_def Let_def)
  from QueryHistory_spec [OF q] e q show ?thesis by simp
qed

text \<open>A fraction of a second is written after a full stop, which sorts before the Z of a whole second.\<close>

lemma utc_fraction_first:
  assumes "t mod second = 0" and "t < u" and "u div second = t div second"
  shows "utc u < utc t"
proof -
  have "u mod second \<noteq> 0"
    using assms by (metis div_mult_mod_eq less_irrefl)
  then have "nat (u mod second) \<noteq> 0" "nat (u mod second) < 1000000000"
    using pos_mod_bound [of second u] pos_mod_sign [of second u] by auto
  then have "frac_text (nat (u mod second)) \<noteq> ''Z''"
    using frac_text_val [of "nat (u mod second)"] by auto
  then obtain ds where "frac_text (nat (u mod second)) = CHR ''.'' # ds"
    by (auto simp: frac_text_def Let_def split: if_splits)
  with assms frac_text_0 show ?thesis
    by (simp add: less_stamp_def utc_def less_char_def)
qed

text \<open>
  The stored stamps do not sort by time within a second, and a query whose start is a whole second
  misses what was recorded in the rest of that second: the only point of the target, recorded half a
  second after the start and well before the stop, is not returned.
\<close>

theorem QueryHistory_misses_point:
  "QueryHistory False kind val 0 (9 * second) 0 0
     (empty_db\<lparr>location_history := [\<lparr>hr_id = i, hr_target_kind = kind, hr_target_value = val, hr_shape = ''point'',
        hr_latitude = Some 1, hr_longitude = Some 2, hr_uncertainty_meters = None,
        hr_recorded_at = utc 500000000\<rparr>]\<rparr>) = Inr []"
proof -
  have "utc 500000000 < utc 0" by (rule utc_fraction_first) simp_all
  then have "\<not> utc 0 \<le> utc 500000000" by simp
  then show ?thesis by (simp add: QueryHistory_def Let_def)
qed

end
