(* ===== verification/GMLC_Store.thy ===== *)
theory GMLC_Store
  imports GMLC_Outbox
begin

text \<open>
  The store as a state machine: one step for each operation of \<open>storage.Store\<close> as its callers use it,
  in any order and with any database failures.  The invariants of the tables and the life cycles of
  requests and deliveries hold in every reachable database, by rule induction over the steps.
\<close>

section \<open>Steps\<close>

text \<open>
  Every operation, the purge with a cutoff for requests in \<open>C\<close>: a run with \<open>{}\<close> has no purge, one with \<open>UNIV\<close> may
  have any.  \<open>Requeue\<close> and \<open>FailRequest\<close> take the expected state from their caller; the worker passes the
  state it put the request in.
\<close>

inductive store_step :: "time set \<Rightarrow> db \<Rightarrow> db \<Rightarrow> bool" for C where
  upsert_client: "UpsertClient fault now c db = (r, db') \<Longrightarrow> store_step C db db'"
| create: "CreateRequest fault fault2 now rq db = (r, db') \<Longrightarrow> store_step C db db'"
| subscribe: "SetRequestSubscription fault i s db = (r, db') \<Longrightarrow> store_step C db db'"
| transition: "TransitionRequest fault now i to code db = (r, db') \<Longrightarrow> store_step C db db'"
| claim: "ClaimNextQueued fault now db = (r, db') \<Longrightarrow> store_step C db db'"
| locate: "SaveServingNodeAndLocate fault now i n db = (r, db') \<Longrightarrow> store_step C db db'"
| save_node: "SaveServingNode fault i n db = (r, db') \<Longrightarrow> store_step C db db'"
| requeue: "from = StateResolving \<or> from = StateLocating \<Longrightarrow>
    Requeue fault now i from nxt code db = (r, db') \<Longrightarrow> store_step C db db'"
| fail: "from = StateResolving \<or> from = StateLocating \<Longrightarrow>
    FailRequest fault now i from code desc db = (r, db') \<Longrightarrow> store_step C db db'"
| complete: "CompleteRequest fault now i v db = (r, db') \<Longrightarrow> store_step C db db'"
| audit: "RecordAudit fault now e db = (r, db') \<Longrightarrow> store_step C db db'"
| recover: "Recover fault now db = (r, db') \<Longrightarrow> store_step C db db'"
| create_sub: "CreateSubscription fault now uuid c url secret db = (rs, db') \<Longrightarrow> store_step C db db'"
| create_del: "CreateDelivery fault now uuid s p db = (rd, db') \<Longrightarrow> store_step C db db'"
| claim_del: "ClaimNextDelivery fault now db = (rc, db') \<Longrightarrow> store_step C db db'"
| requeue_del: "RequeueDelivery fault now i nxt db = (r, db') \<Longrightarrow> store_step C db db'"
| fail_del: "FailDelivery fault now i rc db = (r, db') \<Longrightarrow> store_step C db db'"
| delivered: "MarkDelivered fault now i rc db = (r, db') \<Longrightarrow> store_step C db db'"
| create_deferred: "CreateDeferredLocationSubscription fault now c kind val ref db = (rf, db') \<Longrightarrow> store_step C db db'"
| reported: "MarkDeferredLocationSubscriptionReported fault now ref db = (r, db') \<Longrightarrow> store_step C db db'"
| report: "CreateLocationReport fault now uuid rep db = (rr, db') \<Longrightarrow> store_step C db db'"
| record_history: "RecordHistory fault uuid kind val v db = (r, db') \<Longrightarrow> store_step C db db'"
| purge: "before \<in> C \<Longrightarrow> Purge fault before rbefore db = (r, db') \<Longrightarrow> store_step C db db'"

text \<open>Everything that can be in the database file.\<close>

inductive reachable :: "db \<Rightarrow> bool" where
  start: "reachable empty_db"
| step: "reachable db \<Longrightarrow> store_step UNIV db db' \<Longrightarrow> reachable db'"

section \<open>What an operation leaves alone\<close>

definition outbox_same :: "db \<Rightarrow> db \<Rightarrow> bool" where
  "outbox_same db db' \<longleftrightarrow> deliveries db' = deliveries db \<and> delivery_subscriptions db' = delivery_subscriptions db"

definition requests_same :: "db \<Rightarrow> db \<Rightarrow> bool" where
  "requests_same db db' \<longleftrightarrow> location_requests db' = location_requests db \<and> location_results db' = location_results db
     \<and> request_serving_nodes db' = request_serving_nodes db \<and> lcs_clients db' = lcs_clients db"

lemma outbox_same_refl [simp]: "outbox_same db db"
  by (simp add: outbox_same_def)

lemma requests_same_refl [simp]: "requests_same db db"
  by (simp add: requests_same_def)

lemma outbox_same_exec:
  "exec fault f db = (r, db') \<Longrightarrow> (f db = (r, db') \<Longrightarrow> outbox_same db db') \<Longrightarrow> outbox_same db db'"
  by (cases fault) simp_all

lemma outbox_same_tx:
  "exec fault (transact f) db = (r, db') \<Longrightarrow> (\<And>x. f db = (Inr x, db') \<Longrightarrow> outbox_same db db') \<Longrightarrow> outbox_same db db'"
  by (cases fault; cases r) (auto simp: transact_Inr dest: transact_Inl)

lemma requests_same_exec:
  "exec fault f db = (r, db') \<Longrightarrow> (f db = (r, db') \<Longrightarrow> requests_same db db') \<Longrightarrow> requests_same db db'"
  by (cases fault) simp_all

lemma requests_same_tx:
  "exec fault (transact f) db = (r, db') \<Longrightarrow> (\<And>x. f db = (Inr x, db') \<Longrightarrow> requests_same db db') \<Longrightarrow> requests_same db db'"
  by (cases fault; cases r) (auto simp: transact_Inr dest: transact_Inl)

lemma update_guarded_outbox: "update_guarded i st f db = (r, db') \<Longrightarrow> outbox_same db db'"
  by (auto simp: update_guarded_def update_requests_def outbox_same_def Let_def split: if_splits)

lemma update_deliveries_requests: "update_deliveries i st f db = (r, db') \<Longrightarrow> requests_same db db'"
  by (auto simp: update_deliveries_def requests_same_def Let_def split: if_splits)

lemma request_frames:
  "UpsertClient fault now c db = (r, db') \<Longrightarrow> outbox_same db db'"
  "CreateRequest fault fault2 now rq db = (rc, db') \<Longrightarrow> outbox_same db db'"
  "SetRequestSubscription fault i s db = (r, db') \<Longrightarrow> outbox_same db db'"
  "SaveServingNode fault i n db = (r, db') \<Longrightarrow> outbox_same db db'"
  "RecordAudit fault now e db = (r, db') \<Longrightarrow> outbox_same db db'"
  "Recover fault now db = (r, db') \<Longrightarrow> outbox_same db db'"
  "Purge fault before rbefore db = (r, db') \<Longrightarrow> outbox_same db db'"
  subgoal unfolding UpsertClient_def
    by (erule outbox_same_tx) (auto simp: Let_def outbox_same_def split: option.splits)
  subgoal unfolding CreateRequest_def
    by (erule outbox_same_exec) (auto simp: Let_def outbox_same_def split: if_splits sum.splits)
  subgoal unfolding SetRequestSubscription_def
    by (erule outbox_same_exec) (auto simp: outbox_same_def update_requests_def)
  subgoal unfolding SaveServingNode_def
    by (erule outbox_same_exec) (auto simp: outbox_same_def split: if_splits)
  subgoal unfolding RecordAudit_def
    by (erule outbox_same_exec) (auto simp: outbox_same_def Let_def)
  subgoal unfolding Recover_def
    by (erule outbox_same_exec) (auto simp: outbox_same_def update_requests_def)
  subgoal unfolding Purge_def
    by (erule outbox_same_exec) (auto simp: outbox_same_def Let_def)
  done

lemma guarded_frames:
  "TransitionRequest fault now i to code db = (rt, db') \<Longrightarrow> outbox_same db db'"
  "ClaimNextQueued fault now db = (rq, db') \<Longrightarrow> outbox_same db db'"
  "SaveServingNodeAndLocate fault now i n db = (r, db') \<Longrightarrow> outbox_same db db'"
  "Requeue fault now i from nxt code db = (r, db') \<Longrightarrow> outbox_same db db'"
  "FailRequest fault now i from code desc db = (r, db') \<Longrightarrow> outbox_same db db'"
  "CompleteRequest fault now i v db = (r, db') \<Longrightarrow> outbox_same db db'"
  subgoal unfolding TransitionRequest_def
    by (erule outbox_same_tx) (auto dest!: update_guarded_outbox split: sum.splits if_splits prod.splits)
  subgoal unfolding ClaimNextQueued_def
    by (erule outbox_same_tx) (auto dest!: update_guarded_outbox split: sum.splits option.splits prod.splits)
  subgoal unfolding SaveServingNodeAndLocate_def
    by (erule outbox_same_tx) (auto dest!: update_guarded_outbox simp: outbox_same_def split: sum.splits prod.splits)
  subgoal unfolding Requeue_def by (erule outbox_same_exec) (rule update_guarded_outbox)
  subgoal unfolding FailRequest_def by (erule outbox_same_exec) (rule update_guarded_outbox)
  subgoal unfolding CompleteRequest_def
    by (erule outbox_same_tx) (auto dest!: update_guarded_outbox simp: outbox_same_def split: sum.splits prod.splits)
  done

lemma outbox_frames:
  "CreateSubscription fault now uuid c url secret db = (rs, db') \<Longrightarrow> requests_same db db'"
  "CreateDelivery fault now uuid s p db = (rd, db') \<Longrightarrow> requests_same db db'"
  "ClaimNextDelivery fault now db = (rc, db') \<Longrightarrow> requests_same db db'"
  "RequeueDelivery fault now i nxt db = (r, db') \<Longrightarrow> requests_same db db'"
  "FailDelivery fault now i code db = (r, db') \<Longrightarrow> requests_same db db'"
  "MarkDelivered fault now i code db = (r, db') \<Longrightarrow> requests_same db db'"
  subgoal unfolding CreateSubscription_def
    by (erule requests_same_exec) (auto simp: Let_def requests_same_def split: if_splits)
  subgoal unfolding CreateDelivery_def
    by (erule requests_same_exec) (auto simp: Let_def requests_same_def split: if_splits)
  subgoal unfolding ClaimNextDelivery_def
    by (erule requests_same_tx) (auto dest!: update_deliveries_requests split: sum.splits option.splits prod.splits)
  subgoal unfolding RequeueDelivery_def by (erule requests_same_exec) (rule update_deliveries_requests)
  subgoal unfolding FailDelivery_def by (erule requests_same_exec) (rule update_deliveries_requests)
  subgoal unfolding MarkDelivered_def by (erule requests_same_exec) (rule update_deliveries_requests)
  done

lemma other_frames:
  "CreateDeferredLocationSubscription fault now c kind val ref db = (rf, db') \<Longrightarrow> requests_same db db' \<and> outbox_same db db'"
  "MarkDeferredLocationSubscriptionReported fault now ref db = (r, db') \<Longrightarrow> requests_same db db' \<and> outbox_same db db'"
  "CreateLocationReport fault now uuid rep db = (rr, db') \<Longrightarrow> requests_same db db' \<and> outbox_same db db'"
  "RecordHistory fault uuid kind val v db = (r, db') \<Longrightarrow> requests_same db db' \<and> outbox_same db db'"
  by (auto simp: CreateDeferredLocationSubscription_def MarkDeferredLocationSubscriptionReported_def
      CreateLocationReport_def RecordHistory_def exec_def requests_same_def outbox_same_def Let_def split: if_splits)

section \<open>The invariant of the store\<close>

definition store_inv :: "db \<Rightarrow> bool" where
  "store_inv db \<longleftrightarrow> requests_inv db \<and> outbox_inv db"

definition store_kept :: "db \<Rightarrow> db \<Rightarrow> bool" where
  "store_kept db db' \<longleftrightarrow> kept db db' \<and> outbox_kept db db'"

lemma requests_same_kept: "requests_same db db' \<Longrightarrow> requests_inv db \<Longrightarrow> kept db db'"
  by (rule kept_frame) (simp_all add: requests_same_def)

lemma outbox_same_kept: "outbox_same db db' \<Longrightarrow> outbox_inv db \<Longrightarrow> outbox_kept db db'"
  by (rule outbox_kept_same) (simp_all add: outbox_same_def)

lemma store_kept_inv: "store_kept db db' \<Longrightarrow> store_inv db'"
  by (simp add: store_kept_def store_inv_def kept_def outbox_kept_def)

text \<open>Without a purge every row is kept; a purge only keeps the invariant and the outbox.\<close>

lemma step_kept: "store_step {} db db' \<Longrightarrow> store_inv db \<Longrightarrow> store_kept db db'"
proof (induction rule: store_step.induct)
qed (auto simp: store_kept_def store_inv_def
    intro: keeps request_frames [THEN outbox_same_kept] guarded_frames [THEN outbox_same_kept]
      outbox_frames [THEN requests_same_kept] CreateSubscription_kept CreateDelivery_kept ClaimNextDelivery_kept
      outbox_kept_deliveries other_frames [THEN conjunct1, THEN requests_same_kept]
      other_frames [THEN conjunct2, THEN outbox_same_kept])

lemma step_cases:
  assumes "store_step C db db'"
  obtains "store_step {} db db'" | fault before rbefore r where "before \<in> C" "Purge fault before rbefore db = (r, db')"
  using assms by cases (blast intro: store_step.intros)+

lemma step_any: "store_step {} db db' \<Longrightarrow> store_step C db db'"
  by (erule store_step.cases) (auto intro: store_step.intros)

lemma step_inv: "store_step C db db' \<Longrightarrow> store_inv db \<Longrightarrow> store_inv db' \<and> outbox_kept db db'"
proof (erule step_cases)
  assume "store_step {} db db'" and "store_inv db"
  from step_kept [OF this] show ?thesis using store_kept_inv by (simp add: store_kept_def)
next
  fix fault before rbefore r
  assume p: "Purge fault before rbefore db = (r, db')" and "store_inv db"
  then show ?thesis
    using Purge_inv [OF p] outbox_same_kept [OF request_frames(7) [OF p]] by (simp add: store_inv_def outbox_kept_def)
qed

lemma run_inv: "(store_step C)\<^sup>*\<^sup>* db db' \<Longrightarrow> store_inv db \<Longrightarrow> store_inv db'"
  by (induction rule: rtranclp_induct) (auto dest: step_inv)

lemma empty_inv: "store_inv empty_db"
  by (simp add: store_inv_def requests_inv_def outbox_inv_def empty_db_def key_unique_def)

text \<open>A row later in a run: the same request, at a state the life cycle can reach from its old one.\<close>

definition row_reaches :: "request_row \<Rightarrow> request_row \<Rightarrow> bool" where
  "row_reaches q q' \<longleftrightarrow> row_id q' = row_id q \<and> client_key q' = client_key q
     \<and> row_service q' = row_service q \<and> row_target_kind q' = row_target_kind q \<and> row_target_value q' = row_target_value q
     \<and> row_created_at q' = row_created_at q \<and> row_location_type q' = row_location_type q
     \<and> row_priority q' = row_priority q \<and> row_qos q' = row_qos q
     \<and> CanTransition\<^sup>*\<^sup>* (row_state q) (row_state q') \<and> row_attempt_count q \<le> row_attempt_count q'"

lemma row_reaches_refl [simp]: "row_reaches q q"
  by (simp add: row_reaches_def)

lemma row_reaches_step: "row_reaches q p \<Longrightarrow> row_evolves p r \<Longrightarrow> row_reaches q r"
  unfolding row_reaches_def row_evolves_def client_key_def
  by (auto intro: rtranclp.rtrancl_into_rtrancl)

text \<open>
  The only way to lose a request: once it has become terminal, a purge whose cutoff its creation time
  precedes, as the stored stamps compare, deletes it.
\<close>

definition retired :: "time set \<Rightarrow> db \<Rightarrow> db \<Rightarrow> request_row \<Rightarrow> bool" where
  "retired C db db' q \<longleftrightarrow> (\<exists>d d' fault rbefore x. \<exists>before \<in> C. \<exists>p \<in> set (location_requests d).
     (store_step C)\<^sup>*\<^sup>* db d \<and> row_reaches q p \<and> Terminal (row_state p) \<and> row_created_at q < utc before
     \<and> Purge fault before rbefore d = (x, d') \<and> p \<notin> set (location_requests d') \<and> (store_step C)\<^sup>*\<^sup>* d' db')"

lemma retired_none [simp]: "\<not> retired {} db db' q"
  by (simp add: retired_def)

lemma retired_old: "retired C db db' q \<Longrightarrow> \<exists>before \<in> C. row_created_at q < utc before"
  by (auto simp: retired_def)

lemma retired_later: "retired C db db1 q \<Longrightarrow> (store_step C)\<^sup>*\<^sup>* db1 db2 \<Longrightarrow> retired C db db2 q"
  unfolding retired_def by (meson rtranclp_trans)

lemma step_row:
  assumes "store_step C db db'" and "store_inv db" and "q \<in> set (location_requests db)"
  shows "(\<exists>q' \<in> set (location_requests db'). row_evolves q q')
    \<or> Terminal (row_state q) \<and> q \<notin> set (location_requests db')
      \<and> (\<exists>before \<in> C. \<exists>fault rbefore x. row_created_at q < utc before \<and> Purge fault before rbefore db = (x, db'))"
  using assms(1)
proof (rule step_cases)
  assume "store_step {} db db'"
  from step_kept [OF this assms(2)] assms(3) show ?thesis
    unfolding store_kept_def kept_def evolution_def by blast
next
  fix fault before rbefore r
  assume b: "before \<in> C" and p: "Purge fault before rbefore db = (r, db')"
  show ?thesis
  proof (cases "q \<in> set (location_requests db')")
    case True
    then show ?thesis using row_evolves_refl by blast
  next
    case False
    with p assms(3) have "purgeable (utc before) q" by (cases fault) (auto simp: Purge_def Let_def)
    then have "Terminal (row_state q) \<and> row_created_at q < utc before" by (auto simp: purgeable_def Terminal_def)
    with False b p show ?thesis by blast
  qed
qed

lemma run_row_or_retired:
  assumes "(store_step C)\<^sup>*\<^sup>* db db'" and "store_inv db" and "q \<in> set (location_requests db)"
  shows "(\<exists>q' \<in> set (location_requests db'). row_reaches q q') \<or> retired C db db' q"
  using assms
proof (induction rule: rtranclp_induct)
  case base
  then show ?case using row_reaches_refl by blast
next
  case (step db1 db2)
  show ?case
  proof (cases "retired C db db1 q")
    case True
    with retired_later step(2) show ?thesis by blast
  next
    case False
    with step obtain p where p: "p \<in> set (location_requests db1)" "row_reaches q p" by blast
    have "store_inv db1" by (rule run_inv [OF step(1,4)])
    from step_row [OF step(2) this p(1)] show ?thesis
    proof
      assume "\<exists>r \<in> set (location_requests db2). row_evolves p r"
      with row_reaches_step [OF p(2)] show ?thesis by blast
    next
      assume *: "Terminal (row_state p) \<and> p \<notin> set (location_requests db2)
        \<and> (\<exists>before \<in> C. \<exists>fault rbefore x. row_created_at p < utc before \<and> Purge fault before rbefore db1 = (x, db2))"
      moreover have "row_created_at p = row_created_at q" using p(2) by (simp add: row_reaches_def)
      ultimately show ?thesis using step(1) p unfolding retired_def by (metis rtranclp.rtrancl_refl)
    qed
  qed
qed

lemma run_row:
  assumes "(store_step {})\<^sup>*\<^sup>* db db'" and "store_inv db" and "q \<in> set (location_requests db)"
  shows "store_inv db' \<and> (\<exists>q' \<in> set (location_requests db'). row_reaches q q')"
  using run_row_or_retired [OF assms] run_inv [OF assms(1,2)] by simp

text \<open>A stored result is never changed or lost without a purge.\<close>

lemma results_same:
  "CreateRequest fault fault2 now rq db = (rc, db') \<Longrightarrow> location_results db' = location_results db"
  "UpsertClient fault now c db = (r, db') \<Longrightarrow> location_results db' = location_results db"
  "SetRequestSubscription fault i s db = (r, db') \<Longrightarrow> location_results db' = location_results db"
  "SaveServingNode fault i n db = (r, db') \<Longrightarrow> location_results db' = location_results db"
  "RecordAudit fault now e db = (r, db') \<Longrightarrow> location_results db' = location_results db"
  "Recover fault now db = (r, db') \<Longrightarrow> location_results db' = location_results db"
  subgoal by (auto simp: CreateRequest_def exec_def Let_def split: if_splits sum.splits)
  subgoal by (cases "\<exists>e. r = Inl e") (auto simp: UpsertClient_def exec_def transact_def Let_def split: if_splits option.splits)
  subgoal by (auto simp: SetRequestSubscription_def exec_def update_requests_def split: if_splits)
  subgoal by (auto simp: SaveServingNode_def exec_def split: if_splits)
  subgoal by (auto simp: RecordAudit_def exec_def Let_def split: if_splits)
  subgoal by (auto simp: Recover_def exec_def update_requests_def split: if_splits)
  done

lemma update_guarded_results: "update_guarded i st f db = (r, db') \<Longrightarrow> location_results db' = location_results db"
  by (auto simp: update_guarded_def update_requests_def Let_def split: if_splits)

lemma results_same_tx:
  "exec fault (transact f) db = (r, db') \<Longrightarrow> (\<And>x. f db = (Inr x, db') \<Longrightarrow> location_results db' = location_results db)
     \<Longrightarrow> location_results db' = location_results db"
  by (cases fault; cases r) (auto simp: transact_Inr dest: transact_Inl)

lemma guarded_results:
  "TransitionRequest fault now i to code db = (rt, db') \<Longrightarrow> location_results db' = location_results db"
  "ClaimNextQueued fault now db = (rq, db') \<Longrightarrow> location_results db' = location_results db"
  "SaveServingNodeAndLocate fault now i n db = (r, db') \<Longrightarrow> location_results db' = location_results db"
  "Requeue fault now i from nxt code db = (r, db') \<Longrightarrow> location_results db' = location_results db"
  "FailRequest fault now i from code desc db = (r, db') \<Longrightarrow> location_results db' = location_results db"
  subgoal unfolding TransitionRequest_def
    by (erule results_same_tx) (auto dest!: update_guarded_results split: sum.splits if_splits prod.splits)
  subgoal unfolding ClaimNextQueued_def
    by (erule results_same_tx) (auto simp: Let_def dest!: update_guarded_results split: option.splits sum.splits if_splits prod.splits)
  subgoal unfolding SaveServingNodeAndLocate_def
    by (erule results_same_tx) (auto dest!: update_guarded_results split: sum.splits if_splits prod.splits)
  subgoal by (auto simp: Requeue_def exec_def dest!: update_guarded_results split: if_splits)
  subgoal by (auto simp: FailRequest_def exec_def dest!: update_guarded_results split: if_splits)
  done

lemma CompleteRequest_results:
  assumes "CompleteRequest fault now i v db = (r, db')" and "requests_inv db"
    and "row_by res_request_id j (location_results db) = Some w"
  shows "row_by res_request_id j (location_results db') = Some w"
proof (cases "\<exists>x. r = Inr x")
  case False
  then obtain e where "r = Inl e" by (cases r) auto
  with assms(1) have "db' = db" by (cases fault) (auto simp: CompleteRequest_def dest: transact_Inl)
  with assms(3) show ?thesis by simp
next
  case True
  with assms(1) obtain db1 where u: "update_guarded i StateLocating (set_completed (utc now)) db = (Inr (), db1)"
    and d: "db' = db1\<lparr>location_results := upsert res_request_id (result_row_of i v) (location_results db1)\<rparr>"
    by (cases fault) (auto simp: CompleteRequest_def transact_Inr split: sum.splits prod.splits)
  obtain p where p: "p \<in> set (location_requests db)" "row_id p = i" "row_state p = StateLocating"
  proof -
    have "filter (guarded i StateLocating) (location_requests db) \<noteq> []"
      using u by (auto simp: update_guarded_def Let_def RowsAffected_def split: if_splits)
    with that show thesis by (auto simp: filter_empty_conv guarded_def)
  qed
  obtain q where q: "q \<in> set (location_requests db)" "row_id q = j" "row_state q = StateCompleted"
    using inv_result [OF assms(2)] row_by_Some [OF assms(3)] by blast
  have "key_unique row_id (location_requests db)" using assms(2) by (simp add: requests_inv_def)
  then have "p = q" if "i = j" using row_by_unique p(1,2) q(1,2) that by (metis option.inject)
  then have "i \<noteq> j" using p(3) q(3) by (cases "i = j") simp_all
  with assms(3) show ?thesis by (simp add: d upsert_row update_guarded_results [OF u] result_row_of_def)
qed

lemma step_result:
  "store_step {} db db' \<Longrightarrow> store_inv db \<Longrightarrow> row_by res_request_id j (location_results db) = Some w \<Longrightarrow>
     row_by res_request_id j (location_results db') = Some w"
proof (induction rule: store_step.induct)
  case complete
  then show ?case using CompleteRequest_results by (simp add: store_inv_def)
qed (auto simp: requests_same_def dest!: results_same guarded_results outbox_frames other_frames)

lemma run_result:
  assumes "(store_step {})\<^sup>*\<^sup>* db db'" and "store_inv db" and "GetResult False i db = Inr v"
  shows "GetResult False i db' = Inr v"
proof -
  from assms(3) obtain w where w: "row_by res_request_id i (location_results db) = Some w"
    by (auto simp: GetResult_def split: option.splits)
  from assms(1,2) w have "row_by res_request_id i (location_results db') = Some w \<and> store_inv db'"
    by (induction rule: rtranclp_induct) (auto dest: step_result step_kept store_kept_inv)
  with assms(3) w show ?thesis by (simp add: GetResult_def)
qed

section \<open>Properties\<close>

text \<open>
  C1: In every database that the operations can reach from the empty one, in any order, with any
  database failures and purges in between: request ids are unique, a client never has two requests
  under one idempotency key, every request belongs to a known client, every stored result belongs to
  a completed request, every serving node to an existing request, and every delivery to an existing
  subscription.
\<close>

theorem reachable_inv:
  assumes "reachable db"
  shows "requests_inv db \<and> outbox_inv db"
  using assms
proof induction
  case start
  then show ?case using empty_inv by (simp add: store_inv_def)
next
  case (step db db')
  then have "store_inv db" by (simp add: store_inv_def)
  from step_inv [OF step(2) this] show ?case by (simp add: store_inv_def)
qed

text \<open>
  A history of the store: a client is configured; its first request is claimed, located and completed, its second
  waits; a callback is registered and a delivery queued; and a purge runs.
\<close>

definition sample_run :: "(db \<Rightarrow> db) list" where
  "sample_run =
     [\<lambda>db. snd (UpsertClient False 1 \<lparr>c_ID = ''c'', c_CredentialHash = [], c_Services = [], c_TargetPrefixes = [],
        c_Enabled = True, c_LCSClientType = 1, c_LCSPrivacyCheck = 0\<rparr> db),
      \<lambda>db. snd (CreateRequest False False 2 (sample_request ''a'') db),
      \<lambda>db. snd (CreateRequest False False 3 (sample_request ''b'') db),
      \<lambda>db. snd (ClaimNextQueued False 5 db),
      \<lambda>db. snd (SaveServingNodeAndLocate False 6 ''a''
        \<lparr>sn_Type = ''mme'', sn_MMEHost = ''m'', sn_MMERealm = ''r'', sn_Source = ''slh'', sn_ResolvedAt = 0\<rparr> db),
      \<lambda>db. snd (CompleteRequest False 13 ''a'' sample_result db),
      \<lambda>db. snd (CreateSubscription False 14 ''s'' ''c'' ''u'' [] db),
      \<lambda>db. snd (CreateDelivery False 15 ''d'' ''s'' [7] db),
      \<lambda>db. snd (Purge False (- second) (- second) db)]"

lemma sample_run_reachable: "reachable (fold (\<lambda>f. f) sample_run empty_db)"
proof -
  have "\<forall>f \<in> set sample_run. \<forall>db. store_step UNIV db (f db)"
    unfolding sample_run_def by (auto intro: store_step.intros prod.collapse [symmetric])
  moreover have "\<forall>f \<in> set fs. \<forall>db. store_step UNIV db (f db) \<Longrightarrow> reachable db \<Longrightarrow> reachable (fold (\<lambda>f. f) fs db)" for fs db
    by (induction fs arbitrary: db) (auto intro: reachable.step)
  ultimately show ?thesis using reachable.start by blast
qed

theorem reachable_inv_witness:
  "\<exists>db. map row_state (location_requests db) = [StateCompleted, StateQueued] \<and> length (location_results db) = 1
     \<and> length (request_serving_nodes db) = 1 \<and> length (deliveries db) = 1 \<and> requests_inv db \<and> outbox_inv db"
proof -
  let ?db = "fold (\<lambda>f. f) sample_run empty_db"
  have "map row_state (location_requests ?db) = [StateCompleted, StateQueued] \<and> length (location_results ?db) = 1
     \<and> length (request_serving_nodes ?db) = 1 \<and> length (deliveries ?db) = 1" by code_simp
  with reachable_inv [OF sample_run_reachable] show ?thesis by (intro exI [of _ ?db] conjI) blast+
qed

text \<open>
  C9: Along any run of store operations, purges included, a request is lost in one way only: a purge deletes it
  that finds it in a terminal state and whose cutoff has a stamp above that of its creation.  Otherwise it stays; its identity, target and
  options never change, its attempts never decrease and its state moves along permitted transitions only; in
  particular a terminal state is final.
\<close>

theorem request_never_lost:
  assumes "(store_step C)\<^sup>*\<^sup>* db db'" and "store_inv db" and "q \<in> set (location_requests db)"
  shows "(\<exists>q' \<in> set (location_requests db'). row_reaches q q' \<and> (Terminal (row_state q) \<longrightarrow> row_state q' = row_state q))
    \<or> retired C db db' q"
proof (cases "retired C db db' q")
  case False
  with run_row_or_retired [OF assms] obtain q' where q': "q' \<in> set (location_requests db')" "row_reaches q q'" by blast
  moreover have "Terminal (row_state q) \<Longrightarrow> row_state q' = row_state q"
    using q'(2) unfolding row_reaches_def by (elim conjE) (rule request_lifecycle.terminal_final)
  ultimately show ?thesis by blast
qed simp

lemma sample_store: "store_inv (sample_db [sample_locating])"
  using sample_locating_inv by (simp add: store_inv_def outbox_inv_def sample_db_def empty_db_def key_unique_def)

lemma purge_keeps: "Purge False 0 0 (sample_db [sample_locating]) = (Inr (), sample_db [sample_locating])"
  by (simp add: Purge_def sample_db_def empty_db_def purgeable_def)

theorem request_never_lost_witness:
  "\<exists>db'. (store_step {0})\<^sup>*\<^sup>* (sample_db [sample_locating]) db' \<and> db' \<noteq> sample_db [sample_locating]
     \<and> (\<exists>q' \<in> set (location_requests db'). row_reaches sample_locating q')"
proof -
  let ?db = "sample_db [sample_locating]"
  obtain db' where r: "Recover False 20 ?db = (Inr (), db')"
    and q: "location_requests db' = [set_recovered (utc 20) sample_locating]"
    by (simp add: Recover_def update_requests_def update_where_def interrupted_def)
  have "store_step {0} ?db ?db"
    by (rule store_step.purge [of 0 _ False 0 _ "Inr ()"]) (simp_all add: purge_keeps)
  with store_step.recover [OF r] have s: "(store_step {0})\<^sup>*\<^sup>* ?db db'" by (meson converse_rtranclp_into_rtranclp r_into_rtranclp)
  have "sample_locating \<in> set (location_requests ?db)" by simp
  moreover have "\<not> retired {0} ?db db' sample_locating"
    using retired_old [of "{0}" ?db db' sample_locating]
    by (auto simp: sample_locating_def sample_row_def insert_row_def sample_request_def)
  ultimately have "\<exists>q' \<in> set (location_requests db'). row_reaches sample_locating q'"
    using request_never_lost [OF s sample_store, of sample_locating] by blast
  moreover have "db' \<noteq> ?db"
  proof
    assume "db' = ?db"
    with q have "set_recovered (utc 20) sample_locating = sample_locating" by simp
    then have "row_state (set_recovered (utc 20) sample_locating) = row_state sample_locating" by (rule arg_cong)
    then show False by (simp add: set_recovered_def)
  qed
  ultimately show ?thesis using s by blast
qed

text \<open>
  Idempotency survives everything the system does: once a request was created, then after any run
  of store operations whose purges do not reach back to its creation a submission under the same client and idempotency key creates
  nothing and returns that same request, whatever became of it.
\<close>

theorem idempotent_across_runs:
  assumes "store_inv db" and "CreateRequest False f now r db = (Inr (r1, True), db1)"
    and "(store_step C)\<^sup>*\<^sup>* db1 db2" and "\<forall>before \<in> C. \<not> utc now < utc before"
    and "rq_ClientID r2 = rq_ClientID r" and "rq_IdempotencyKey r2 = rq_IdempotencyKey r"
  shows "\<exists>old. CreateRequest False False later r2 db2 = (Inr (old, False), db2)
    \<and> rq_ID old = rq_ID r \<and> rq_TargetKind old = rq_TargetKind r \<and> rq_TargetValue old = rq_TargetValue r
    \<and> CanTransition\<^sup>*\<^sup>* (rq_State r) (rq_State old)"
proof -
  define q where "q = insert_row now (r\<lparr>rq_CreatedAt := now, rq_UpdatedAt := now\<rparr>)"
  from assms(2) have "q \<in> set (location_requests db1)"
    by (auto simp: CreateRequest_def Let_def q_def split: if_splits sum.splits)
  moreover have i1: "store_inv db1"
    using step_inv [OF store_step.create [OF assms(2)] assms(1)] by simp
  moreover have "\<not> retired C db1 db2 q" using retired_old [of C db1 db2 q] assms(4) by (auto simp: q_def insert_row_def)
  ultimately obtain q' where q': "q' \<in> set (location_requests db2)" "row_reaches q q'" "requests_inv db2"
    using run_row_or_retired [OF assms(3) i1] run_inv [OF assms(3) i1] by (auto simp: store_inv_def)
  then have "CreateRequest False False later r2 db2 = (Inr (request_of_row q', False), db2)"
    using assms(5,6)
    by (intro CreateRequest_existing) (auto simp: row_reaches_def client_key_def q_def insert_row_def)
  with q'(2) show ?thesis
    by (auto simp: row_reaches_def request_of_row_def q_def insert_row_def)
qed

theorem idempotent_across_runs_witness:
  "\<exists>r1 db1 old. CreateRequest False False 7 (sample_request ''a'') (sample_db []) = (Inr (r1, True), db1)
     \<and> CreateRequest False False 9 ((sample_request ''z'')\<lparr>rq_IdempotencyKey := ''a''\<rparr>) db1 = (Inr (old, False), db1)
     \<and> rq_ID old = ''a''"
proof -
  obtain r1 db1 where c: "CreateRequest False False 7 (sample_request ''a'') (sample_db []) = (Inr (r1, True), db1)"
    by (simp add: CreateRequest_def Let_def insert_violates_def sample_defs insert_row_def row_by_def)
  have "store_inv (sample_db [])"
    by (simp add: store_inv_def requests_inv_def outbox_inv_def sample_db_def empty_db_def key_unique_def)
  from idempotent_across_runs [where C = "{}", OF this c rtranclp.rtrancl_refl, of "(sample_request ''z'')\<lparr>rq_IdempotencyKey := ''a''\<rparr>" 9]
  have "\<exists>old. CreateRequest False False 9 ((sample_request ''z'')\<lparr>rq_IdempotencyKey := ''a''\<rparr>) db1 = (Inr (old, False), db1)
     \<and> rq_ID old = ''a''"
    by (auto simp: sample_request_def)
  with c show ?thesis by blast
qed

lemma run_delivery:
  assumes "(store_step C)\<^sup>*\<^sup>* db db'" and "store_inv db" and "r \<in> set (deliveries db)"
  shows "store_inv db' \<and> (\<exists>r' \<in> set (deliveries db'). del_id r' = del_id r \<and> del_payload r' = del_payload r
    \<and> del_subscription_id r' = del_subscription_id r \<and> delivery_can\<^sup>*\<^sup>* (del_state r) (del_state r'))"
  using assms
proof (induction rule: rtranclp_induct)
  case (step db1 db2)
  then obtain p where p: "store_inv db1" "p \<in> set (deliveries db1)" "del_id p = del_id r"
    "del_payload p = del_payload r" "del_subscription_id p = del_subscription_id r"
    "delivery_can\<^sup>*\<^sup>* (del_state r) (del_state p)" by blast
  from step_inv [OF step(2) p(1)] have k: "store_inv db2" "outbox_kept db1 db2" by simp_all
  with p(2) obtain q where q: "q \<in> set (deliveries db2)" "del_evolves p q"
    unfolding outbox_kept_def by blast
  moreover from q(2) p(6) have "delivery_can\<^sup>*\<^sup>* (del_state r) (del_state q)"
    unfolding del_evolves_def by (auto intro: rtranclp.rtrancl_into_rtrancl)
  ultimately show ?case using p k by (auto simp: del_evolves_def intro!: bexI [of _ q])
qed auto

text \<open>
  Along any run of store operations a delivery keeps its payload and its subscription, and once it
  was delivered or failed it stays so: a payload that was acknowledged is never sent again.
\<close>

theorem delivery_final:
  assumes "(store_step C)\<^sup>*\<^sup>* db db'" and "store_inv db" and "r \<in> set (deliveries db)"
    and "del_state r = DeliveryDelivered \<or> del_state r = DeliveryFailed"
  shows "\<exists>r' \<in> set (deliveries db'). del_id r' = del_id r \<and> del_payload r' = del_payload r
    \<and> del_subscription_id r' = del_subscription_id r \<and> del_state r' = del_state r
    \<and> (\<forall>t. \<not> due_delivery t r')"
proof -
  from run_delivery [OF assms(1-3)] obtain r' where r': "r' \<in> set (deliveries db')" "del_id r' = del_id r"
    "del_payload r' = del_payload r" "del_subscription_id r' = del_subscription_id r"
    "delivery_can\<^sup>*\<^sup>* (del_state r) (del_state r')" by blast
  from delivery_lifecycle.terminal_final [OF r'(5) assms(4)] have "del_state r' = del_state r" .
  with r' assms(4) show ?thesis by (auto simp: due_delivery_def intro!: bexI [of _ r'])
qed

theorem delivery_final_witness:
  "\<exists>db'. MarkDelivered False 9 ''x'' 200 (sample_outbox\<lparr>deliveries := [(sample_delivery ''x'')\<lparr>del_state := DeliveryDelivered\<rparr>]\<rparr>)
       = (Inl ErrConflict, db')
     \<and> (\<exists>r' \<in> set (deliveries db'). del_id r' = ''x'' \<and> del_state r' = DeliveryDelivered)"
proof -
  let ?r = "(sample_delivery ''x'')\<lparr>del_state := DeliveryDelivered\<rparr>"
  let ?db = "sample_outbox\<lparr>deliveries := [?r]\<rparr>"
  have i: "store_inv ?db"
    by (simp add: store_inv_def requests_inv_def outbox_inv_def sample_outbox_def sample_delivery_def empty_db_def key_unique_def)
  then have o: "outbox_inv ?db" by (simp add: store_inv_def)
  have m: "MarkDelivered False 9 ''x'' 200 ?db = (Inl ErrConflict, ?db)"
    using set_delivered.guarded_ok [OF o, of "''x''" 200 "utc 9"]
    by (simp add: MarkDelivered_def row_by_def sample_delivery_def)
  have s: "(store_step {})\<^sup>*\<^sup>* ?db ?db" using store_step.delivered [OF m] by blast
  have "?r \<in> set (deliveries ?db)" by simp
  from delivery_final [OF s i this] have "\<exists>r' \<in> set (deliveries ?db). del_id r' = ''x'' \<and> del_state r' = DeliveryDelivered"
    by (simp add: sample_delivery_def)
  with m show ?thesis by blast
qed

text \<open>
  Recovery after a restart does not look at the outbox: a delivery that was in flight when the
  process stopped is still in flight afterwards, and no claim at any time will pick it up again.
\<close>

theorem Recover_strands_delivery:
  assumes "r \<in> set (deliveries db)" and "del_state r = DeliveryInFlight" and "Recover fault now db = (x, db')"
  shows "r \<in> set (deliveries db') \<and> (\<forall>t. \<not> due_delivery t r)"
  using assms request_frames(6) [OF assms(3)] by (auto simp: outbox_same_def due_delivery_def)

theorem Recover_strands_delivery_witness:
  "\<exists>db'. Recover False 9 (sample_outbox\<lparr>deliveries := [(sample_delivery ''x'')\<lparr>del_state := DeliveryInFlight\<rparr>]\<rparr>)
       = (Inr (), db') \<and> (sample_delivery ''x'')\<lparr>del_state := DeliveryInFlight\<rparr> \<in> set (deliveries db')"
proof -
  obtain db' where r: "Recover False 9 (sample_outbox\<lparr>deliveries := [(sample_delivery ''x'')\<lparr>del_state := DeliveryInFlight\<rparr>]\<rparr>)
       = (Inr (), db')"
    by (simp add: Recover_def)
  from Recover_strands_delivery [OF _ _ this, of "(sample_delivery ''x'')\<lparr>del_state := DeliveryInFlight\<rparr>"] r
  show ?thesis by simp
qed

end
