(* ===== verification/GMLC_Auth.thy ===== *)
theory GMLC_Auth
  imports GMLC_Store
begin

text \<open>
  The environment of a client of the store, and \<open>internal/auth/auth.go\<close>.  Other goroutines use the
  store between two operations of a request handler or a worker: the environment says what they do
  before the k-th operation (\<open>e_gap\<close>), whether that operation fails (\<open>e_fault\<close>), what the clock reads
  (\<open>e_now\<close>) and which identifier \<open>uuid.NewString\<close> returns (\<open>e_uuid\<close>).  SHA-256 is an argument.
\<close>

section \<open>Clients of the store\<close>

record env =
  e_gap :: "nat \<Rightarrow> db \<Rightarrow> db"
  e_fault :: "nat \<Rightarrow> bool"
  e_now :: "nat \<Rightarrow> time"
  e_uuid :: "nat \<Rightarrow> string"

text \<open>
  What the other goroutines do is itself a run of store operations, whose purges have their cutoffs in \<open>C\<close>;
  \<open>env_ok\<close> leaves the purges out.
\<close>

definition env_within :: "time set \<Rightarrow> env \<Rightarrow> bool" where
  "env_within C E \<longleftrightarrow> (\<forall>k db. (store_step C)\<^sup>*\<^sup>* db (e_gap E k db))"

abbreviation env_ok :: "env \<Rightarrow> bool" where
  "env_ok E \<equiv> env_within {} E"

definition alone :: "env \<Rightarrow> bool" where
  "alone E \<longleftrightarrow> (\<forall>k db. e_gap E k db = db)"

lemma alone_ok: "alone E \<Longrightarrow> env_within C E"
  by (simp add: alone_def env_within_def)

lemma alone_gap [simp]: "alone E \<Longrightarrow> e_gap E k db = db"
  by (simp add: alone_def)

text \<open>
  A program over the store: whatever it does, next to goroutines whose purges have their cutoffs in \<open>C\<close>, is a run
  of store operations.  The handlers and workers interpret this interface, and inherit from it that
  they keep the invariants, never lose a request that is not purged and never leave a terminal state.
\<close>

locale store_program =
  fixes prog :: "'i \<Rightarrow> db \<Rightarrow> db" and ok :: "time set \<Rightarrow> 'i \<Rightarrow> bool"
  assumes runs: "ok C x \<Longrightarrow> (store_step C)\<^sup>*\<^sup>* db (prog x db)"
begin

lemma inv_kept: "ok C x \<Longrightarrow> store_inv db \<Longrightarrow> store_inv (prog x db)"
  by (rule run_inv [OF runs])

lemma row_kept:
  "ok C x \<Longrightarrow> store_inv db \<Longrightarrow> q \<in> set (location_requests db) \<Longrightarrow>
     (\<exists>q' \<in> set (location_requests (prog x db)). row_reaches q q') \<or> retired C db (prog x db) q"
  by (rule run_row_or_retired [OF runs])

lemma terminal_kept:
  assumes "ok C x" and "store_inv db" and "q \<in> set (location_requests db)" and "Terminal (row_state q)"
    and "\<forall>before \<in> C. \<not> row_created_at q < utc before"
  shows "\<exists>q' \<in> set (location_requests (prog x db)). row_id q' = row_id q \<and> row_state q' = row_state q"
proof -
  from row_kept [OF assms(1-3)] retired_old assms(5) obtain q' where
    q': "q' \<in> set (location_requests (prog x db))" "row_reaches q q'" by blast
  then have "row_id q' = row_id q" "CanTransition\<^sup>*\<^sup>* (row_state q) (row_state q')"
    unfolding row_reaches_def by blast+
  with request_lifecycle.terminal_final assms(4) q'(1) show ?thesis by blast
qed

end

section \<open>Authentication\<close>

datatype auth_error = ErrUnauthenticated | ErrForbidden

definition byte_string :: "string \<Rightarrow> bytes" where
  "byte_string s = map of_char s"

definition HashToken :: "(bytes \<Rightarrow> bytes) \<Rightarrow> string \<Rightarrow> bytes" where
  "HashToken sha256 token = sha256 (byte_string token)"

definition dummyCredentialHash :: "(bytes \<Rightarrow> bytes) \<Rightarrow> bytes" where
  "dummyCredentialHash sha256 = HashToken sha256 ''constant-time-comparison-placeholder''"

text \<open>\<open>subtle.ConstantTimeCompare\<close> is 1 exactly when both slices have the same length and contents.\<close>

definition ConstantTimeCompare :: "bytes \<Rightarrow> bytes \<Rightarrow> int" where
  "ConstantTimeCompare x y =
     (if length x \<noteq> length y then 0
      else if foldl (\<lambda>v (a, b). v OR (a XOR b)) 0 (zip x y) = (0 :: u8) then 1 else 0)"

definition Authenticate ::
  "(bytes \<Rightarrow> bytes) \<Rightarrow> env \<Rightarrow> nat \<Rightarrow> string \<Rightarrow> string \<Rightarrow> db \<Rightarrow> (auth_error + client) \<times> db" where
  "Authenticate sha256 E k clientID token db =
     (let db = e_gap E k db;
          got = GetClientCredential (e_fault E k) clientID db;
          valid = (case got of Inl e \<Rightarrow> False | Inr c \<Rightarrow> c_Enabled c);
          hash = (case got of Inl e \<Rightarrow> dummyCredentialHash sha256
                  | Inr c \<Rightarrow> if valid then c_CredentialHash c else dummyCredentialHash sha256);
          mtch = (ConstantTimeCompare hash (HashToken sha256 token) = 1)
      in if \<not> valid \<or> \<not> mtch then (Inl ErrUnauthenticated, db)
         else
           (let db = e_gap E (k + 1) db in
            case (GetClientAuthzData (e_fault E (k + 1)) clientID db, got) of
              (Inr (svcs, prefs), Inr c) \<Rightarrow>
                (Inr (c\<lparr>c_Services := svcs, c_TargetPrefixes := prefs\<rparr>), db)
            | _ \<Rightarrow> (Inl ErrUnauthenticated, db)))"

definition Authorize :: "client \<Rightarrow> string \<Rightarrow> target \<Rightarrow> auth_error option" where
  "Authorize c service t =
     (if service \<notin> set (c_Services c) then Some ErrForbidden
      else if \<exists>p \<in> set (c_TargetPrefixes c). prefix p (Value t) then None
      else Some ErrForbidden)"

section \<open>Facts\<close>

lemma xor_eq_0: "(a XOR b :: u8) = 0 \<longleftrightarrow> a = b"
  by (auto simp: bit_eq_iff bit_simps)

lemma or_fold_zero: "foldl (\<lambda>v (a, b). v OR (a XOR b)) w ps = (0 :: u8) \<longleftrightarrow> w = 0 \<and> (\<forall>(a, b) \<in> set ps. a = b)"
  by (induction ps arbitrary: w) (auto simp: or_eq_0_iff xor_eq_0)

lemma ConstantTimeCompare_eq: "ConstantTimeCompare x y = 1 \<longleftrightarrow> x = y"
proof -
  have "length x = length y \<Longrightarrow> (\<forall>(a, b) \<in> set (zip x y). a = b) \<longleftrightarrow> x = y"
    by (auto simp: list_eq_iff_nth_eq set_zip)
  then show ?thesis by (auto simp: ConstantTimeCompare_def or_fold_zero)
qed

lemma Authenticate_db: "snd (Authenticate sha256 E k cid token db) \<in> {e_gap E k db, e_gap E (k + 1) (e_gap E k db)}"
  by (auto simp: Authenticate_def Let_def split: sum.splits prod.splits)

lemma Authenticate_alone: "alone E \<Longrightarrow> snd (Authenticate sha256 E k cid token db) = db"
  using Authenticate_db [of sha256 E k cid token db] by simp

lemma Authenticate_runs: "env_within C E \<Longrightarrow> (store_step C)\<^sup>*\<^sup>* db (snd (Authenticate sha256 E k cid token db))"
  using Authenticate_db [of sha256 E k cid token db] by (auto simp: env_within_def) (metis rtranclp_trans)

lemma Authenticate_Inr:
  assumes "Authenticate sha256 E k clientID token db = (Inr c, db')"
  shows "(\<exists>r \<in> set (lcs_clients (e_gap E k db)). cl_id r = clientID \<and> cl_enabled r = 1
          \<and> cl_credential_hash r = HashToken sha256 token \<and> c_ID c = clientID
          \<and> c_LCSClientType c = cl_lcs_client_type r \<and> c_LCSPrivacyCheck c = cl_lcs_privacy_check r)
        \<and> c_Services c = map snd (filter (\<lambda>p. fst p = clientID) (client_services db'))
        \<and> c_TargetPrefixes c = map snd (filter (\<lambda>p. fst p = clientID) (client_target_prefixes db'))"
proof -
  from assms obtain c0 where c0: "GetClientCredential (e_fault E k) clientID (e_gap E k db) = Inr c0" "c_Enabled c0"
    "c_CredentialHash c0 = HashToken sha256 token" "db' = e_gap E (k + 1) (e_gap E k db)"
    and c: "c = c0\<lparr>c_Services := map snd (filter (\<lambda>p. fst p = clientID) (client_services db')),
        c_TargetPrefixes := map snd (filter (\<lambda>p. fst p = clientID) (client_target_prefixes db'))\<rparr>"
    by (auto simp: Authenticate_def Let_def ConstantTimeCompare_eq GetClientAuthzData_def
        split: sum.splits prod.splits if_splits)
  from c0(1) obtain r where r: "row_by cl_id clientID (lcs_clients (e_gap E k db)) = Some r"
    and c0': "c_ID c0 = cl_id r" "c_CredentialHash c0 = cl_credential_hash r" "c_Enabled c0 = (cl_enabled r = 1)"
    "c_LCSClientType c0 = cl_lcs_client_type r" "c_LCSPrivacyCheck c0 = cl_lcs_privacy_check r"
    by (auto simp: GetClientCredential_def split: if_splits option.splits)
  from row_by_Some [OF r] c0 c0' show ?thesis by (auto simp: c intro!: bexI [of _ r])
qed

section \<open>Properties\<close>

text \<open>
  Authentication succeeds only for a stored, enabled client whose stored hash is the SHA-256 of
  the presented token, and then returns that client with exactly the services and target prefixes
  stored for it; an unknown or disabled client, a wrong token or a database failure all give the same
  error.
\<close>

theorem Authenticate_sound:
  assumes "Authenticate sha256 E k clientID token db = (res, db')"
  shows "case res of
      Inl e \<Rightarrow> e = ErrUnauthenticated
    | Inr c \<Rightarrow> (\<exists>r \<in> set (lcs_clients (e_gap E k db)). cl_id r = clientID \<and> cl_enabled r = 1
          \<and> cl_credential_hash r = HashToken sha256 token \<and> c_ID c = clientID
          \<and> c_LCSClientType c = cl_lcs_client_type r \<and> c_LCSPrivacyCheck c = cl_lcs_privacy_check r)
        \<and> c_Services c = map snd (filter (\<lambda>p. fst p = clientID) (client_services db'))
        \<and> c_TargetPrefixes c = map snd (filter (\<lambda>p. fst p = clientID) (client_target_prefixes db'))"
proof (cases res)
  case (Inl e)
  with assms show ?thesis
    by (auto simp: Authenticate_def Let_def split: sum.splits prod.splits if_splits)
next
  case (Inr c)
  with Authenticate_Inr assms show ?thesis by simp
qed

definition calm :: "time \<Rightarrow> env" where
  "calm t = \<lparr>e_gap = (\<lambda>_ db. db), e_fault = (\<lambda>_. False), e_now = (\<lambda>_. t), e_uuid = (\<lambda>k. fixed_digits 1 k)\<rparr>"

lemma calm_alone [simp]: "alone (calm t)"
  by (simp add: alone_def calm_def)

text \<open>A client that may use the immediate service for targets that start with 1; its token is ''t''.\<close>

definition sample_clients :: db where
  "sample_clients = (sample_db [])\<lparr>lcs_clients := [sample_client\<lparr>cl_credential_hash := byte_string ''t''\<rparr>],
     client_services := [(''c'', ServiceImmediate)], client_target_prefixes := [(''c'', ''1'')]\<rparr>"

lemma sample_clients_inv: "store_inv sample_clients"
  by (simp add: store_inv_def requests_inv_def outbox_inv_def sample_clients_def sample_db_def empty_db_def key_unique_def)

lemma sample_authenticate:
  "Authenticate (\<lambda>x. x) (calm 5) k ''c'' ''t'' sample_clients =
     (Inr \<lparr>c_ID = ''c'', c_CredentialHash = byte_string ''t'', c_Services = [ServiceImmediate],
        c_TargetPrefixes = [''1''], c_Enabled = True, c_LCSClientType = 1, c_LCSPrivacyCheck = 0\<rparr>, sample_clients)"
  by (simp add: Authenticate_def Let_def calm_def sample_clients_def sample_db_def sample_client_def GetClientCredential_def
      GetClientAuthzData_def row_by_def HashToken_def ConstantTimeCompare_eq)

theorem Authenticate_sound_witness:
  "\<exists>c. Authenticate (\<lambda>x. x) (calm 5) 0 ''c'' ''t'' sample_clients = (Inr c, sample_clients)
     \<and> c_Services c = map snd (filter (\<lambda>p. fst p = ''c'') (client_services sample_clients))"
  using Authenticate_sound [OF sample_authenticate] sample_authenticate by simp

text \<open>
  Authorisation passes exactly when the service is granted to the client and some granted prefix
  is a prefix of the identity the request is about; an empty granted prefix opens every target.
\<close>

theorem Authorize_spec:
  "Authorize c service t = None \<longleftrightarrow>
     service \<in> set (c_Services c) \<and> (\<exists>p \<in> set (c_TargetPrefixes c). \<exists>rest. Value t = p @ rest)"
  by (auto simp: Authorize_def prefix_def)

end
