(* ===== verification/GMLC_Service.thy ===== *)
theory GMLC_Service
  imports GMLC_Auth
begin

text \<open>
  \<open>internal/service/service.go\<close>: validation, authentication and authorisation of a submission, its
  creation and callback registration, batches, and the read and cancel operations.  The URL parser and
  the secret encryptor are fields of the service; the two hooks are recorded in the order they fire.
\<close>

section \<open>The service\<close>

record service =
  sv_sha256 :: "bytes \<Rightarrow> bytes"
  sv_parse_url :: "string \<Rightarrow> (string \<times> string) option"
  sv_encryptSecret :: "(bytes \<Rightarrow> bytes option) option"
  sv_onQueued :: bool
  sv_onCancel :: bool

definition service_New :: "(bytes \<Rightarrow> bytes) \<Rightarrow> (string \<Rightarrow> (string \<times> string) option) \<Rightarrow> service" where
  "service_New sha256 parse_url = \<lparr>sv_sha256 = sha256, sv_parse_url = parse_url, sv_encryptSecret = None,
     sv_onQueued = False, sv_onCancel = False\<rparr>"

definition SetQueuedHook :: "service \<Rightarrow> service" where
  "SetQueuedHook s = s\<lparr>sv_onQueued := True\<rparr>"

definition SetCancelHook :: "service \<Rightarrow> service" where
  "SetCancelHook s = s\<lparr>sv_onCancel := True\<rparr>"

definition SetSecretEncryptor :: "(bytes \<Rightarrow> bytes option) \<Rightarrow> service \<Rightarrow> service" where
  "SetSecretEncryptor fn s = s\<lparr>sv_encryptSecret := Some fn\<rparr>"

datatype hook = QueuedHook | CancelHook string

datatype service_error =
    ErrTarget target_error | ErrIdempotencyRequired | ErrUnsupportedService | ErrInvalidLocationType
  | ErrCallbackRequiresSecret | ErrDeliveryNotConfigured | ErrInvalidCallbackURL | ErrEmptyBatch
  | ErrAuth auth_error | ErrEncrypt | ErrStore store_error

record submit_input =
  in_ClientID :: string
  in_Token :: string
  in_IdempotencyKey :: string
  in_Target :: target
  in_Service :: string
  in_LocationType :: u32
  in_Priority :: "u32 option"
  in_QoS :: "qos_request option"
  in_CallbackURL :: string
  in_CallbackSecret :: string

record batch_input =
  bi_ClientID :: string
  bi_Token :: string
  bi_IdempotencyKey :: string
  bi_Targets :: "target list"
  bi_Service :: string
  bi_LocationType :: u32
  bi_Priority :: "u32 option"
  bi_QoS :: "qos_request option"
  bi_CallbackURL :: string
  bi_CallbackSecret :: string

definition prepare ::
  "service \<Rightarrow> env \<Rightarrow> nat \<Rightarrow> string \<Rightarrow> string \<Rightarrow> string \<Rightarrow> string \<Rightarrow> u32 \<Rightarrow> db \<Rightarrow> (service_error + client \<times> string) \<times> db" where
  "prepare s E k clientID token idempotencyKey svc locationType db =
     (if svc \<noteq> [] \<and> svc \<noteq> ServiceImmediate then (Inl ErrUnsupportedService, db)
      else if locationType \<noteq> LocationCurrent \<and> locationType \<noteq> LocationCurrentOrLastKnown
      then (Inl ErrInvalidLocationType, db)
      else if TrimSpace idempotencyKey = [] \<or> length idempotencyKey > 255 then (Inl ErrIdempotencyRequired, db)
      else case Authenticate (sv_sha256 s) E k clientID token db of
        (Inl e, db) \<Rightarrow> (Inl (ErrAuth e), db)
      | (Inr c, db) \<Rightarrow> (Inr (c, ServiceImmediate), db))"

definition validateCallback :: "service \<Rightarrow> string \<Rightarrow> string \<Rightarrow> service_error option" where
  "validateCallback s url secret =
     (if url = [] \<and> secret = [] then None
      else if url = [] \<or> secret = [] then Some ErrCallbackRequiresSecret
      else case sv_parse_url s url of
        None \<Rightarrow> Some ErrInvalidCallbackURL
      | Some (scheme, host) \<Rightarrow>
          (if (scheme \<noteq> ''http'' \<and> scheme \<noteq> ''https'') \<or> host = [] then Some ErrInvalidCallbackURL
           else if sv_encryptSecret s = None then Some ErrDeliveryNotConfigured
           else None))"

definition registerCallback ::
  "service \<Rightarrow> env \<Rightarrow> nat \<Rightarrow> string \<Rightarrow> string \<Rightarrow> string \<Rightarrow> db \<Rightarrow> (service_error + string) \<times> db" where
  "registerCallback s E k clientID url secret db =
     (case Option.bind (sv_encryptSecret s) (\<lambda>enc. enc (byte_string secret)) of
        None \<Rightarrow> (Inl ErrEncrypt, db)
      | Some ciphertext \<Rightarrow>
          (case CreateSubscription (e_fault E k) (e_now E k) (e_uuid E k) clientID url ciphertext (e_gap E k db) of
             (Inl e, db) \<Rightarrow> (Inl (ErrStore e), db)
           | (Inr sub, db) \<Rightarrow> (Inr (s_ID sub), db)))"

text \<open>
  The callback part of a submission: only for a new request with a callback URL.  \<open>subID\<close> is the
  subscription a batch has already registered, or empty.
\<close>

definition attach_callback ::
  "service \<Rightarrow> env \<Rightarrow> nat \<Rightarrow> string \<Rightarrow> bool \<Rightarrow> string \<Rightarrow> string \<Rightarrow> string \<Rightarrow> request \<Rightarrow> db
     \<Rightarrow> (service_error + request \<times> string) \<times> db" where
  "attach_callback s E k clientID created url secret subID r db =
     (if created \<and> url \<noteq> [] then
        (case (if subID = [] then registerCallback s E k clientID url secret db else (Inr subID, db)) of
           (Inl e, db) \<Rightarrow> (Inl e, db)
         | (Inr subID, db) \<Rightarrow>
             (case SetRequestSubscription (e_fault E (k + 1)) (rq_ID r) subID (e_gap E (k + 1) db) of
                (Inl e, db) \<Rightarrow> (Inl (ErrStore e), db)
              | (Inr _, db) \<Rightarrow> (Inr (r\<lparr>rq_SubscriptionID := Some subID\<rparr>, subID), db)))
      else (Inr (r, subID), db))"

definition new_request ::
  "string \<Rightarrow> client \<Rightarrow> string \<Rightarrow> string \<Rightarrow> target \<Rightarrow> u32 \<Rightarrow> u32 option \<Rightarrow> qos_request option \<Rightarrow> request" where
  "new_request uuid c key svc t locationType priority qos =
     \<lparr>rq_ID = uuid, rq_ClientID = c_ID c, rq_TargetKind = Kind t, rq_TargetValue = Value t,
      rq_IdempotencyKey = key, rq_Service = svc, rq_State = StateQueued, rq_FailureCode = [],
      rq_CreatedAt = 0, rq_UpdatedAt = 0, rq_AttemptCount = 0, rq_NextAttemptAt = None,
      rq_LocationType = locationType, rq_Priority = priority, rq_QoS = qos, rq_SubscriptionID = None\<rparr>"

text \<open>Create, attach the callback, audit: the store operations of one target, numbered from \<open>k\<close> on.\<close>

definition submit_one ::
  "service \<Rightarrow> env \<Rightarrow> nat \<Rightarrow> client \<Rightarrow> string \<Rightarrow> string \<Rightarrow> string \<Rightarrow> string \<Rightarrow> request \<Rightarrow> db
     \<Rightarrow> (service_error + request \<times> bool \<times> string) \<times> db \<times> hook list" where
  "submit_one s E k c url secret subID detail r db =
     (case CreateRequest (e_fault E k) (e_fault E (k + 1)) (e_now E k) r (e_gap E k db) of
        (Inl e, db) \<Rightarrow> (Inl (ErrStore e), db, [])
      | (Inr (r, created), db) \<Rightarrow>
          (case attach_callback s E (k + 2) (c_ID c) created url secret subID r db of
             (Inl e, db) \<Rightarrow> (Inl e, db, [])
           | (Inr (r, subID), db) \<Rightarrow>
               (let ev = \<lparr>ev_RequestID = rq_ID r, ev_ClientID = c_ID c,
                      ev_Type = (if created then ''request_accepted'' else ''request_idempotent''),
                      ev_Detail = detail, ev_At = None\<rparr>;
                    db = snd (RecordAudit (e_fault E (k + 4)) (e_now E (k + 4)) ev (e_gap E (k + 4) db))
                in (Inr (r, created, subID), db, if created \<and> sv_onQueued s then [QueuedHook] else []))))"

definition Submit ::
  "service \<Rightarrow> env \<Rightarrow> submit_input \<Rightarrow> db \<Rightarrow> (service_error + request \<times> bool) \<times> db \<times> hook list" where
  "Submit s E inp db =
     (case Validate (in_Target inp) of
        Some e \<Rightarrow> (Inl (ErrTarget e), db, [])
      | None \<Rightarrow>
     (case validateCallback s (in_CallbackURL inp) (in_CallbackSecret inp) of
        Some e \<Rightarrow> (Inl e, db, [])
      | None \<Rightarrow>
     (case prepare s E 0 (in_ClientID inp) (in_Token inp) (in_IdempotencyKey inp) (in_Service inp) (in_LocationType inp) db of
        (Inl e, db) \<Rightarrow> (Inl e, db, [])
      | (Inr (c, svc), db) \<Rightarrow>
     (case Authorize c svc (in_Target inp) of
        Some e \<Rightarrow> (Inl (ErrAuth e), db, [])
      | None \<Rightarrow>
     (case submit_one s E 2 c (in_CallbackURL inp) (in_CallbackSecret inp) [] ''immediate location request''
             (new_request (e_uuid E 2) c (in_IdempotencyKey inp) svc (in_Target inp) (in_LocationType inp)
                (in_Priority inp) (in_QoS inp)) db of
        (Inl e, db, hs) \<Rightarrow> (Inl e, db, hs)
      | (Inr (r, created, _), db, hs) \<Rightarrow> (Inr (r, created), db, hs))))))"

definition batch_key :: "string \<Rightarrow> nat \<Rightarrow> string" where
  "batch_key key i = key @ ''#'' @ show_nat i"

text \<open>The loop over the targets of a batch, from target \<open>i\<close> on; an error stops it and keeps what was done.\<close>

fun batch_loop ::
  "service \<Rightarrow> env \<Rightarrow> client \<Rightarrow> string \<Rightarrow> batch_input \<Rightarrow> nat \<Rightarrow> string \<Rightarrow> target list \<Rightarrow> db
     \<Rightarrow> (service_error option \<times> (request \<times> bool) list) \<times> db \<times> hook list" where
  "batch_loop s E c svc inp i subID [] db = ((None, []), db, [])"
| "batch_loop s E c svc inp i subID (t # ts) db =
     (case submit_one s E (2 + 5 * i) c (bi_CallbackURL inp) (bi_CallbackSecret inp) subID
             ''immediate location request (batch)''
             (new_request (e_uuid E (2 + 5 * i)) c (batch_key (bi_IdempotencyKey inp) i) svc t (bi_LocationType inp)
                (bi_Priority inp) (bi_QoS inp)) db of
        (Inl e, db, hs) \<Rightarrow> ((Some e, []), db, hs)
      | (Inr (r, created, subID), db, hs) \<Rightarrow>
          (case batch_loop s E c svc inp (i + 1) subID ts db of
             ((err, rs), db, hs') \<Rightarrow> ((err, (r, created) # rs), db, hs @ hs')))"

definition first_invalid :: "target list \<Rightarrow> target_error option" where
  "first_invalid ts = Option.bind (find (\<lambda>t. Validate t \<noteq> None) ts) Validate"

definition first_forbidden :: "client \<Rightarrow> string \<Rightarrow> target list \<Rightarrow> auth_error option" where
  "first_forbidden c svc ts = Option.bind (find (\<lambda>t. Authorize c svc t \<noteq> None) ts) (Authorize c svc)"

definition SubmitBatch ::
  "service \<Rightarrow> env \<Rightarrow> batch_input \<Rightarrow> db \<Rightarrow> (service_error option \<times> (request \<times> bool) list) \<times> db \<times> hook list" where
  "SubmitBatch s E inp db =
     (if bi_Targets inp = [] then ((Some ErrEmptyBatch, []), db, [])
      else case first_invalid (bi_Targets inp) of
        Some e \<Rightarrow> ((Some (ErrTarget e), []), db, [])
      | None \<Rightarrow>
     (case validateCallback s (bi_CallbackURL inp) (bi_CallbackSecret inp) of
        Some e \<Rightarrow> ((Some e, []), db, [])
      | None \<Rightarrow>
     (case prepare s E 0 (bi_ClientID inp) (bi_Token inp) (bi_IdempotencyKey inp) (bi_Service inp) (bi_LocationType inp) db of
        (Inl e, db) \<Rightarrow> ((Some e, []), db, [])
      | (Inr (c, svc), db) \<Rightarrow>
     (case first_forbidden c svc (bi_Targets inp) of
        Some e \<Rightarrow> ((Some (ErrAuth e), []), db, [])
      | None \<Rightarrow> batch_loop s E c svc inp 0 [] (bi_Targets inp) db))))"

definition Get :: "service \<Rightarrow> env \<Rightarrow> string \<Rightarrow> string \<Rightarrow> string \<Rightarrow> db \<Rightarrow> (service_error + request) \<times> db" where
  "Get s E clientID token i db =
     (case Authenticate (sv_sha256 s) E 0 clientID token db of
        (Inl e, db) \<Rightarrow> (Inl (ErrAuth e), db)
      | (Inr c, db) \<Rightarrow>
          (let db = e_gap E 2 db in
           case GetRequest (e_fault E 2) i db of
             Inl e \<Rightarrow> (Inl (ErrStore e), db)
           | Inr r \<Rightarrow> if rq_ClientID r \<noteq> c_ID c then (Inl (ErrStore ErrNotFound), db) else (Inr r, db)))"

definition Service_GetResult ::
  "service \<Rightarrow> env \<Rightarrow> string \<Rightarrow> string \<Rightarrow> string \<Rightarrow> db \<Rightarrow> (service_error + request \<times> loc_result option) \<times> db" where
  "Service_GetResult s E clientID token i db =
     (case Get s E clientID token i db of
        (Inl e, db) \<Rightarrow> (Inl e, db)
      | (Inr r, db) \<Rightarrow>
          (if rq_State r \<noteq> StateCompleted then (Inr (r, None), db)
           else
             (let db = e_gap E 3 db in
              case GetResult (e_fault E 3) i db of
                Inl e \<Rightarrow> (Inl (ErrStore e), db)
              | Inr v \<Rightarrow> (Inr (r, Some v), db))))"

definition Service_QueryHistory ::
  "service \<Rightarrow> env \<Rightarrow> string \<Rightarrow> string \<Rightarrow> target \<Rightarrow> time \<Rightarrow> time \<Rightarrow> duration \<Rightarrow> int \<Rightarrow> db
     \<Rightarrow> (service_error + history_point list) \<times> db" where
  "Service_QueryHistory s E clientID token t start stop minInterval limit db =
     (case Validate t of
        Some e \<Rightarrow> (Inl (ErrTarget e), db)
      | None \<Rightarrow>
     (case Authenticate (sv_sha256 s) E 0 clientID token db of
        (Inl e, db) \<Rightarrow> (Inl (ErrAuth e), db)
      | (Inr c, db) \<Rightarrow>
     (case Authorize c ServiceImmediate t of
        Some e \<Rightarrow> (Inl (ErrAuth e), db)
      | None \<Rightarrow>
          (let db = e_gap E 2 db in
           case QueryHistory (e_fault E 2) (Kind t) (Value t) start stop minInterval limit db of
             Inl e \<Rightarrow> (Inl (ErrStore e), db)
           | Inr ps \<Rightarrow> (Inr ps, db)))))"

definition Cancel ::
  "service \<Rightarrow> env \<Rightarrow> string \<Rightarrow> string \<Rightarrow> string \<Rightarrow> db \<Rightarrow> (service_error + request) \<times> db \<times> hook list" where
  "Cancel s E clientID token i db =
     (case Get s E clientID token i db of
        (Inl e, db) \<Rightarrow> (Inl e, db, [])
      | (Inr r, db) \<Rightarrow>
          (case TransitionRequest (e_fault E 3) (e_now E 3) (rq_ID r) StateCancelled ''cancelled_by_client'' (e_gap E 3 db) of
             (Inl e, db) \<Rightarrow> (Inl (ErrStore e), db, [])
           | (Inr r, db) \<Rightarrow>
               (let db = snd (RecordAudit (e_fault E 4) (e_now E 4) \<lparr>ev_RequestID = rq_ID r, ev_ClientID = clientID,
                      ev_Type = ''request_cancelled'', ev_Detail = ''cancelled by client'', ev_At = None\<rparr> (e_gap E 4 db))
                in (Inr r, db, if sv_onCancel s then [CancelHook (rq_ID r)] else []))))"

section \<open>The handlers are store programs\<close>

lemma gap_run: "env_within C E \<Longrightarrow> (store_step C)\<^sup>*\<^sup>* db db0 \<Longrightarrow> (store_step C)\<^sup>*\<^sup>* db (e_gap E k db0)"
  unfolding env_within_def by (meson rtranclp_trans)

lemma op_run: "env_within C E \<Longrightarrow> store_step C (e_gap E k db0) db' \<Longrightarrow> (store_step C)\<^sup>*\<^sup>* db db0 \<Longrightarrow> (store_step C)\<^sup>*\<^sup>* db db'"
  by (meson gap_run rtranclp.rtrancl_into_rtrancl)

lemma audit_run: "env_within C E \<Longrightarrow> (store_step C)\<^sup>*\<^sup>* db db0 \<Longrightarrow> (store_step C)\<^sup>*\<^sup>* db (snd (RecordAudit f t ev (e_gap E k db0)))"
  by (rule op_run [where k = k]) (auto intro: store_step.audit prod.collapse [symmetric])

lemma prepare_runs:
  "env_within C E \<Longrightarrow> (store_step C)\<^sup>*\<^sup>* db (snd (prepare s E k cid token key svc lt db))"
  using Authenticate_runs [of C E db "sv_sha256 s" k cid token]
  by (auto simp: prepare_def split: prod.splits sum.splits)

lemma registerCallback_runs:
  "env_within C E \<Longrightarrow> (store_step C)\<^sup>*\<^sup>* db db0 \<Longrightarrow> (store_step C)\<^sup>*\<^sup>* db (snd (registerCallback s E k cid url sec db0))"
  by (auto simp: registerCallback_def split: option.splits prod.splits sum.splits
      intro: op_run [where k = k] store_step.create_sub)

lemma attach_callback_runs:
  assumes "env_within C E" and "(store_step C)\<^sup>*\<^sup>* db db0"
  shows "(store_step C)\<^sup>*\<^sup>* db (snd (attach_callback s E k cid created url sec sub r db0))"
proof -
  have set: "(store_step C)\<^sup>*\<^sup>* db db2"
    if "SetRequestSubscription (e_fault E (Suc k)) (rq_ID r) x (e_gap E (Suc k) db1) = (y, db2)"
      and "(store_step C)\<^sup>*\<^sup>* db db1" for x y db1 db2
    by (rule op_run [OF assms(1) store_step.subscribe [OF that(1)] that(2)])
  have reg: "(store_step C)\<^sup>*\<^sup>* db db1" if "registerCallback s E k cid url sec db0 = (y, db1)" for y db1
    using registerCallback_runs [OF assms, of s k cid url sec] that by simp
  show ?thesis
    unfolding attach_callback_def using assms(2)
    by (auto split: prod.splits sum.splits intro: reg set)
qed

lemma submit_one_runs:
  assumes "env_within C E" and "(store_step C)\<^sup>*\<^sup>* db db0"
  shows "(store_step C)\<^sup>*\<^sup>* db (fst (snd (submit_one s E k c url sec sub det r db0)))"
proof -
  obtain res db1 where c: "CreateRequest (e_fault E k) (e_fault E (k + 1)) (e_now E k) r (e_gap E k db0) = (res, db1)"
    by force
  have s1: "(store_step C)\<^sup>*\<^sup>* db db1" by (rule op_run [OF assms(1) store_step.create [OF c] assms(2)])
  show ?thesis
  proof (cases res)
    case (Inl e)
    with c s1 show ?thesis by (simp add: submit_one_def)
  next
    case (Inr p)
    obtain r1 created where p: "p = (r1, created)" by (cases p)
    obtain res2 db2 where a: "attach_callback s E (k + 2) (c_ID c) created url sec sub r1 db1 = (res2, db2)" by force
    from attach_callback_runs [OF assms(1) s1, of s "k + 2" "c_ID c" created url sec sub r1] a
    have s2: "(store_step C)\<^sup>*\<^sup>* db db2" by simp
    with c Inr p a audit_run [OF assms(1) s2] show ?thesis
      by (cases res2) (auto simp: submit_one_def Let_def)
  qed
qed

lemma batch_loop_runs:
  "env_within C E \<Longrightarrow> (store_step C)\<^sup>*\<^sup>* db db0 \<Longrightarrow> (store_step C)\<^sup>*\<^sup>* db (fst (snd (batch_loop s E c svc inp i sub ts db0)))"
proof (induction ts arbitrary: i sub db0)
  case (Cons t ts)
  obtain res db1 hs where o: "submit_one s E (2 + 5 * i) c (bi_CallbackURL inp) (bi_CallbackSecret inp) sub
      ''immediate location request (batch)''
      (new_request (e_uuid E (2 + 5 * i)) c (batch_key (bi_IdempotencyKey inp) i) svc t (bi_LocationType inp)
         (bi_Priority inp) (bi_QoS inp)) db0 = (res, db1, hs)" by (rule prod_cases3)
  from arg_cong [OF o, of "\<lambda>x. fst (snd x)"] have s1: "(store_step C)\<^sup>*\<^sup>* db db1"
    using submit_one_runs [OF Cons.prems] by (metis fst_conv snd_conv)
  show ?case
  proof (cases res)
    case (Inl e)
    with o s1 show ?thesis by simp
  next
    case (Inr p)
    obtain r created sub' where p: "p = (r, created, sub')" by (rule prod_cases3)
    obtain err rs db2 hs' where b: "batch_loop s E c svc inp (i + 1) sub' ts db1 = ((err, rs), db2, hs')"
      by (metis prod.exhaust)
    from Cons.IH [OF Cons.prems(1) s1, of "i + 1" sub'] b have "(store_step C)\<^sup>*\<^sup>* db db2" by simp
    with o Inr p b show ?thesis by simp
  qed
qed simp

lemma Submit_runs: "env_within C E \<Longrightarrow> (store_step C)\<^sup>*\<^sup>* db (fst (snd (Submit s E inp db)))"
proof -
  assume e: "env_within C E"
  obtain res db1 where p: "prepare s E 0 (in_ClientID inp) (in_Token inp) (in_IdempotencyKey inp) (in_Service inp)
      (in_LocationType inp) db = (res, db1)" by force
  with prepare_runs [OF e, of db s 0 "in_ClientID inp" "in_Token inp" "in_IdempotencyKey inp" "in_Service inp"
      "in_LocationType inp"]
  have s1: "(store_step C)\<^sup>*\<^sup>* db db1" by simp
  have one: "(store_step C)\<^sup>*\<^sup>* db db2" if "submit_one s E k c url sec sub det r db1 = (x, db2, hs)"
    for k c url sec sub det r x db2 hs
    using submit_one_runs [OF e s1, of s k c url sec sub det r] that by simp
  show ?thesis
    using p s1 by (auto simp: Submit_def intro: one split: option.splits sum.splits prod.splits)
qed

lemma SubmitBatch_runs: "env_within C E \<Longrightarrow> (store_step C)\<^sup>*\<^sup>* db (fst (snd (SubmitBatch s E inp db)))"
proof -
  assume e: "env_within C E"
  obtain res db1 where p: "prepare s E 0 (bi_ClientID inp) (bi_Token inp) (bi_IdempotencyKey inp) (bi_Service inp)
      (bi_LocationType inp) db = (res, db1)" by force
  with prepare_runs [OF e, of db s 0 "bi_ClientID inp" "bi_Token inp" "bi_IdempotencyKey inp" "bi_Service inp"
      "bi_LocationType inp"]
  have s1: "(store_step C)\<^sup>*\<^sup>* db db1" by simp
  show ?thesis
    using p s1 batch_loop_runs [OF e s1]
    by (auto simp: SubmitBatch_def split: option.splits sum.splits prod.splits)
qed

lemma Get_runs: "env_within C E \<Longrightarrow> (store_step C)\<^sup>*\<^sup>* db (snd (Get s E cid token i db))"
  using Authenticate_runs [of C E db "sv_sha256 s" 0 cid token]
  by (auto simp: Get_def Let_def intro: gap_run split: sum.splits prod.splits)

lemma Cancel_runs: "env_within C E \<Longrightarrow> (store_step C)\<^sup>*\<^sup>* db (fst (snd (Cancel s E cid token i db)))"
proof -
  assume e: "env_within C E"
  obtain res db1 where g: "Get s E cid token i db = (res, db1)" by force
  with Get_runs [OF e, of db s cid token i] have s1: "(store_step C)\<^sup>*\<^sup>* db db1" by simp
  show ?thesis
  proof (cases res)
    case (Inr r)
    obtain res2 db2 where t: "TransitionRequest (e_fault E 3) (e_now E 3) (rq_ID r) StateCancelled
        ''cancelled_by_client'' (e_gap E 3 db1) = (res2, db2)" by force
    have s2: "(store_step C)\<^sup>*\<^sup>* db db2" by (rule op_run [OF e store_step.transition [OF t] s1])
    with g Inr t audit_run [OF e s2] show ?thesis by (cases res2) (auto simp: Cancel_def Let_def)
  qed (use g s1 in \<open>simp add: Cancel_def\<close>)
qed

interpretation submit: store_program "\<lambda>(s, E, inp) db. fst (snd (Submit s E inp db))" "\<lambda>C (s, E, inp). env_within C E"
  by unfold_locales (auto intro: Submit_runs)

interpretation submit_batch: store_program "\<lambda>(s, E, inp) db. fst (snd (SubmitBatch s E inp db))" "\<lambda>C (s, E, inp). env_within C E"
  by unfold_locales (auto intro: SubmitBatch_runs)

interpretation cancel: store_program "\<lambda>(s, E, cid, token, i) db. fst (snd (Cancel s E cid token i db))"
  "\<lambda>C (s, E, cid, token, i). env_within C E"
  by unfold_locales (auto intro: Cancel_runs)

section \<open>What a submission passed, and what it did\<close>

definition entitled :: "service \<Rightarrow> env \<Rightarrow> string \<Rightarrow> string \<Rightarrow> target \<Rightarrow> db \<Rightarrow> bool" where
  "entitled s E clientID token t db \<longleftrightarrow>
     (\<exists>row \<in> set (lcs_clients (e_gap E 0 db)). cl_id row = clientID \<and> cl_enabled row = 1
        \<and> cl_credential_hash row = HashToken (sv_sha256 s) token)
     \<and> (clientID, ServiceImmediate) \<in> set (client_services (e_gap E 1 (e_gap E 0 db)))
     \<and> (\<exists>p. (clientID, p) \<in> set (client_target_prefixes (e_gap E 1 (e_gap E 0 db))) \<and> prefix p (Value t))"

lemma prepare_Inr:
  assumes "prepare s E 0 cid token key svc lt db = (Inr (c, svc'), db')" and "Authorize c svc' t = None"
  shows "c_ID c = cid \<and> svc' = ServiceImmediate \<and> TrimSpace key \<noteq> [] \<and> length key \<le> 255
    \<and> entitled s E cid token t db \<and> db' = e_gap E 1 (e_gap E 0 db)"
proof -
  from assms(1) have a: "Authenticate (sv_sha256 s) E 0 cid token db = (Inr c, db')"
    and k: "svc' = ServiceImmediate" "TrimSpace key \<noteq> []" "length key \<le> 255"
    by (auto simp: prepare_def split: if_splits prod.splits sum.splits)
  have "db' = e_gap E 1 (e_gap E 0 db)"
    using a by (auto simp: Authenticate_def Let_def split: sum.splits prod.splits if_splits)
  with Authenticate_Inr [OF a] assms(2) k show ?thesis
    by (fastforce simp: entitled_def Authorize_def split: if_splits)
qed

lemma submit_one_Inr:
  assumes "submit_one s E k c url sec sub det r db = (Inr (r', created, sub'), db', hs)"
  obtains r0 db1 where "CreateRequest (e_fault E k) (e_fault E (k + 1)) (e_now E k) r (e_gap E k db) = (Inr (r0, created), db1)"
    and "rq_ID r' = rq_ID r0" and "rq_ClientID r' = rq_ClientID r0" and "rq_IdempotencyKey r' = rq_IdempotencyKey r0"
    and "rq_TargetKind r' = rq_TargetKind r0" and "rq_TargetValue r' = rq_TargetValue r0" and "rq_State r' = rq_State r0"
    and "hs = (if created \<and> sv_onQueued s then [QueuedHook] else [])"
  using assms
  by (auto simp: submit_one_def attach_callback_def Let_def split: prod.splits sum.splits if_splits)

lemma CreateRequest_Inr:
  assumes "CreateRequest f f2 now r db = (Inr (r0, created), db1)"
  shows "rq_ClientID r0 = rq_ClientID r \<and> rq_IdempotencyKey r0 = rq_IdempotencyKey r
    \<and> (created \<longrightarrow> rq_ID r0 = rq_ID r \<and> rq_TargetKind r0 = rq_TargetKind r \<and> rq_TargetValue r0 = rq_TargetValue r
      \<and> rq_State r0 = rq_State r)"
  using assms
  by (auto simp: CreateRequest_def exec_def Let_def byClientKey_def request_of_row_def client_key_def
      split: if_splits sum.splits option.splits dest!: row_by_Some)

section \<open>Properties\<close>

text \<open>What a caller leaves behind that has not yet used the store but to authenticate: what others did.\<close>

definition untouched :: "env \<Rightarrow> db \<Rightarrow> db \<Rightarrow> bool" where
  "untouched E db db' \<longleftrightarrow> db' \<in> {db, e_gap E 0 db, e_gap E 1 (e_gap E 0 db)}"

lemma prepare_untouched: "prepare s E 0 cid token key svc lt db = (x, db') \<Longrightarrow> untouched E db db'"
  using Authenticate_db [of "sv_sha256 s" E 0 cid token db]
  by (auto simp: prepare_def untouched_def split: if_splits prod.splits sum.splits)

lemma untouched_refl [simp]: "untouched E db db"
  by (simp add: untouched_def)

text \<open>
  C8: A submission creates a request only for a valid target and an entitled client: it is stored and enabled,
  its stored hash is the hash of the presented token, the immediate service and a prefix of the target
  are granted to it.  Otherwise the answer is an error, the service has written nothing, so that the
  store is as the other goroutines left it, and no hook fires.  When a request is returned, it is that
  client's, under the submitted key, and a newly created one is queued for the submitted target.
\<close>

theorem Submit_authorized:
  assumes "Submit s E inp db = (res, db', hs)"
  shows "if valid_target (in_Target inp) \<and> entitled s E (in_ClientID inp) (in_Token inp) (in_Target inp) db
    then \<forall>r created. res = Inr (r, created) \<longrightarrow>
      rq_ClientID r = in_ClientID inp \<and> rq_IdempotencyKey r = in_IdempotencyKey inp
      \<and> (created \<longrightarrow> rq_State r = StateQueued \<and> rq_TargetKind r = Kind (in_Target inp)
           \<and> rq_TargetValue r = Value (in_Target inp) \<and> rq_ID r = e_uuid E 2)
    else isl res \<and> untouched E db db' \<and> hs = []"
proof -
  obtain p db1 where p: "prepare s E 0 (in_ClientID inp) (in_Token inp) (in_IdempotencyKey inp) (in_Service inp)
      (in_LocationType inp) db = (p, db1)" by force
  have u: "untouched E db db1" by (rule prepare_untouched [OF p])
  show ?thesis
  proof (cases "Validate (in_Target inp) = None \<and> validateCallback s (in_CallbackURL inp) (in_CallbackSecret inp) = None
      \<and> (\<exists>c svc. p = Inr (c, svc) \<and> Authorize c svc (in_Target inp) = None)")
    case False
    with assms p u have "isl res \<and> untouched E db db' \<and> hs = []"
      by (cases p) (auto simp: Submit_def split: option.splits prod.splits)
    then show ?thesis by (cases res) simp_all
  next
    case True
    then obtain c svc where a: "p = Inr (c, svc)" "Authorize c svc (in_Target inp) = None" by blast
    note e = prepare_Inr [OF p [unfolded a(1)] a(2)]
    have "rq_ClientID r = in_ClientID inp \<and> rq_IdempotencyKey r = in_IdempotencyKey inp
      \<and> (created \<longrightarrow> rq_State r = StateQueued \<and> rq_TargetKind r = Kind (in_Target inp)
           \<and> rq_TargetValue r = Value (in_Target inp) \<and> rq_ID r = e_uuid E 2)" if res: "res = Inr (r, created)" for r created
    proof -
      from assms True p a res obtain sub where "submit_one s E 2 c (in_CallbackURL inp) (in_CallbackSecret inp) []
          ''immediate location request'' (new_request (e_uuid E 2) c (in_IdempotencyKey inp) svc (in_Target inp)
            (in_LocationType inp) (in_Priority inp) (in_QoS inp)) db1 = (Inr (r, created, sub), db', hs)"
        by (auto simp: Submit_def split: option.splits prod.splits sum.splits)
      with e show ?thesis by (elim submit_one_Inr) (auto simp: new_request_def dest!: CreateRequest_Inr)
    qed
    with e True show ?thesis by (simp add: Validate_None)
  qed
qed

definition sample_service :: service where
  "sample_service = \<lparr>sv_sha256 = (\<lambda>x. x), sv_parse_url = (\<lambda>u. Some (''https'', u)),
     sv_encryptSecret = Some Some, sv_onQueued = True, sv_onCancel = True\<rparr>"

definition sample_input :: submit_input where
  "sample_input = \<lparr>in_ClientID = ''c'', in_Token = ''t'', in_IdempotencyKey = ''7'',
     in_Target = \<lparr>IMSI = [], MSISDN = ''155''\<rparr>, in_Service = [], in_LocationType = 0, in_Priority = None, in_QoS = None,
     in_CallbackURL = ''h'', in_CallbackSecret = ''k''\<rparr>"

lemma sample_valid: "Validate \<lparr>IMSI = [], MSISDN = ''155''\<rparr> = None"
  by (simp add: Validate_None valid_digits is_digit_alt)

lemma sample_trim: "TrimSpace ''7'' = ''7''"
  by (rule TrimSpace_digits) (simp add: is_digit_alt)

lemma sample_prepare:
  "prepare sample_service (calm 5) 0 ''c'' ''t'' ''7'' [] 0 sample_clients =
     (Inr (\<lparr>c_ID = ''c'', c_CredentialHash = byte_string ''t'', c_Services = [ServiceImmediate],
        c_TargetPrefixes = [''1''], c_Enabled = True, c_LCSClientType = 1, c_LCSPrivacyCheck = 0\<rparr>, ServiceImmediate),
      sample_clients)"
  using sample_authenticate [of 0] by (simp add: prepare_def domain_consts sample_trim sample_service_def)

lemma sample_submit:
  "\<exists>r db' hs. Submit sample_service (calm 5) sample_input sample_clients = (Inr (r, True), db', hs)"
proof -
  have "validateCallback sample_service ''h'' ''k'' = None"
    by (simp add: validateCallback_def sample_service_def)
  moreover have "Authorize \<lparr>c_ID = ''c'', c_CredentialHash = byte_string ''t'', c_Services = [ServiceImmediate],
        c_TargetPrefixes = [''1''], c_Enabled = True, c_LCSClientType = 1, c_LCSPrivacyCheck = 0\<rparr> ServiceImmediate
        \<lparr>IMSI = [], MSISDN = ''155''\<rparr> = None"
    by (simp add: Authorize_def Value_def)
  ultimately show ?thesis
    by (simp add: Submit_def sample_input_def sample_valid sample_prepare)
      (simp add: submit_one_def CreateRequest_def Let_def calm_def insert_violates_def new_request_def insert_row_def
        sample_clients_def sample_db_def empty_db_def row_by_def sample_client_def attach_callback_def registerCallback_def
        sample_service_def CreateSubscription_def SetRequestSubscription_def)
qed

lemma sample_entitled: "entitled sample_service (calm 5) ''c'' ''t'' \<lparr>IMSI = [], MSISDN = ''155''\<rparr> sample_clients"
  by (simp add: entitled_def calm_def sample_clients_def sample_db_def sample_client_def empty_db_def sample_service_def
      HashToken_def Value_def)

theorem Submit_authorized_witness:
  "(\<exists>r db' hs. Submit sample_service (calm 5) sample_input sample_clients = (Inr (r, True), db', hs)
     \<and> rq_State r = StateQueued \<and> rq_TargetValue r = ''155'')
   \<and> (\<exists>e. Submit sample_service (calm 5) (sample_input\<lparr>in_Target := \<lparr>IMSI = [], MSISDN = ''255''\<rparr>\<rparr>) sample_clients
       = (Inl e, sample_clients, []))"
proof
  from sample_submit obtain r db' hs where
    s: "Submit sample_service (calm 5) sample_input sample_clients = (Inr (r, True), db', hs)" by blast
  have "valid_target (in_Target sample_input)" using sample_valid by (simp add: Validate_None sample_input_def)
  moreover have "entitled sample_service (calm 5) (in_ClientID sample_input) (in_Token sample_input) (in_Target sample_input) sample_clients"
    using sample_entitled by (simp add: sample_input_def)
  ultimately have "rq_State r = StateQueued \<and> rq_TargetValue r = Value (in_Target sample_input)"
    using Submit_authorized [OF s] by auto
  with s show "\<exists>r db' hs. Submit sample_service (calm 5) sample_input sample_clients
      = (Inr (r, True), db', hs) \<and> rq_State r = StateQueued \<and> rq_TargetValue r = ''155''"
    by (auto simp: sample_input_def Value_def)
next
  let ?i = "sample_input\<lparr>in_Target := \<lparr>IMSI = [], MSISDN = ''255''\<rparr>\<rparr>"
  obtain res db' hs where s: "Submit sample_service (calm 5) ?i sample_clients = (res, db', hs)" by (rule prod_cases3)
  have "\<not> entitled sample_service (calm 5) ''c'' ''t'' \<lparr>IMSI = [], MSISDN = ''255''\<rparr> sample_clients"
    by (simp add: entitled_def calm_def sample_clients_def sample_db_def sample_client_def empty_db_def Value_def)
  with Submit_authorized [OF s] have "isl res \<and> untouched (calm 5) sample_clients db' \<and> hs = []"
    by (simp add: sample_input_def)
  with s show "\<exists>e. Submit sample_service (calm 5) ?i sample_clients = (Inl e, sample_clients, [])"
    by (auto simp: untouched_def calm_def isl_def)
qed

lemma prepare_alone: "alone E \<Longrightarrow> snd (prepare s E k cid token key svc lt db) = db"
  using Authenticate_alone [of E "sv_sha256 s" k cid token db]
  by (auto simp: prepare_def split: prod.splits sum.splits)

text \<open>Errors that come from the input or the credentials, not from the store or the encryption.\<close>

definition is_rejection :: "service_error \<Rightarrow> bool" where
  "is_rejection e \<longleftrightarrow> e \<noteq> ErrEncrypt \<and> (\<forall>x. e \<noteq> ErrStore x)"

lemma submit_one_Inl:
  "submit_one s E k c url sec sub det r db = (Inl e, db', hs) \<Longrightarrow> \<not> is_rejection e"
  by (auto simp: submit_one_def attach_callback_def registerCallback_def is_rejection_def
      split: prod.splits sum.splits if_splits option.splits)

lemma batch_loop_err:
  "batch_loop s E c svc inp i sub ts db = ((Some e, rs), db', hs) \<Longrightarrow> \<not> is_rejection e"
proof (induction ts arbitrary: i sub db rs db' hs)
  case (Cons t ts)
  then show ?case
    by (auto split: prod.splits sum.splits dest: submit_one_Inl)
qed simp

lemma first_invalid_None: "first_invalid ts = None \<longleftrightarrow> (\<forall>t \<in> set ts. Validate t = None)"
  by (induction ts) (auto simp: first_invalid_def)

lemma first_forbidden_None: "first_forbidden c svc ts = None \<longleftrightarrow> (\<forall>t \<in> set ts. Authorize c svc t = None)"
  by (induction ts) (auto simp: first_forbidden_def)

text \<open>
  C31: A batch with one bad target leaves nothing behind: when any target is invalid, or the client is not entitled
  to it (because its credentials are wrong, it is disabled, or the service or the prefix is not granted),
  the answer is a rejection, no request of the batch is created and no subscription registered, so
  that the store is as the other goroutines left it, and no hook fires.
\<close>

theorem SubmitBatch_rejected:
  assumes "SubmitBatch s E inp db = ((err, rs), db', hs)"
    and "\<exists>t \<in> set (bi_Targets inp). \<not> valid_target t \<or> \<not> entitled s E (bi_ClientID inp) (bi_Token inp) t db"
  shows "(\<exists>e. err = Some e \<and> is_rejection e) \<and> rs = [] \<and> untouched E db db' \<and> hs = []"
proof -
  obtain res db1 where p: "prepare s E 0 (bi_ClientID inp) (bi_Token inp) (bi_IdempotencyKey inp) (bi_Service inp)
      (bi_LocationType inp) db = (res, db1)" by force
  have u: "untouched E db db1" by (rule prepare_untouched [OF p])
  have "first_forbidden c svc (bi_Targets inp) \<noteq> None"
    if "res = Inr (c, svc)" and "first_invalid (bi_Targets inp) = None" for c svc
  proof
    assume f: "first_forbidden c svc (bi_Targets inp) = None"
    from assms(2) that(2) obtain t where t: "t \<in> set (bi_Targets inp)" "\<not> entitled s E (bi_ClientID inp) (bi_Token inp) t db"
      by (auto simp: first_invalid_None Validate_None)
    with f have "Authorize c svc t = None" by (simp add: first_forbidden_None)
    from prepare_Inr [OF p [unfolded that(1)] this] t(2) show False by simp
  qed
  moreover have "is_rejection e" if "res = Inl e" for e
    using p that by (auto simp: prepare_def is_rejection_def split: if_splits prod.splits sum.splits)
  moreover have rej: "is_rejection (ErrTarget e)" "is_rejection (ErrAuth x)" for e x
    by (simp_all add: is_rejection_def)
  moreover have ne: "bi_Targets inp \<noteq> []" using assms(2) by auto
  ultimately have "validateCallback s (bi_CallbackURL inp) (bi_CallbackSecret inp) = None \<Longrightarrow> ?thesis"
    using assms(1) p u by (cases res) (auto simp: SubmitBatch_def split: option.splits prod.splits)
  moreover have ?thesis if v: "validateCallback s (bi_CallbackURL inp) (bi_CallbackSecret inp) = Some e" for e
  proof -
    have "is_rejection e"
      using v by (auto simp: validateCallback_def is_rejection_def split: if_splits option.splits prod.splits)
    with assms(1) ne rej show ?thesis by (cases "first_invalid (bi_Targets inp)") (auto simp: SubmitBatch_def v)
  qed
  ultimately show ?thesis by (cases "validateCallback s (bi_CallbackURL inp) (bi_CallbackSecret inp)") blast+
qed

definition sample_batch :: "target list \<Rightarrow> batch_input" where
  "sample_batch ts = \<lparr>bi_ClientID = ''c'', bi_Token = ''t'', bi_IdempotencyKey = ''7'', bi_Targets = ts,
     bi_Service = [], bi_LocationType = 0, bi_Priority = None, bi_QoS = None, bi_CallbackURL = [], bi_CallbackSecret = []\<rparr>"

theorem SubmitBatch_rejected_witness:
  "\<exists>e. SubmitBatch sample_service (calm 5) (sample_batch [\<lparr>IMSI = [], MSISDN = ''155''\<rparr>, \<lparr>IMSI = [], MSISDN = ''255''\<rparr>]) sample_clients
     = ((Some e, []), sample_clients, [])"
proof -
  let ?b = "sample_batch [\<lparr>IMSI = [], MSISDN = ''155''\<rparr>, \<lparr>IMSI = [], MSISDN = ''255''\<rparr>]"
  obtain err rs db' hs where b: "SubmitBatch sample_service (calm 5) ?b sample_clients = ((err, rs), db', hs)"
    by (metis prod.exhaust)
  have "\<not> entitled sample_service (calm 5) ''c'' ''t'' \<lparr>IMSI = [], MSISDN = ''255''\<rparr> sample_clients"
    by (simp add: entitled_def calm_def sample_clients_def sample_db_def sample_client_def empty_db_def Value_def)
  with SubmitBatch_rejected [OF b] have "(\<exists>e. err = Some e) \<and> rs = [] \<and> untouched (calm 5) sample_clients db' \<and> hs = []"
    by (auto simp: sample_batch_def)
  with b show ?thesis by (auto simp: untouched_def calm_def)
qed

definition batch_item :: "client \<Rightarrow> string \<Rightarrow> nat \<Rightarrow> target \<Rightarrow> request \<times> bool \<Rightarrow> bool" where
  "batch_item c key k t rc \<longleftrightarrow> rq_ClientID (fst rc) = c_ID c \<and> rq_IdempotencyKey (fst rc) = batch_key key k
     \<and> (snd rc \<longrightarrow> rq_TargetKind (fst rc) = Kind t \<and> rq_TargetValue (fst rc) = Value t)"

lemma batch_loop_all:
  "batch_loop s E c svc inp i sub ts db = ((None, rs), db', hs) \<Longrightarrow>
     length rs = length ts \<and> (\<forall>k < length ts. batch_item c (bi_IdempotencyKey inp) (i + k) (ts ! k) (rs ! k))"
proof (induction ts arbitrary: i sub db rs db' hs)
  case (Cons t ts)
  from Cons.prems obtain r created sub' db1 hs1 rs' hs2 where
    o: "submit_one s E (2 + 5 * i) c (bi_CallbackURL inp) (bi_CallbackSecret inp) sub
         ''immediate location request (batch)''
         (new_request (e_uuid E (2 + 5 * i)) c (batch_key (bi_IdempotencyKey inp) i) svc t (bi_LocationType inp)
            (bi_Priority inp) (bi_QoS inp)) db = (Inr (r, created, sub'), db1, hs1)"
    and b: "batch_loop s E c svc inp (i + 1) sub' ts db1 = ((None, rs'), db', hs2)"
    and rs: "rs = (r, created) # rs'"
    by (auto split: prod.splits sum.splits)
  have "batch_item c (bi_IdempotencyKey inp) i t (r, created)"
    using o by (elim submit_one_Inr) (auto simp: batch_item_def new_request_def dest!: CreateRequest_Inr)
  with Cons.IH [OF b] show ?case
    by (auto simp: rs nth_Cons split: nat.splits)
qed simp

text \<open>
  A batch that succeeds returns one request per target, in order, each of them the client's
  request under the key of the batch with the position of the target appended.
\<close>

theorem SubmitBatch_all:
  assumes "SubmitBatch s E inp db = ((None, rs), db', hs)"
  shows "length rs = length (bi_Targets inp)
    \<and> (\<forall>k < length rs. rq_ClientID (fst (rs ! k)) = bi_ClientID inp
        \<and> rq_IdempotencyKey (fst (rs ! k)) = batch_key (bi_IdempotencyKey inp) k
        \<and> (snd (rs ! k) \<longrightarrow> rq_TargetKind (fst (rs ! k)) = Kind (bi_Targets inp ! k)
             \<and> rq_TargetValue (fst (rs ! k)) = Value (bi_Targets inp ! k)))"
proof -
  from assms obtain c svc db1 where
    p: "prepare s E 0 (bi_ClientID inp) (bi_Token inp) (bi_IdempotencyKey inp) (bi_Service inp) (bi_LocationType inp) db
      = (Inr (c, svc), db1)"
    and f: "first_forbidden c svc (bi_Targets inp) = None" and ne: "bi_Targets inp \<noteq> []"
    and b: "batch_loop s E c svc inp 0 [] (bi_Targets inp) db1 = ((None, rs), db', hs)"
    by (auto simp: SubmitBatch_def split: if_splits option.splits prod.splits sum.splits)
  from f ne have "Authorize c svc (hd (bi_Targets inp)) = None"
    by (cases "bi_Targets inp") (auto simp: first_forbidden_def split: if_splits)
  from prepare_Inr [OF p this] have "c_ID c = bi_ClientID inp" by simp
  with batch_loop_all [OF b] show ?thesis by (simp add: batch_item_def)
qed

lemma sample_batch_ok:
  "\<exists>rs db' hs. SubmitBatch sample_service (calm 5) (sample_batch [\<lparr>IMSI = [], MSISDN = ''155''\<rparr>]) sample_clients
     = ((None, rs), db', hs)"
  by (simp add: SubmitBatch_def sample_batch_def first_invalid_def sample_valid validateCallback_def sample_prepare
        first_forbidden_def Authorize_def Value_def)
    (simp add: submit_one_def CreateRequest_def Let_def calm_def insert_violates_def new_request_def insert_row_def
        sample_clients_def sample_db_def empty_db_def row_by_def sample_client_def attach_callback_def)

theorem SubmitBatch_all_witness:
  "\<exists>rs db' hs. SubmitBatch sample_service (calm 5) (sample_batch [\<lparr>IMSI = [], MSISDN = ''155''\<rparr>]) sample_clients
     = ((None, rs), db', hs) \<and> length rs = 1"
proof -
  from sample_batch_ok obtain rs db' hs where b: "SubmitBatch sample_service (calm 5)
      (sample_batch [\<lparr>IMSI = [], MSISDN = ''155''\<rparr>]) sample_clients = ((None, rs), db', hs)" by blast
  from SubmitBatch_all [OF b] have "length rs = 1" by (simp add: sample_batch_def)
  with b show ?thesis by blast
qed

text \<open>
  A client sees its own requests only: what \<open>Get\<close> returns belongs to the authenticated client, and
  asking for another client's request gives the same answer as asking for one that does not exist.
\<close>

theorem Get_isolated:
  assumes "Authenticate (sv_sha256 s) E 0 clientID token db = (Inr c, db1)" and "\<not> e_fault E 2"
  shows "Get s E clientID token i db =
    (case row_by row_id i (location_requests (e_gap E 2 db1)) of
       Some q \<Rightarrow> if row_client_id q = clientID then (Inr (request_of_row q), e_gap E 2 db1)
                 else (Inl (ErrStore ErrNotFound), e_gap E 2 db1)
     | None \<Rightarrow> (Inl (ErrStore ErrNotFound), e_gap E 2 db1))"
proof -
  have "c_ID c = clientID" using Authenticate_Inr [OF assms(1)] by auto
  then show ?thesis
    using assms by (auto simp: Get_def Let_def GetRequest_def request_of_row_def split: option.splits)
qed

theorem Get_isolated_witness:
  "fst (Get sample_service (calm 5) ''c'' ''t'' ''nope'' sample_clients) = Inl (ErrStore ErrNotFound)"
proof -
  have a: "Authenticate (sv_sha256 sample_service) (calm 5) 0 ''c'' ''t'' sample_clients = (Inr (\<lparr>c_ID = ''c'',
      c_CredentialHash = byte_string ''t'', c_Services = [ServiceImmediate], c_TargetPrefixes = [''1''],
      c_Enabled = True, c_LCSClientType = 1, c_LCSPrivacyCheck = 0\<rparr>), sample_clients)"
    using sample_authenticate [of 0] by (simp add: sample_service_def)
  have "\<not> e_fault (calm 5) 2" by (simp add: calm_def)
  from Get_isolated [OF a this] show ?thesis
    by (simp add: row_by_def sample_clients_def)
qed

text \<open>
  C30: Cancellation, with no database failure and no other goroutine in between.  Wrong credentials are refused.  A
  request that does not exist and one of another client get the same answer, and nothing changes; a
  terminal request of the client gives a conflict, and nothing changes.  Any other request of the client
  becomes cancelled, every other row and table but the audit trail is left alone, and the worker is told.
\<close>

theorem Cancel_spec:
  assumes "alone E" and "\<forall>k. \<not> e_fault E k" and "requests_inv db"
  shows "case fst (Authenticate (sv_sha256 s) E 0 clientID token db) of
      Inl e \<Rightarrow> Cancel s E clientID token i db = (Inl (ErrAuth e), db, [])
    | Inr c \<Rightarrow>
       (case row_by row_id i (location_requests db) of
          None \<Rightarrow> Cancel s E clientID token i db = (Inl (ErrStore ErrNotFound), db, [])
        | Some q \<Rightarrow>
            if row_client_id q \<noteq> clientID then Cancel s E clientID token i db = (Inl (ErrStore ErrNotFound), db, [])
            else if Terminal (row_state q) then Cancel s E clientID token i db = (Inl (ErrStore ErrConflict), db, [])
            else \<exists>r audit. rq_ID r = i \<and> rq_State r = StateCancelled
              \<and> Cancel s E clientID token i db = (Inr r,
                  db\<lparr>location_requests := map (\<lambda>p. if row_id p = i then p\<lparr>row_state := StateCancelled,
                       row_failure_code := ''cancelled_by_client'', row_updated_at := utc (e_now E 3)\<rparr> else p) (location_requests db),
                     audit_events := audit_events db @ [audit]\<rparr>,
                  if sv_onCancel s then [CancelHook i] else []))"
proof -
  obtain a db1 where a: "Authenticate (sv_sha256 s) E 0 clientID token db = (a, db1)" by force
  with Authenticate_alone [OF assms(1), of "sv_sha256 s" 0 clientID token db] have db1: "db1 = db" by simp
  show ?thesis
  proof (cases "\<exists>c q. a = Inr c \<and> row_by row_id i (location_requests db) = Some q \<and> row_client_id q = clientID")
    case False
    have "a = Inr c \<Longrightarrow> c_ID c = clientID" for c using Authenticate_Inr a by blast
    with False a db1 assms(1,2) show ?thesis
      by (cases a) (auto simp: Cancel_def Get_def Let_def GetRequest_def request_of_row_def split: option.splits)
  next
    case True
    then obtain c q where c: "a = Inr c" and q: "row_by row_id i (location_requests db) = Some q" "row_client_id q = clientID" by blast
    have "c_ID c = clientID" using Authenticate_Inr a c by blast
    then have g: "Get s E clientID token i db = (Inr (request_of_row q), db)"
      using assms a c db1 q by (simp add: Get_def Let_def GetRequest_def request_of_row_def)
    have qi: "row_id q = i" "q \<in> set (location_requests db)" using row_by_Some [OF q(1)] by simp_all
    then have ri: "rq_ID (request_of_row q) = i" by (simp add: request_of_row_def)
    have "row_state p = row_state q" if "p \<in> set (location_requests db)" "row_id p = i" for p
      using row_by_unique [OF requests_inv_unique [OF assms(3)]] that q(1) by (metis option.inject)
    then have rows: "update_where (guarded i (row_state q)) f (location_requests db)
        = map (\<lambda>p. if row_id p = i then f p else p) (location_requests db)" for f
      by (auto simp: update_where_def guarded_def)
    have t: "TransitionRequest False (e_now E 3) i StateCancelled ''cancelled_by_client'' db =
        (if Terminal (row_state q) then (Inl ErrConflict, db)
         else (Inr ((request_of_row q)\<lparr>rq_State := StateCancelled, rq_FailureCode := ''cancelled_by_client'', rq_UpdatedAt := e_now E 3\<rparr>),
           db\<lparr>location_requests := map (\<lambda>p. if row_id p = i then p\<lparr>row_state := StateCancelled,
             row_failure_code := ''cancelled_by_client'', row_updated_at := utc (e_now E 3)\<rparr> else p) (location_requests db)\<rparr>))"
      using assms(3) q(1) by (simp add: TransitionRequest_eq CanTransition_Cancelled update_requests_def rows set_state_def)
    show ?thesis
    proof (cases "Terminal (row_state q)")
      case True
      with a c q g ri t assms(1,2) show ?thesis by (simp add: Cancel_def)
    next
      case False
      with a c q g ri t assms(1,2) show ?thesis by (simp add: Cancel_def RecordAudit_def Let_def) blast
    qed
  qed
qed

lemma sample_queued_inv: "requests_inv (sample_clients\<lparr>location_requests := [sample_row ''a'']\<rparr>)"
  by (simp add: requests_inv_def sample_clients_def sample_defs key_unique_def insert_row_def)

theorem Cancel_spec_witness:
  "\<exists>r db'. Cancel sample_service (calm 5) ''c'' ''t'' ''a'' (sample_clients\<lparr>location_requests := [sample_row ''a'']\<rparr>)
     = (Inr r, db', [CancelHook ''a'']) \<and> rq_State r = StateCancelled \<and> map row_state (location_requests db') = [StateCancelled]"
proof -
  let ?db = "sample_clients\<lparr>location_requests := [sample_row ''a'']\<rparr>"
  have a: "Authenticate (sv_sha256 sample_service) (calm 5) 0 ''c'' ''t'' ?db = (Inr (\<lparr>c_ID = ''c'',
      c_CredentialHash = byte_string ''t'', c_Services = [ServiceImmediate], c_TargetPrefixes = [''1''],
      c_Enabled = True, c_LCSClientType = 1, c_LCSPrivacyCheck = 0\<rparr>), ?db)"
    by (simp add: Authenticate_def Let_def calm_def sample_clients_def sample_db_def sample_client_def GetClientCredential_def
      GetClientAuthzData_def row_by_def HashToken_def ConstantTimeCompare_eq sample_service_def)
  have f: "\<forall>k. \<not> e_fault (calm 5) k" by (simp add: calm_def)
  have q: "row_by row_id ''a'' (location_requests ?db) = Some (sample_row ''a'')" "row_client_id (sample_row ''a'') = ''c''"
    "row_state (sample_row ''a'') = StateQueued" "row_id (sample_row ''a'') = ''a''"
    by (simp_all add: row_by_def sample_row_def insert_row_def sample_request_def)
  from Cancel_spec [OF calm_alone f sample_queued_inv, of sample_service "''c''" "''t''" "''a''"] a q
  show ?thesis by (auto simp: sample_service_def)
qed

lemma submit_one_created:
  assumes "env_within C E" and "submit_one s E k c url sec sub det r db = (Inr (r', True, sub'), db', hs)"
  obtains r0 dbc where "CreateRequest (e_fault E k) (e_fault E (k + 1)) (e_now E k) r (e_gap E k db) = (Inr (r0, True), dbc)"
    and "(store_step C)\<^sup>*\<^sup>* dbc db'" and "rq_ID r' = rq_ID r" and "rq_TargetValue r' = rq_TargetValue r"
proof -
  from assms(2) obtain r0 dbc sub1 db2 where
    c: "CreateRequest (e_fault E k) (e_fault E (k + 1)) (e_now E k) r (e_gap E k db) = (Inr (r0, True), dbc)"
    and a: "attach_callback s E (k + 2) (c_ID c) True url sec sub r0 dbc = (Inr (r', sub1), db2)"
    and l: "\<exists>f t ev. db' = snd (RecordAudit f t ev (e_gap E (k + 4) db2))"
    unfolding submit_one_def Let_def by (auto split: prod.splits sum.splits)
  from a have e: "rq_ID r' = rq_ID r0" "rq_TargetValue r' = rq_TargetValue r0"
    by (auto simp: attach_callback_def split: prod.splits sum.splits if_splits)
  have "(store_step C)\<^sup>*\<^sup>* dbc db2"
    using attach_callback_runs [OF assms(1) rtranclp.rtrancl_refl, of dbc s "k + 2" "c_ID c" True url sec sub r0] a
    by simp
  then have "(store_step C)\<^sup>*\<^sup>* dbc db'" using l audit_run [OF assms(1)] by blast
  with that c e CreateRequest_Inr [OF c] show thesis by simp
qed

lemma CreateRequest_row:
  assumes "CreateRequest f f2 now r db = (Inr (r0, True), dbc)"
  shows "\<exists>q \<in> set (location_requests dbc). client_key q = (rq_ClientID r, rq_IdempotencyKey r) \<and> row_id q = rq_ID r
    \<and> row_target_value q = rq_TargetValue r \<and> row_created_at q = utc now"
  using assms
  by (auto simp: CreateRequest_def exec_def Let_def insert_row_def client_key_def split: if_splits sum.splits)

lemma Submit_Inr:
  assumes "Submit s E inp db = (Inr (r, created), db', hs)"
  obtains c db1 sub where "c_ID c = in_ClientID inp" and "db1 = e_gap E 1 (e_gap E 0 db)"
    and "submit_one s E 2 c (in_CallbackURL inp) (in_CallbackSecret inp) [] ''immediate location request''
      (new_request (e_uuid E 2) c (in_IdempotencyKey inp) ServiceImmediate (in_Target inp) (in_LocationType inp)
         (in_Priority inp) (in_QoS inp)) db1 = (Inr (r, created, sub), db', hs)"
proof -
  from assms obtain c svc db1 sub where
    p: "prepare s E 0 (in_ClientID inp) (in_Token inp) (in_IdempotencyKey inp) (in_Service inp) (in_LocationType inp) db
      = (Inr (c, svc), db1)"
    and a: "Authorize c svc (in_Target inp) = None"
    and o: "submit_one s E 2 c (in_CallbackURL inp) (in_CallbackSecret inp) [] ''immediate location request''
             (new_request (e_uuid E 2) c (in_IdempotencyKey inp) svc (in_Target inp) (in_LocationType inp)
                (in_Priority inp) (in_QoS inp)) db1 = (Inr (r, created, sub), db', hs)"
    by (auto simp: Submit_def split: option.splits prod.splits sum.splits)
  from prepare_Inr [OF p a] have "c_ID c = in_ClientID inp" "svc = ServiceImmediate" "db1 = e_gap E 1 (e_gap E 0 db)"
    by simp_all
  with o show thesis by (intro that [of c db1 sub]) simp_all
qed

text \<open>
  C21: Resubmitting is safe: after a submission created a request, and after any run of store operations whose
  purges do not reach back to its creation (no cutoff has a stamp above that of it), a further submission of the same
  client under the same key that is accepted, with no failure of its own insertion, creates nothing and
  returns that request, whatever the other goroutines do meanwhile.
\<close>

theorem resubmit_same_request:
  assumes "store_inv db" and "env_within C E" and "Submit s E inp db = (Inr (r, True), db1, hs)"
    and "(store_step C)\<^sup>*\<^sup>* db1 db2" and "env_within C E2" and "\<not> e_fault E2 2" and "\<not> e_fault E2 3"
    and "Submit s2 E2 inp2 db2 = (Inr (r2, created2), db3, hs2)"
    and "in_ClientID inp2 = in_ClientID inp" and "in_IdempotencyKey inp2 = in_IdempotencyKey inp"
    and "\<forall>before \<in> C. \<not> utc (e_now E 2) < utc before"
  shows "\<not> created2 \<and> rq_ID r2 = rq_ID r \<and> rq_TargetValue r2 = rq_TargetValue r"
proof -
  from assms(3) obtain c db0 sub where c: "c_ID c = in_ClientID inp" and db0: "db0 = e_gap E 1 (e_gap E 0 db)"
    and o: "submit_one s E 2 c (in_CallbackURL inp) (in_CallbackSecret inp) [] ''immediate location request''
      (new_request (e_uuid E 2) c (in_IdempotencyKey inp) ServiceImmediate (in_Target inp) (in_LocationType inp)
         (in_Priority inp) (in_QoS inp)) db0 = (Inr (r, True, sub), db1, hs)"
    by (rule Submit_Inr)
  from submit_one_created [OF assms(2) o] obtain r0 dbc where
    cr: "CreateRequest (e_fault E 2) (e_fault E (2 + 1)) (e_now E 2) (new_request (e_uuid E 2) c (in_IdempotencyKey inp)
      ServiceImmediate (in_Target inp) (in_LocationType inp) (in_Priority inp) (in_QoS inp)) (e_gap E 2 db0) = (Inr (r0, True), dbc)"
    and run1: "(store_step C)\<^sup>*\<^sup>* dbc db1"
    and r: "rq_ID r = e_uuid E 2" "rq_TargetValue r = Value (in_Target inp)"
    by (auto simp: new_request_def)
  have "(store_step C)\<^sup>*\<^sup>* db (e_gap E 2 db0)" unfolding db0 using assms(2) by (intro gap_run) simp_all
  then have ic: "store_inv dbc"
    using run_inv assms(1) step_inv [OF store_step.create [OF cr]] by blast
  from CreateRequest_row [OF cr] obtain q where q: "q \<in> set (location_requests dbc)"
    "client_key q = (in_ClientID inp, in_IdempotencyKey inp)" "row_id q = rq_ID r" "row_target_value q = rq_TargetValue r"
    "row_created_at q = utc (e_now E 2)"
    using c r by (auto simp: new_request_def)
  from assms(8) obtain c2 db02 sub2 where c2: "c_ID c2 = in_ClientID inp2" and db02: "db02 = e_gap E2 1 (e_gap E2 0 db2)"
    and o2: "submit_one s2 E2 2 c2 (in_CallbackURL inp2) (in_CallbackSecret inp2) [] ''immediate location request''
      (new_request (e_uuid E2 2) c2 (in_IdempotencyKey inp2) ServiceImmediate (in_Target inp2) (in_LocationType inp2)
         (in_Priority inp2) (in_QoS inp2)) db02 = (Inr (r2, created2, sub2), db3, hs2)"
    by (rule Submit_Inr)
  let ?db = "e_gap E2 2 db02"
  have "(store_step C)\<^sup>*\<^sup>* dbc ?db" unfolding db02 using assms(5) rtranclp_trans [OF run1 assms(4)] by (intro gap_run) simp_all
  from run_row_or_retired [OF this ic q(1)] run_inv [OF this ic] retired_old [of C dbc ?db q] q(5) assms(11)
  obtain q' where q': "q' \<in> set (location_requests ?db)" "row_reaches q q'" and inv: "requests_inv ?db"
    by (auto simp: store_inv_def)
  from o2 obtain r02 dbc2 where cr2: "CreateRequest (e_fault E2 2) (e_fault E2 (2 + 1)) (e_now E2 2)
      (new_request (e_uuid E2 2) c2 (in_IdempotencyKey inp2) ServiceImmediate (in_Target inp2) (in_LocationType inp2)
         (in_Priority inp2) (in_QoS inp2)) ?db = (Inr (r02, created2), dbc2)"
    and r2: "rq_ID r2 = rq_ID r02" "rq_TargetValue r2 = rq_TargetValue r02"
    by (rule submit_one_Inr)
  have "row_client_id q' = in_ClientID inp2" "row_idempotency_key q' = in_IdempotencyKey inp2"
    using q'(2) q(2) assms(9,10) by (auto simp: row_reaches_def client_key_def)
  with cr2 assms(6,7) c2 CreateRequest_existing [OF inv q'(1), of "new_request (e_uuid E2 2) c2 (in_IdempotencyKey inp2)
      ServiceImmediate (in_Target inp2) (in_LocationType inp2) (in_Priority inp2) (in_QoS inp2)" "e_now E2 2"]
  have "\<not> created2" "r02 = request_of_row q'" by (simp_all add: new_request_def)
  with r2 q q'(2) show ?thesis by (simp add: request_of_row_def row_reaches_def)
qed

lemma sample_resubmit:
  "\<not> isl (fst (Submit sample_service (calm 6) sample_input (fst (snd (Submit sample_service (calm 5) sample_input sample_clients)))))"
  by code_simp

theorem resubmit_same_request_witness:
  "\<exists>r db1 hs r2 db3 hs2. Submit sample_service (calm 5) sample_input sample_clients = (Inr (r, True), db1, hs)
     \<and> Submit sample_service (calm 6) sample_input db1 = (Inr (r2, False), db3, hs2) \<and> rq_ID r2 = rq_ID r"
proof -
  from sample_submit obtain r db1 hs where
    s: "Submit sample_service (calm 5) sample_input sample_clients = (Inr (r, True), db1, hs)" by blast
  obtain res db3 hs2 where s2: "Submit sample_service (calm 6) sample_input db1 = (res, db3, hs2)" by (rule prod_cases3)
  with s sample_resubmit obtain r2 created2 where res: "res = Inr (r2, created2)" by (cases res) auto
  have i: "store_inv sample_clients"
    by (simp add: store_inv_def requests_inv_def outbox_inv_def sample_clients_def sample_db_def empty_db_def key_unique_def)
  have f: "\<not> e_fault (calm 6) 2" "\<not> e_fault (calm 6) 3" by (simp_all add: calm_def)
  have "\<not> utc (e_now (calm 5) 2) < utc (- second)" by (simp add: calm_def utc_def less_stamp_def)
  with resubmit_same_request [where C = "{- second}", OF i alone_ok [OF calm_alone] s rtranclp.rtrancl_refl
      alone_ok [OF calm_alone] f s2 [unfolded res]] have "\<not> created2" "rq_ID r2 = rq_ID r" by simp_all
  with s s2 res show ?thesis by auto
qed

end
