(* ===== verification/GMLC_Orchestrator.thy ===== *)
theory GMLC_Orchestrator
  imports GMLC_Slg GMLC_Service
begin

text \<open>
  The request worker (\<open>internal/orchestrator/orchestrator.go\<close>): one iteration of its loop, from the claim
  of a request through the resolver and the provider to its completion, retry or failure, with the
  completion hook.  The resolver and the provider are arguments, as they are interfaces in the code;
  \<open>ctx\<close> says whether the context of the request was found cancelled at the two places it is asked.
  The loop itself only repeats the iteration and waits; the logging is left out.
\<close>

section \<open>Errors and the completion hook\<close>

datatype work_error = Resolve resolve_error | Provide provide_error

text \<open>\<open>errors.Is\<close> against the three transient errors; the SLh and SLg errors wrap their own kinds only.\<close>

definition transient_transport :: "transport_error \<Rightarrow> bool" where
  "transient_transport e \<longleftrightarrow> e = ErrUnavailable \<or> e = ErrConnectionLost \<or> e = DeadlineExceeded"

definition transient :: "work_error \<Rightarrow> bool" where
  "transient e = (case e of
     Resolve (SlhTransport t) \<Rightarrow> transient_transport t
   | Provide (SlgTransport t) \<Rightarrow> transient_transport t
   | _ \<Rightarrow> False)"

definition maxAttempts :: int where "maxAttempts = 3"

text \<open>The hook is what it does to the store; a notification also records what it was given.\<close>

type_synonym completion_hook = "request \<Rightarrow> loc_result \<Rightarrow> db \<Rightarrow> db"

definition notifyCompletion ::
  "completion_hook option \<Rightarrow> time \<Rightarrow> request \<Rightarrow> state \<Rightarrow> string \<Rightarrow> loc_result \<Rightarrow> db \<Rightarrow> db \<times> (request \<times> loc_result) list" where
  "notifyCompletion onComplete now r st code v db =
     (case onComplete of
        None \<Rightarrow> (db, [])
      | Some h \<Rightarrow>
          (let r = r\<lparr>rq_State := st, rq_FailureCode := code, rq_UpdatedAt := now\<rparr> in (h r v db, [(r, v)])))"

definition fail_and_notify ::
  "completion_hook option \<Rightarrow> env \<Rightarrow> nat \<Rightarrow> request \<Rightarrow> state \<Rightarrow> string \<Rightarrow> string \<Rightarrow> db \<Rightarrow> db \<times> (request \<times> loc_result) list" where
  "fail_and_notify onComplete E k r from code desc db =
     (case FailRequest (e_fault E k) (e_now E k) (rq_ID r) from code desc (e_gap E k db) of
        (Inl _, db) \<Rightarrow> (db, [])
      | (Inr _, db) \<Rightarrow> notifyCompletion onComplete (e_now E k) r StateFailed code no_result db)"

definition handleError ::
  "completion_hook option \<Rightarrow> env \<Rightarrow> nat \<Rightarrow> request \<Rightarrow> int \<Rightarrow> state \<Rightarrow> work_error \<Rightarrow> db \<Rightarrow> db \<times> (request \<times> loc_result) list" where
  "handleError onComplete E k r attempts from e db =
     (if transient e then
        (if attempts \<ge> maxAttempts
         then fail_and_notify onComplete E k r from ''temporarily_unavailable'' ''location service temporarily unavailable'' db
         else
           (let delay = second * 2 ^ nat (attempts - 1) in
            (snd (Requeue (e_fault E k) (e_now E k) (rq_ID r) from (e_now E k + delay) ''temporarily_unavailable''
               (e_gap E k db)), [])))
      else fail_and_notify onComplete E k r from ''network_failure'' ''location request failed'' db)"

section \<open>One iteration\<close>

definition target_of :: "request \<Rightarrow> target" where
  "target_of r = (if rq_TargetKind r = ''imsi'' then \<lparr>IMSI = rq_TargetValue r, MSISDN = []\<rparr>
     else \<lparr>IMSI = [], MSISDN = rq_TargetValue r\<rparr>)"

definition result_of :: "request \<Rightarrow> serving_node \<Rightarrow> positioning_result \<Rightarrow> time \<Rightarrow> loc_result" where
  "result_of r n out now =
     (let pos = pr_Position out in
      \<lparr>rs_RequestID = rq_ID r, rs_RawGAD = pr_RawLocationEstimate out,
       rs_Shape = (case pos of None \<Rightarrow> [] | Some p \<Rightarrow> gp_Shape p), rs_CreatedAt = now,
       rs_Latitude = map_option gp_Latitude pos, rs_Longitude = map_option gp_Longitude pos,
       rs_UncertaintyMeters = Option.bind pos gp_UncertaintyMeters,
       rs_SemiMajorMeters = Option.bind pos gp_SemiMajorMeters,
       rs_SemiMinorMeters = Option.bind pos gp_SemiMinorMeters,
       rs_OrientationDegrees = Option.bind pos gp_OrientationDegrees,
       rs_ConfidencePercent = Option.bind pos gp_ConfidencePercent,
       rs_AgeOfLocationEstimate = pr_AgeOfLocationEstimate out, rs_AccuracyFulfilment = pr_AccuracyFulfilment out,
       rs_RawVelocityEstimate = pr_RawVelocityEstimate out, rs_EUTRANPositioningData = pr_EUTRANPositioningData out,
       rs_ECGI = pr_ECGI out, rs_Source = sn_Source n\<rparr>)"

text \<open>What follows a positioning result.\<close>

definition finish ::
  "completion_hook option \<Rightarrow> env \<Rightarrow> request \<Rightarrow> serving_node \<Rightarrow> positioning_result \<Rightarrow> db \<Rightarrow> db \<times> (request \<times> loc_result) list" where
  "finish onComplete E r n out db =
     (if pr_Kind out = NoImmediateResult \<or> pr_Kind out = Deferred
      then fail_and_notify onComplete E 5 r StateLocating ''no_immediate_result''
             ''PLA returned no immediate positioning result'' db
      else
        (let v = result_of r n out (e_now E 5) in
         case CompleteRequest (e_fault E 5) (e_now E 5) (rq_ID r) v (e_gap E 5 db) of
           (Inl _, db) \<Rightarrow> (db, [])
         | (Inr _, db) \<Rightarrow>
             (let db = (if rs_Latitude v \<noteq> None \<and> rs_Longitude v \<noteq> None
                  then snd (RecordHistory (e_fault E 6) (e_uuid E 6) (rq_TargetKind r) (rq_TargetValue r) v (e_gap E 6 db))
                  else db)
              in notifyCompletion onComplete (e_now E 7) r StateCompleted [] v db)))"

definition requeue_interrupted :: "env \<Rightarrow> nat \<Rightarrow> request \<Rightarrow> state \<Rightarrow> db \<Rightarrow> db" where
  "requeue_interrupted E k r from db =
     snd (Requeue (e_fault E k) (e_now E k) (rq_ID r) from (e_now E k) ''shutdown_interrupted'' (e_gap E k db))"

text \<open>
  The client type and privacy check the request is positioned with: the stored client's, or the
  defaults when the client cannot be read.
\<close>

definition client_terms :: "bool \<Rightarrow> string \<Rightarrow> db \<Rightarrow> u32 \<times> u32 option" where
  "client_terms fault clientID db =
     (case GetClientCredential fault clientID db of
        Inr c \<Rightarrow> (c_LCSClientType c, Some (c_LCSPrivacyCheck c))
      | Inl _ \<Rightarrow> (ClientTypeValueAddedServices, None))"

definition location_request_of :: "request \<Rightarrow> u32 \<times> u32 option \<Rightarrow> location_request" where
  "location_request_of r terms =
     \<lparr>lr_Target = target_of r, lr_LocationType = rq_LocationType r, lr_ClientType = fst terms,
      lr_ClientName = rq_ClientID r, lr_RequestorName = [], lr_ServiceTypeID = None,
      lr_Priority = rq_Priority r, lr_VelocityRequested = False, lr_QoS = rq_QoS r, lr_PrivacyCheck = snd terms\<rparr>"

text \<open>The iteration from the point where the serving node is known and the request is locating.\<close>

definition position ::
  "completion_hook option \<Rightarrow> env \<Rightarrow> (nat \<Rightarrow> bool)
     \<Rightarrow> (serving_node \<Rightarrow> location_request \<Rightarrow> provide_error + positioning_result) \<Rightarrow> request \<Rightarrow> serving_node \<Rightarrow> db
     \<Rightarrow> db \<times> (request \<times> loc_result) list" where
  "position onComplete E ctx provider r n db =
     (let db = e_gap E 3 db in
      case provider n (location_request_of r (client_terms (e_fault E 3) (rq_ClientID r) db)) of
        Inl e \<Rightarrow>
          (if ctx 1 then (requeue_interrupted E 4 r StateLocating db, [])
           else handleError onComplete E 4 r (rq_AttemptCount r) StateLocating (Provide e) db)
      | Inr out \<Rightarrow> finish onComplete E r n out db)"

definition one ::
  "completion_hook option \<Rightarrow> env \<Rightarrow> (nat \<Rightarrow> bool) \<Rightarrow> (target \<Rightarrow> resolve_error + serving_node)
     \<Rightarrow> (serving_node \<Rightarrow> location_request \<Rightarrow> provide_error + positioning_result) \<Rightarrow> db
     \<Rightarrow> bool \<times> db \<times> (request \<times> loc_result) list" where
  "one onComplete E ctx resolver provider db =
     (case ClaimNextQueued (e_fault E 0) (e_now E 0) (e_gap E 0 db) of
        (Inl _, db) \<Rightarrow> (False, db, [])
      | (Inr None, db) \<Rightarrow> (False, db, [])
      | (Inr (Some r), db) \<Rightarrow>
     (case resolver (target_of r) of
        Inl e \<Rightarrow>
          (if ctx 0 then (True, requeue_interrupted E 1 r StateResolving db, [])
           else (True, handleError onComplete E 1 r (rq_AttemptCount r) StateResolving (Resolve e) db))
      | Inr n \<Rightarrow>
     (case SaveServingNodeAndLocate (e_fault E 2) (e_now E 2) (rq_ID r) n (e_gap E 2 db) of
        (Inl _, db) \<Rightarrow> (True, db, [])
      | (Inr _, db) \<Rightarrow> (True, position onComplete E ctx provider r n db))))"

text \<open>
  The completion hook of \<open>cmd/gmlc/main.go\<close>: a request with a subscription gets a delivery of its JSON
  text; \<open>marshal\<close> is the JSON encoder.
\<close>

definition completionHook :: "env \<Rightarrow> nat \<Rightarrow> (request \<Rightarrow> loc_result \<Rightarrow> bytes option) \<Rightarrow> completion_hook" where
  "completionHook E k marshal r v db =
     (case rq_SubscriptionID r of
        None \<Rightarrow> db
      | Some s \<Rightarrow>
          (case marshal r v of
             None \<Rightarrow> db
           | Some payload \<Rightarrow> snd (CreateDelivery (e_fault E k) (e_now E k) (e_uuid E k) s payload (e_gap E k db))))"

section \<open>The worker is a store program\<close>

definition hook_within :: "time set \<Rightarrow> completion_hook option \<Rightarrow> bool" where
  "hook_within C h \<longleftrightarrow> (case h of None \<Rightarrow> True | Some h \<Rightarrow> \<forall>r v db. (store_step C)\<^sup>*\<^sup>* db (h r v db))"

lemma notify_runs:
  "hook_within C h \<Longrightarrow> (store_step C)\<^sup>*\<^sup>* db0 db \<Longrightarrow> (store_step C)\<^sup>*\<^sup>* db0 (fst (notifyCompletion h now r st code v db))"
  unfolding notifyCompletion_def hook_within_def by (auto simp: Let_def split: option.splits intro: rtranclp_trans)

lemma fail_and_notify_runs:
  assumes "env_within C E" and "hook_within C h" and "from = StateResolving \<or> from = StateLocating" and "(store_step C)\<^sup>*\<^sup>* db0 db"
  shows "(store_step C)\<^sup>*\<^sup>* db0 (fst (fail_and_notify h E k r from code desc db))"
proof -
  obtain res db1 where f: "FailRequest (e_fault E k) (e_now E k) (rq_ID r) from code desc (e_gap E k db) = (res, db1)"
    by force
  have s: "(store_step C)\<^sup>*\<^sup>* db0 db1" by (rule op_run [OF assms(1) store_step.fail [OF assms(3) f] assms(4)])
  from notify_runs [OF assms(2) s] f s show ?thesis by (cases res) (auto simp: fail_and_notify_def)
qed

lemma requeue_runs:
  assumes "env_within C E" and "from = StateResolving \<or> from = StateLocating" and "(store_step C)\<^sup>*\<^sup>* db0 db"
  shows "(store_step C)\<^sup>*\<^sup>* db0 (snd (Requeue f t i from nxt code (e_gap E k db)))"
  by (rule op_run [OF assms(1) store_step.requeue [OF assms(2)] assms(3)]) (rule prod.collapse [symmetric])

lemma handleError_runs:
  assumes "env_within C E" and "hook_within C h" and "from = StateResolving \<or> from = StateLocating" and "(store_step C)\<^sup>*\<^sup>* db0 db"
  shows "(store_step C)\<^sup>*\<^sup>* db0 (fst (handleError h E k r a from e db))"
  unfolding handleError_def using fail_and_notify_runs [OF assms] requeue_runs [OF assms(1,3,4)]
  by (simp add: Let_def)

lemma finish_runs:
  assumes "env_within C E" and "hook_within C h" and "(store_step C)\<^sup>*\<^sup>* db0 db"
  shows "(store_step C)\<^sup>*\<^sup>* db0 (fst (finish h E r n out db))"
proof -
  let ?v = "result_of r n out (e_now E 5)"
  obtain res db1 where c: "CompleteRequest (e_fault E 5) (e_now E 5) (rq_ID r) ?v (e_gap E 5 db) = (res, db1)" by force
  have s: "(store_step C)\<^sup>*\<^sup>* db0 db1" by (rule op_run [OF assms(1) store_step.complete [OF c] assms(3)])
  have "(store_step C)\<^sup>*\<^sup>* db0 (snd (RecordHistory f u kind val v (e_gap E 6 db1)))" for f u kind val v
    by (rule op_run [OF assms(1) store_step.record_history s]) (rule prod.collapse [symmetric])
  with notify_runs [OF assms(2)] s c fail_and_notify_runs [OF assms(1,2) _ assms(3), of StateLocating] show ?thesis
    by (cases res) (auto simp: finish_def Let_def)
qed

lemma position_runs:
  assumes "env_within C E" and "hook_within C h" and "(store_step C)\<^sup>*\<^sup>* db0 db"
  shows "(store_step C)\<^sup>*\<^sup>* db0 (fst (position h E ctx provider r n db))"
  using gap_run [OF assms(1,3), of 3] handleError_runs [OF assms(1,2)] requeue_runs [OF assms(1)] finish_runs [OF assms(1,2)]
  by (simp add: position_def requeue_interrupted_def Let_def split: sum.split)

lemma one_runs:
  assumes "env_within C E" and "hook_within C h"
  shows "(store_step C)\<^sup>*\<^sup>* db (fst (snd (one h E ctx resolver provider db)))"
proof -
  obtain res db1 where c: "ClaimNextQueued (e_fault E 0) (e_now E 0) (e_gap E 0 db) = (res, db1)" by force
  have s1: "(store_step C)\<^sup>*\<^sup>* db db1" by (rule op_run [OF assms(1) store_step.claim [OF c]]) simp
  have s2: "(store_step C)\<^sup>*\<^sup>* db db2"
    if "SaveServingNodeAndLocate (e_fault E 2) (e_now E 2) i n (e_gap E 2 db1) = (x, db2)" for i n x db2
    by (rule op_run [OF assms(1) store_step.locate [OF that] s1])
  show ?thesis
  proof (cases "\<exists>r. res = Inr (Some r)")
    case False
    with c s1 show ?thesis by (auto simp: one_def split: sum.splits option.splits)
  next
    case True
    then obtain r where r: "res = Inr (Some r)" by blast
    show ?thesis
    proof (cases "resolver (target_of r)")
      case (Inl e)
      with c r handleError_runs [OF assms _ s1] requeue_runs [OF assms(1) _ s1] show ?thesis
        by (simp add: one_def requeue_interrupted_def)
    next
      case (Inr n)
      obtain x db2 where l: "SaveServingNodeAndLocate (e_fault E 2) (e_now E 2) (rq_ID r) n (e_gap E 2 db1) = (x, db2)"
        by force
      have s2: "(store_step C)\<^sup>*\<^sup>* db db2" by (rule op_run [OF assms(1) store_step.locate [OF l] s1])
      from c r Inr l s2 position_runs [OF assms s2] show ?thesis by (cases x) (simp_all add: one_def)
    qed
  qed
qed

interpretation worker: store_program "\<lambda>(h, E, ctx, resolver, provider) db. fst (snd (one h E ctx resolver provider db))"
  "\<lambda>C (h, E, ctx, resolver, provider). env_within C E \<and> hook_within C h"
  by unfold_locales (auto intro: one_runs)

lemma completionHook_ok: "env_within C E \<Longrightarrow> hook_within C (Some (completionHook E k marshal))"
proof -
  assume e: "env_within C E"
  have "(store_step C)\<^sup>*\<^sup>* db (snd (CreateDelivery f t u s p (e_gap E k db)))" for f t u s p db
    by (rule op_run [OF e store_step.create_del rtranclp.rtrancl_refl]) (rule prod.collapse [symmetric])
  then show ?thesis by (simp add: hook_within_def completionHook_def split: option.split)
qed

section \<open>What one iteration does to the request it claims\<close>

text \<open>
  The decision of an iteration, apart from the store: come back after a delay, fail with a code, or
  complete with a result.
\<close>

datatype verdict = Later duration string | Fail string | Done loc_result

definition on_error :: "int \<Rightarrow> work_error \<Rightarrow> verdict" where
  "on_error attempts e =
     (if \<not> transient e then Fail ''network_failure''
      else if attempts < maxAttempts then Later (second * 2 ^ nat (attempts - 1)) ''temporarily_unavailable''
      else Fail ''temporarily_unavailable'')"

definition verdict_of ::
  "(nat \<Rightarrow> bool) \<Rightarrow> (target \<Rightarrow> resolve_error + serving_node)
     \<Rightarrow> (serving_node \<Rightarrow> location_request \<Rightarrow> provide_error + positioning_result) \<Rightarrow> u32 \<times> u32 option \<Rightarrow> request \<Rightarrow> time
     \<Rightarrow> verdict" where
  "verdict_of ctx resolver provider terms r now =
     (case resolver (target_of r) of
        Inl e \<Rightarrow> if ctx 0 then Later 0 ''shutdown_interrupted'' else on_error (rq_AttemptCount r) (Resolve e)
      | Inr n \<Rightarrow>
          (case provider n (location_request_of r terms) of
             Inl e \<Rightarrow> if ctx 1 then Later 0 ''shutdown_interrupted'' else on_error (rq_AttemptCount r) (Provide e)
           | Inr out \<Rightarrow>
               if pr_Kind out \<in> {NoImmediateResult, Deferred} then Fail ''no_immediate_result''
               else Done (result_of r n out now)))"

text \<open>What a decision leaves: the row of the request, and the notification.\<close>

definition settled :: "completion_hook option \<Rightarrow> request \<Rightarrow> verdict \<Rightarrow> time \<Rightarrow> request_row \<Rightarrow> (request \<times> loc_result) list \<Rightarrow> bool" where
  "settled h r d now q ns \<longleftrightarrow>
     (case d of
        Later delay code \<Rightarrow> row_state q = StateQueued \<and> row_next_attempt_at q = Some (utc (now + delay))
          \<and> row_failure_code q = code \<and> ns = []
      | Fail code \<Rightarrow> row_state q = StateFailed \<and> row_failure_code q = code
          \<and> (h \<noteq> None \<longrightarrow> ns = [(r\<lparr>rq_State := StateFailed, rq_FailureCode := code, rq_UpdatedAt := now\<rparr>, no_result)])
      | Done v \<Rightarrow> row_state q = StateCompleted
          \<and> (h \<noteq> None \<longrightarrow> (\<exists>t. ns = [(r\<lparr>rq_State := StateCompleted, rq_FailureCode := [], rq_UpdatedAt := t\<rparr>, v)])))"

text \<open>One row of the table has become \<open>q'\<close>, all the others and the clients are as they were.\<close>

definition put :: "request_row \<Rightarrow> request_row list \<Rightarrow> request_row list" where
  "put q' rows = map (\<lambda>p. if row_id p = row_id q' then q' else p) rows"

definition moved :: "request_row \<Rightarrow> db \<Rightarrow> db \<Rightarrow> bool" where
  "moved q' db db' \<longleftrightarrow> requests_inv db' \<and> location_requests db' = put q' (location_requests db)
     \<and> row_by row_id (row_id q') (location_requests db') = Some q' \<and> lcs_clients db' = lcs_clients db"

lemma put_put: "row_id q1 = row_id q2 \<Longrightarrow> put q2 (put q1 rows) = put q2 rows"
  by (auto simp: put_def)

lemma moved_trans: "moved q1 db db1 \<Longrightarrow> moved q2 db1 db2 \<Longrightarrow> row_id q2 = row_id q1 \<Longrightarrow> moved q2 db db2"
  unfolding moved_def by (metis put_put)

lemma moved_same: "moved q db db1 \<Longrightarrow> requests_same db1 db2 \<Longrightarrow> moved q db db2"
  using requests_same_kept [of db1 db2] by (auto simp: moved_def requests_same_def kept_def)

lemma moved_guarded:
  assumes "request_update f (guarded (row_id q) (row_state q))" and "requests_inv db"
    and "row_by row_id (row_id q) (location_requests db) = Some q"
  obtains db' where "update_guarded (row_id q) (row_state q) f db = (Inr (), db')" and "moved (f q) db db'"
    and "row_id (f q) = row_id q" and "location_results db' = location_results db"
proof
  let ?db = "update_requests (guarded (row_id q) (row_state q)) f db"
  show u: "update_guarded (row_id q) (row_state q) f db = (Inr (), ?db)"
    using update_guarded_spec [OF assms(1,2)] assms(3) by simp
  show i: "row_id (f q) = row_id q" using keyed_update.key_kept [OF request_update.axioms(1) [OF assms(1)]] .
  have only: "p = q" if "p \<in> set (location_requests db)" "row_id p = row_id q" for p
    using row_by_unique [OF requests_inv_unique [OF assms(2)] that(1)] assms(3) that(2) by (metis option.inject)
  have "update_where (guarded (row_id q) (row_state q)) f (location_requests db) = put (f q) (location_requests db)"
    unfolding update_where_def put_def i by (intro map_cong refl) (auto simp: guarded_def dest: only)
  then show "moved (f q) db ?db"
    using update_guarded_kept [OF assms(1,2) u] row_after_guarded [OF assms(1,3)] i
    by (simp add: moved_def kept_def update_requests_def)
  show "location_results ?db = location_results db" by (simp add: update_requests_def)
qed

section \<open>The steps of an undisturbed iteration\<close>

definition hook_quiet :: "completion_hook option \<Rightarrow> bool" where
  "hook_quiet h \<longleftrightarrow> (case h of None \<Rightarrow> True | Some h \<Rightarrow> \<forall>r v db. requests_same db (h r v db))"

lemma completionHook_quiet: "alone E \<Longrightarrow> hook_quiet (Some (completionHook E k marshal))"
proof -
  have "requests_same db (snd (CreateDelivery f t u s p db))" for f t u s p db
    by (rule outbox_frames(2)) (rule prod.collapse [symmetric])
  then show "alone E \<Longrightarrow> ?thesis" by (simp add: hook_quiet_def completionHook_def split: option.split)
qed

lemma notify_quiet: "hook_quiet h \<Longrightarrow> requests_same db (fst (notifyCompletion h now r st code v db))"
  by (simp add: notifyCompletion_def hook_quiet_def Let_def split: option.splits)

lemma notify_list:
  "snd (notifyCompletion h now r st code v db) =
     (if h = None then [] else [(r\<lparr>rq_State := st, rq_FailureCode := code, rq_UpdatedAt := now\<rparr>, v)])"
  by (simp add: notifyCompletion_def Let_def split: option.splits)

definition undisturbed :: "env \<Rightarrow> bool" where
  "undisturbed E \<longleftrightarrow> alone E \<and> (\<forall>k. \<not> e_fault E k)"

lemma undisturbed_simps [simp]: "undisturbed E \<Longrightarrow> e_gap E k db = db" "undisturbed E \<Longrightarrow> \<not> e_fault E k"
  by (simp_all add: undisturbed_def)

text \<open>The claimed row \<open>q\<close> of request \<open>r\<close>, worked on in state \<open>q\<close> is in.\<close>

definition working :: "request \<Rightarrow> request_row \<Rightarrow> db \<Rightarrow> bool" where
  "working r q db \<longleftrightarrow> requests_inv db \<and> row_id q = rq_ID r \<and> interrupted q
     \<and> row_by row_id (row_id q) (location_requests db) = Some q"

lemma workingD:
  "working r q db \<Longrightarrow> requests_inv db"
  "working r q db \<Longrightarrow> row_by row_id (row_id q) (location_requests db) = Some q"
  unfolding working_def by blast+

text \<open>The row is settled, and only it has changed since \<open>db\<close>.\<close>

definition leaves ::
  "completion_hook option \<Rightarrow> request \<Rightarrow> request_row \<Rightarrow> verdict \<Rightarrow> time \<Rightarrow> db \<Rightarrow> db \<times> (request \<times> loc_result) list \<Rightarrow> bool" where
  "leaves h r q d now db res \<longleftrightarrow>
     (\<exists>q'. moved q' db (fst res) \<and> row_id q' = row_id q \<and> row_attempt_count q' = row_attempt_count q
        \<and> settled h r d now q' (snd res)
        \<and> (\<forall>v. d = Done v \<longrightarrow> GetResult False (rq_ID r) (fst res) = Inr (v\<lparr>rs_RequestID := rq_ID r\<rparr>)))"

lemma fail_leaves:
  assumes "undisturbed E" and "hook_quiet h" and "working r q db"
  shows "leaves h r q (Fail code) (e_now E k) db (fail_and_notify h E k r (row_state q) code desc db)"
proof -
  let ?f = "set_failed code desc (utc (e_now E k))"
  have "request_update ?f (guarded (row_id q) (row_state q))"
    using assms(3) by (intro set_failed_update) (auto simp: working_def interrupted_def)
  from this workingD(1,2) [OF assms(3)] obtain db' where u: "update_guarded (row_id q) (row_state q) ?f db = (Inr (), db')"
    and m: "moved (?f q) db db'" by (rule moved_guarded)
  have n: "moved (?f q) db (fst (notifyCompletion h (e_now E k) r StateFailed code no_result db'))"
    using moved_same [OF m notify_quiet [OF assms(2)]] .
  from u assms(1,3) have e: "fail_and_notify h E k r (row_state q) code desc db =
      notifyCompletion h (e_now E k) r StateFailed code no_result db'"
    by (simp add: fail_and_notify_def FailRequest_def working_def)
  show ?thesis
    unfolding leaves_def e using n
    by (intro exI [of _ "?f q"]) (auto simp: settled_def notify_list set_failed_def)
qed

lemma requeue_leaves:
  assumes "undisturbed E" and "working r q db"
  shows "leaves h r q (Later delay code) (e_now E k) db
    (snd (Requeue (e_fault E k) (e_now E k) (rq_ID r) (row_state q) (e_now E k + delay) code (e_gap E k db)), [])"
proof -
  let ?f = "set_requeued (utc (e_now E k + delay)) code (utc (e_now E k))"
  have "request_update ?f (guarded (row_id q) (row_state q))"
    using assms(2) by (intro set_requeued_update) (auto simp: working_def interrupted_def)
  from this workingD(1,2) [OF assms(2)] obtain db' where u: "update_guarded (row_id q) (row_state q) ?f db = (Inr (), db')"
    and m: "moved (?f q) db db'" by (rule moved_guarded)
  from u assms have e: "Requeue (e_fault E k) (e_now E k) (rq_ID r) (row_state q) (e_now E k + delay) code (e_gap E k db) = (Inr (), db')"
    by (simp add: Requeue_def working_def)
  show ?thesis
    unfolding leaves_def e using m
    by (intro exI [of _ "?f q"]) (auto simp: settled_def set_requeued_def)
qed

lemma handleError_leaves:
  assumes "undisturbed E" and "hook_quiet h" and "working r q db"
  shows "leaves h r q (on_error a e) (e_now E k) db (handleError h E k r a (row_state q) e db)"
  using fail_leaves [OF assms] requeue_leaves [OF assms(1,3)]
  by (simp add: handleError_def on_error_def Let_def)

lemma interrupted_leaves:
  assumes "undisturbed E" and "working r q db"
  shows "leaves h r q (Later 0 ''shutdown_interrupted'') (e_now E k) db (requeue_interrupted E k r (row_state q) db, [])"
  using requeue_leaves [OF assms, of h 0 _ k] by (simp add: requeue_interrupted_def)

lemma moved_frame:
  "moved q db db1 \<Longrightarrow> requests_inv db2 \<Longrightarrow> location_requests db2 = location_requests db1
     \<Longrightarrow> lcs_clients db2 = lcs_clients db1 \<Longrightarrow> moved q db db2"
  unfolding moved_def by metis

lemma complete_moves:
  assumes "working r q db" and "row_state q = StateLocating"
  obtains db' q' where "CompleteRequest False now (rq_ID r) v db = (Inr (), db')" and "moved q' db db'"
    and "row_id q' = row_id q" and "row_state q' = StateCompleted" and "row_attempt_count q' = row_attempt_count q"
    and "GetResult False (rq_ID r) db' = Inr (v\<lparr>rs_RequestID := rq_ID r\<rparr>)"
proof -
  let ?f = "set_completed (utc now)"
  from assms have i: "rq_ID r = row_id q" by (simp add: working_def)
  have "request_update ?f (guarded (row_id q) (row_state q))"
    unfolding assms(2) by (rule set_completed.request_update_axioms)
  from this workingD [OF assms(1)] obtain db1 where u: "update_guarded (row_id q) (row_state q) ?f db = (Inr (), db1)"
    and m: "moved (?f q) db db1" by (rule moved_guarded)
  let ?db = "db1\<lparr>location_results := upsert res_request_id (result_row_of (rq_ID r) v) (location_results db1)\<rparr>"
  have c: "CompleteRequest False now (rq_ID r) v db = (Inr (), ?db)"
    using u unfolding assms(2) i by (simp add: CompleteRequest_def transact_def)
  have "requests_inv ?db" using CompleteRequest_kept [OF c workingD(1) [OF assms(1)]] by (simp add: kept_def)
  with m have "moved (?f q) db ?db" by (rule moved_frame) simp_all
  with c show ?thesis
    by (rule that) (simp_all add: set_completed_def GetResult_def upsert_row result_row_of_def)
qed

lemma finish_leaves:
  assumes "undisturbed E" and "hook_quiet h" and "working r q db" and "row_state q = StateLocating"
  shows "leaves h r q (if pr_Kind out \<in> {NoImmediateResult, Deferred} then Fail ''no_immediate_result''
      else Done (result_of r n out (e_now E 5))) (e_now E 5) db (finish h E r n out db)"
proof (cases "pr_Kind out \<in> {NoImmediateResult, Deferred}")
  case True
  with fail_leaves [OF assms(1-3), of "''no_immediate_result''" 5 "''PLA returned no immediate positioning result''"] assms(4)
  show ?thesis by (auto simp: finish_def)
next
  case False
  define v where "v = result_of r n out (e_now E 5)"
  from assms(3,4) obtain db1 q' where c: "CompleteRequest False (e_now E 5) (rq_ID r) v db = (Inr (), db1)"
    and m: "moved q' db db1" and q': "row_id q' = row_id q" "row_state q' = StateCompleted"
      "row_attempt_count q' = row_attempt_count q"
    and g: "GetResult False (rq_ID r) db1 = Inr (v\<lparr>rs_RequestID := rq_ID r\<rparr>)" by (rule complete_moves)
  define db2 where "db2 = (if rs_Latitude v \<noteq> None \<and> rs_Longitude v \<noteq> None
    then snd (RecordHistory False (e_uuid E 6) (rq_TargetKind r) (rq_TargetValue r) v db1) else db1)"
  have "requests_same db1 (snd (RecordHistory f u k w v db1))" for f u k w
    using other_frames(4) prod.collapse [symmetric] by blast
  then have s2: "requests_same db1 db2" by (simp add: db2_def)
  define res where "res = notifyCompletion h (e_now E 7) r StateCompleted [] v db2"
  have s3: "requests_same db2 (fst res)" unfolding res_def by (rule notify_quiet [OF assms(2)])
  have "moved q' db (fst res)" by (rule moved_same [OF moved_same [OF m s2] s3])
  moreover have "GetResult False (rq_ID r) (fst res) = Inr (v\<lparr>rs_RequestID := rq_ID r\<rparr>)"
    using g s2 s3 by (simp add: GetResult_def requests_same_def)
  moreover have "finish h E r n out db = res"
    using False c assms(1) by (simp add: finish_def res_def db2_def v_def Let_def)
  moreover have "settled h r (Done v) (e_now E 5) q' (snd res)"
    using q' by (auto simp: settled_def res_def notify_list)
  ultimately show ?thesis
    unfolding leaves_def using False q' by (intro exI [of _ q']) (simp add: v_def)
qed

lemma position_leaves:
  assumes "undisturbed E" and "hook_quiet h" and "working r q db" and "row_state q = StateLocating"
  shows "\<exists>k. leaves h r q
    (case provider n (location_request_of r (client_terms False (rq_ClientID r) db)) of
       Inl e \<Rightarrow> if ctx 1 then Later 0 ''shutdown_interrupted'' else on_error (rq_AttemptCount r) (Provide e)
     | Inr out \<Rightarrow> if pr_Kind out \<in> {NoImmediateResult, Deferred} then Fail ''no_immediate_result''
         else Done (result_of r n out (e_now E 5)))
    (e_now E k) db (position h E ctx provider r n db)"
proof (cases "provider n (location_request_of r (client_terms False (rq_ClientID r) db))")
  case (Inl e)
  with handleError_leaves [OF assms(1-3), of _ _ 4] interrupted_leaves [OF assms(1,3), of h 4] assms(1,4) show ?thesis
    by (intro exI [of _ 4]) (simp add: position_def)
next
  case (Inr out)
  with finish_leaves [OF assms, of out n] assms(1) show ?thesis
    by (intro exI [of _ 5]) (simp add: position_def)
qed

lemma working_moved: "moved q' db db' \<Longrightarrow> row_id q' = rq_ID r \<Longrightarrow> interrupted q' \<Longrightarrow> working r q' db'"
  unfolding working_def moved_def by blast

lemma leaves_moved:
  "leaves h r q1 d now db1 res \<Longrightarrow> moved q1 db db1 \<Longrightarrow> leaves h r q1 d now db res"
  unfolding leaves_def by (meson moved_trans)

lemma locate_moves:
  assumes "working r q db" and "row_state q = StateResolving"
  obtains db' q' where "SaveServingNodeAndLocate False now (rq_ID r) n db = (Inr (), db')" and "moved q' db db'"
    and "row_id q' = row_id q" and "row_state q' = StateLocating" and "row_attempt_count q' = row_attempt_count q"
proof -
  let ?f = "set_locating (utc now)"
  from assms have i: "rq_ID r = row_id q" by (simp add: working_def)
  have "request_update ?f (guarded (row_id q) (row_state q))"
    unfolding assms(2) by (rule set_locating.request_update_axioms)
  from this workingD [OF assms(1)] obtain db1 where u: "update_guarded (row_id q) (row_state q) ?f db = (Inr (), db1)"
    and m: "moved (?f q) db db1" by (rule moved_guarded)
  let ?db = "db1\<lparr>request_serving_nodes := upsert node_request_id (node_row_of (rq_ID r) n) (request_serving_nodes db1)\<rparr>"
  have c: "SaveServingNodeAndLocate False now (rq_ID r) n db = (Inr (), ?db)"
    using u unfolding assms(2) i by (simp add: SaveServingNodeAndLocate_def transact_def)
  have "requests_inv ?db" using SaveServingNodeAndLocate_kept [OF c workingD(1) [OF assms(1)]] by (simp add: kept_def)
  with m have "moved (?f q) db ?db" by (rule moved_frame) simp_all
  with c show ?thesis by (rule that) (simp_all add: set_locating_def)
qed

text \<open>The whole iteration after a claim.\<close>

lemma claimed_leaves:
  assumes "undisturbed E" and "hook_quiet h" and "requests_inv db"
    and "first_by request_order (filter (claimable (utc (e_now E 0))) (location_requests db)) = Some q"
  defines "q1 \<equiv> set_claimed (utc (e_now E 0)) q"
  shows "\<exists>res k. one h E ctx resolver provider db = (True, res)
    \<and> leaves h (request_of_row q1) q1
        (verdict_of ctx resolver provider (client_terms False (row_client_id q) db) (request_of_row q1) (e_now E 5))
        (e_now E k) db res"
proof -
  define r where "r = request_of_row q1"
  let ?db = "update_requests (guarded (row_id q) StateQueued) (set_claimed (utc (e_now E 0))) db"
  from ClaimNextQueued_eq [OF assms(3), of "e_now E 0"] assms(4)
  have c: "ClaimNextQueued False (e_now E 0) db = (Inr (Some r), ?db)" by (simp add: r_def q1_def)
  note p = request_queue.picked [OF assms(4)]
  have rb: "row_by row_id (row_id q) (location_requests db) = Some q"
    using p row_by_unique [OF requests_inv_unique [OF assms(3)]] by simp
  have st: "row_state q = StateQueued" using p by simp
  have "request_update (set_claimed (utc (e_now E 0))) (guarded (row_id q) (row_state q))"
    unfolding st by (rule set_claimed.request_update_axioms)
  from this assms(3) rb obtain db1 where u: "update_guarded (row_id q) (row_state q) (set_claimed (utc (e_now E 0))) db = (Inr (), db1)"
    and m1: "moved q1 db db1" unfolding q1_def by (rule moved_guarded)
  from u have "db1 = ?db" unfolding st by (simp add: update_guarded_def Let_def split: if_splits)
  with m1 have m: "moved q1 db ?db" by simp
  have q1: "row_id q1 = rq_ID r" "row_state q1 = StateResolving" "rq_ClientID r = row_client_id q" "interrupted q1"
    by (simp_all add: q1_def r_def request_of_row_def set_claimed_def interrupted_def)
  have w: "working r q1 ?db" using working_moved [OF m] q1 by simp
  show ?thesis
  proof (cases "resolver (target_of r)")
    case (Inl e)
    have "leaves h r q1 (if ctx 0 then Later 0 ''shutdown_interrupted'' else on_error (rq_AttemptCount r) (Resolve e))
        (e_now E 1) db (if ctx 0 then (requeue_interrupted E 1 r StateResolving ?db, [])
          else handleError h E 1 r (rq_AttemptCount r) StateResolving (Resolve e) ?db)"
      using leaves_moved [OF handleError_leaves [OF assms(1,2) w] m] leaves_moved [OF interrupted_leaves [OF assms(1) w] m]
      by (simp add: q1(2))
    moreover have "one h E ctx resolver provider db = (True, if ctx 0 then (requeue_interrupted E 1 r StateResolving ?db, [])
          else handleError h E 1 r (rq_AttemptCount r) StateResolving (Resolve e) ?db)"
      using c Inl assms(1) by (simp add: one_def)
    moreover have "verdict_of ctx resolver provider terms r now =
        (if ctx 0 then Later 0 ''shutdown_interrupted'' else on_error (rq_AttemptCount r) (Resolve e))" for terms now
      using Inl by (simp add: verdict_of_def)
    ultimately show ?thesis unfolding r_def [symmetric] by (intro exI conjI) simp_all
  next
    case (Inr n)
    from w q1(2) obtain db2 q2 where l: "SaveServingNodeAndLocate False (e_now E 2) (rq_ID r) n ?db = (Inr (), db2)"
      and m2: "moved q2 ?db db2" and q2: "row_id q2 = row_id q1" "row_state q2 = StateLocating"
        "row_attempt_count q2 = row_attempt_count q1" by (rule locate_moves)
    have w2: "working r q2 db2" using working_moved [OF m2] q1 q2 by (simp add: interrupted_def)
    have "client_terms False (rq_ClientID r) db2 = client_terms False (row_client_id q) db"
      using m m2 q1(3) by (simp add: client_terms_def GetClientCredential_def moved_def)
    with position_leaves [OF assms(1,2) w2 q2(2), where provider = provider and n = n and ctx = ctx] obtain k where
      k: "leaves h r q2 (verdict_of ctx resolver provider (client_terms False (row_client_id q) db) r (e_now E 5))
        (e_now E k) db2 (position h E ctx provider r n db2)"
      using Inr by (auto simp: verdict_of_def)
    have "leaves h r q2 (verdict_of ctx resolver provider (client_terms False (row_client_id q) db) r (e_now E 5))
        (e_now E k) db (position h E ctx provider r n db2)"
      by (rule leaves_moved [OF k moved_trans [OF m m2 q2(1)]])
    then have "leaves h r q1 (verdict_of ctx resolver provider (client_terms False (row_client_id q) db) r (e_now E 5))
        (e_now E k) db (position h E ctx provider r n db2)"
      unfolding leaves_def q2(1) q2(3) .
    moreover have "one h E ctx resolver provider db = (True, position h E ctx provider r n db2)"
      using c Inr l assms(1) by (simp add: one_def)
    ultimately show ?thesis unfolding r_def [symmetric] by (intro exI conjI)
  qed
qed

lemma idle:
  assumes "undisturbed E" and "requests_inv db"
    and "first_by request_order (filter (claimable (utc (e_now E 0))) (location_requests db)) = None"
  shows "one h E ctx resolver provider db = (False, db, [])"
  using ClaimNextQueued_eq [OF assms(2), of "e_now E 0"] assms(1,3) by (simp add: one_def)

section \<open>Notifications\<close>

text \<open>The row of request \<open>r\<close> is in the state the notification \<open>p\<close> was given says.\<close>

definition truthful :: "db \<Rightarrow> request \<times> loc_result \<Rightarrow> bool" where
  "truthful db p \<longleftrightarrow> Terminal (rq_State (fst p)) \<and>
     (\<exists>q \<in> set (location_requests db). row_id q = rq_ID (fst p) \<and> row_state q = rq_State (fst p))"

text \<open>It was so in a database \<open>d\<close> that the run from \<open>db\<close> to \<open>db'\<close> passed.\<close>

definition was_truthful :: "time set \<Rightarrow> db \<Rightarrow> db \<Rightarrow> request \<times> loc_result \<Rightarrow> bool" where
  "was_truthful C db db' p \<longleftrightarrow> (\<exists>d. (store_step C)\<^sup>*\<^sup>* db d \<and> (store_step C)\<^sup>*\<^sup>* d db' \<and> truthful d p)"

lemma was_truthful_from:
  "(store_step C)\<^sup>*\<^sup>* db0 db \<Longrightarrow> was_truthful C db db' p \<Longrightarrow> was_truthful C db0 db' p"
  unfolding was_truthful_def by (meson rtranclp_trans)

lemma notify_truthful:
  assumes "hook_within C h" and "(store_step C)\<^sup>*\<^sup>* d db" and "truthful d (r\<lparr>rq_State := st\<rparr>, v)"
  shows "\<forall>p \<in> set (snd (notifyCompletion h now r st code v db)). was_truthful C d (fst (notifyCompletion h now r st code v db)) p"
proof
  fix p
  assume "p \<in> set (snd (notifyCompletion h now r st code v db))"
  then have p: "p = (r\<lparr>rq_State := st, rq_FailureCode := code, rq_UpdatedAt := now\<rparr>, v)"
    by (simp add: notify_list split: if_splits)
  from assms(3) have "truthful d p" by (simp add: truthful_def p)
  with notify_runs [OF assms(1,2)] show "was_truthful C d (fst (notifyCompletion h now r st code v db)) p"
    unfolding was_truthful_def by blast
qed

lemma fail_truthful:
  assumes "env_within C E" and "hook_within C h" and "from = StateResolving \<or> from = StateLocating" and "store_inv db"
  shows "\<forall>p \<in> set (snd (fail_and_notify h E k r from code desc db)). was_truthful C db (fst (fail_and_notify h E k r from code desc db)) p"
proof -
  let ?db = "e_gap E k db"
  have i: "store_inv ?db" by (rule run_inv [OF gap_run [OF assms(1) rtranclp.rtrancl_refl] assms(4)])
  have u: "request_update (set_failed code desc (utc (e_now E k))) (guarded (rq_ID r) from)"
    using assms(3) by (intro set_failed_update) auto
  obtain res db1 where f: "FailRequest (e_fault E k) (e_now E k) (rq_ID r) from code desc ?db = (res, db1)" by force
  show ?thesis
  proof (cases res)
    case (Inr x)
    with f have g: "update_guarded (rq_ID r) from (set_failed code desc (utc (e_now E k))) ?db = (Inr x, db1)"
      by (simp add: FailRequest_def exec_Inr)
    from i have "requests_inv ?db" by (simp add: store_inv_def)
    from u this g obtain q where "row_by row_id (rq_ID r) (location_requests db1) = Some (set_failed code desc (utc (e_now E k)) q)"
      by (rule update_guarded_Inr)
    then have "truthful db1 (r\<lparr>rq_State := StateFailed\<rparr>, no_result)"
      by (auto simp: truthful_def set_failed_def dest!: row_by_Some)
    note n = notify_truthful [OF assms(2) rtranclp.rtrancl_refl this]
    have run: "(store_step C)\<^sup>*\<^sup>* db db1" by (rule op_run [OF assms(1) store_step.fail [OF assms(3) f] rtranclp.rtrancl_refl])
    have "fail_and_notify h E k r from code desc db = notifyCompletion h (e_now E k) r StateFailed code no_result db1"
      using f Inr by (simp add: fail_and_notify_def)
    with n was_truthful_from [OF run] show ?thesis by simp
  qed (use f in \<open>simp add: fail_and_notify_def\<close>)
qed

lemma finish_truthful:
  assumes "env_within C E" and "hook_within C h" and "store_inv db"
  shows "\<forall>p \<in> set (snd (finish h E r n out db)). was_truthful C db (fst (finish h E r n out db)) p"
proof (cases "pr_Kind out = NoImmediateResult \<or> pr_Kind out = Deferred")
  case True
  with fail_truthful [OF assms(1,2) _ assms(3)] show ?thesis by (simp add: finish_def)
next
  case False
  define v where "v = result_of r n out (e_now E 5)"
  let ?db = "e_gap E 5 db"
  have i: "store_inv ?db" by (rule run_inv [OF gap_run [OF assms(1) rtranclp.rtrancl_refl] assms(3)])
  obtain res db1 where c: "CompleteRequest (e_fault E 5) (e_now E 5) (rq_ID r) v ?db = (res, db1)" by force
  define db2 where "db2 = (if rs_Latitude v \<noteq> None \<and> rs_Longitude v \<noteq> None
    then snd (RecordHistory (e_fault E 6) (e_uuid E 6) (rq_TargetKind r) (rq_TargetValue r) v (e_gap E 6 db1)) else db1)"
  show ?thesis
  proof (cases res)
    case (Inl e)
    with False c show ?thesis by (simp add: finish_def v_def)
  next
    case (Inr x)
    with c obtain db0 where u: "update_guarded (rq_ID r) StateLocating (set_completed (utc (e_now E 5))) ?db = (Inr (), db0)"
      and d: "location_requests db1 = location_requests db0"
      by (auto simp: CompleteRequest_def exec_Inr transact_Inr split: sum.splits prod.splits)
    from i have "requests_inv ?db" by (simp add: store_inv_def)
    from set_completed.request_update_axioms this u obtain q where
      "row_by row_id (rq_ID r) (location_requests db1) = Some (set_completed (utc (e_now E 5)) q)"
      unfolding d by (rule update_guarded_Inr)
    then have t: "truthful db1 (r\<lparr>rq_State := StateCompleted\<rparr>, v)"
      by (auto simp: truthful_def set_completed_def dest!: row_by_Some)
    have run: "(store_step C)\<^sup>*\<^sup>* db db1" by (rule op_run [OF assms(1) store_step.complete [OF c] rtranclp.rtrancl_refl])
    have "(store_step C)\<^sup>*\<^sup>* db1 (snd (RecordHistory f w kd vl v (e_gap E 6 db1)))" for f w kd vl
      by (rule op_run [OF assms(1) store_step.record_history rtranclp.rtrancl_refl]) (rule prod.collapse [symmetric])
    then have s: "(store_step C)\<^sup>*\<^sup>* db1 db2" by (simp add: db2_def)
    have e: "finish h E r n out db = notifyCompletion h (e_now E 7) r StateCompleted [] v db2"
      using False c Inr by (simp add: finish_def db2_def v_def Let_def)
    show ?thesis unfolding e using notify_truthful [OF assms(2) s t] was_truthful_from [OF run] by blast
  qed
qed

lemma handleError_truthful:
  assumes "env_within C E" and "hook_within C h" and "from = StateResolving \<or> from = StateLocating" and "store_inv db"
  shows "\<forall>p \<in> set (snd (handleError h E k r a from e db)). was_truthful C db (fst (handleError h E k r a from e db)) p"
  using fail_truthful [OF assms] by (simp add: handleError_def Let_def)

lemma position_truthful:
  assumes "env_within C E" and "hook_within C h" and "store_inv db"
  shows "\<forall>p \<in> set (snd (position h E ctx provider r n db)). was_truthful C db (fst (position h E ctx provider r n db)) p"
proof -
  have g: "(store_step C)\<^sup>*\<^sup>* db (e_gap E 3 db)" by (rule gap_run [OF assms(1) rtranclp.rtrancl_refl])
  have i: "store_inv (e_gap E 3 db)" by (rule run_inv [OF g assms(3)])
  show ?thesis
    using handleError_truthful [OF assms(1,2) _ i] finish_truthful [OF assms(1,2) i] was_truthful_from [OF g]
    by (simp add: position_def Let_def split: sum.split)
qed

lemma one_truthful:
  assumes "env_within C E" and "hook_within C h" and "store_inv db"
  shows "\<forall>p \<in> set (snd (snd (one h E ctx resolver provider db))).
    was_truthful C db (fst (snd (one h E ctx resolver provider db))) p"
proof -
  obtain res db1 where c: "ClaimNextQueued (e_fault E 0) (e_now E 0) (e_gap E 0 db) = (res, db1)" by force
  have r1: "(store_step C)\<^sup>*\<^sup>* db db1" by (rule op_run [OF assms(1) store_step.claim [OF c] rtranclp.rtrancl_refl])
  have i1: "store_inv db1" by (rule run_inv [OF r1 assms(3)])
  show ?thesis
  proof (cases "\<exists>r. res = Inr (Some r)")
    case False
    with c show ?thesis by (auto simp: one_def split: sum.splits option.splits)
  next
    case True
    then obtain r where r: "res = Inr (Some r)" by blast
    show ?thesis
    proof (cases "resolver (target_of r)")
      case (Inl e)
      with c r handleError_truthful [OF assms(1,2) _ i1] was_truthful_from [OF r1] show ?thesis by (simp add: one_def)
    next
      case (Inr n)
      obtain x db2 where l: "SaveServingNodeAndLocate (e_fault E 2) (e_now E 2) (rq_ID r) n (e_gap E 2 db1) = (x, db2)"
        by force
      have r2: "(store_step C)\<^sup>*\<^sup>* db1 db2" by (rule op_run [OF assms(1) store_step.locate [OF l] rtranclp.rtrancl_refl])
      have i2: "store_inv db2" by (rule run_inv [OF r2 i1])
      from c r Inr l position_truthful [OF assms(1,2) i2] was_truthful_from [OF rtranclp_trans [OF r1 r2]] show ?thesis
        by (cases x) (simp_all add: one_def)
    qed
  qed
qed

section \<open>The retry budget\<close>

definition remaining :: "request_row \<Rightarrow> nat" where
  "remaining q = (if row_state q = StateQueued then nat (max 1 (maxAttempts - row_attempt_count q)) else 0)"

definition workload :: "db \<Rightarrow> nat" where
  "workload db = (\<Sum>q \<leftarrow> location_requests db. remaining q)"

lemma put_less:
  "key_unique row_id rows \<Longrightarrow> q \<in> set rows \<Longrightarrow> row_id q' = row_id q \<Longrightarrow> remaining q' < remaining q \<Longrightarrow>
     (\<Sum>p \<leftarrow> put q' rows. remaining p) < (\<Sum>p \<leftarrow> rows. remaining p)"
  unfolding put_def by (rule replaced_less)

lemma settled_remaining:
  assumes "settled h r (verdict_of ctx resolver provider terms r now') now q' ns" and "\<forall>k. \<not> ctx k"
    and "row_attempt_count q' = rq_AttemptCount r" and "rq_AttemptCount r = row_attempt_count q + 1"
    and "row_state q = StateQueued"
  shows "remaining q' < remaining q"
  using assms
  by (auto simp: settled_def verdict_of_def on_error_def remaining_def maxAttempts_def
      split: sum.splits if_splits)

section \<open>Properties\<close>

lemma no_strand:
  assumes "moved q' db db'" and "\<not> interrupted q'" and "\<forall>q \<in> set (location_requests db). \<not> interrupted q"
  shows "\<forall>q \<in> set (location_requests db'). \<not> interrupted q"
  using assms by (auto simp: moved_def put_def)

lemma settled_not_interrupted: "settled h r d now q' ns \<Longrightarrow> \<not> interrupted q'"
  by (auto simp: settled_def interrupted_def split: verdict.splits)

text \<open>
  C2: An undisturbed iteration of the request worker refines the decision \<open>verdict_of\<close>, which does not
  mention the store.  It takes the oldest due request, counts the attempt, and leaves that row, and no
  other, as decided: queued again for \<open>2^(attempt-1)\<close> seconds later after an outage while attempts remain
  (at once after an interruption), failed with the code of the decision, or completed with its result
  readable; the completion hook is told of the two terminal outcomes, with the state just stored, and
  of nothing else.
\<close>

theorem worker_outcome:
  assumes "requests_inv db" and "undisturbed E" and "hook_quiet h"
    and "first_by request_order (filter (claimable (utc (e_now E 0))) (location_requests db)) = Some q"
    and r_def: "r = request_of_row (set_claimed (utc (e_now E 0)) q)"
    and d_def: "d = verdict_of ctx resolver provider (client_terms False (row_client_id q) db) r (e_now E 5)"
  shows "\<exists>db' ns q' k. one h E ctx resolver provider db = (True, db', ns)
    \<and> location_requests db' = map (\<lambda>p. if row_id p = row_id q then q' else p) (location_requests db)
    \<and> row_id q' = row_id q \<and> row_attempt_count q' = row_attempt_count q + 1
    \<and> settled h r d (e_now E k) q' ns
    \<and> (\<forall>v. d = Done v \<longrightarrow> GetResult False (row_id q) db' = Inr (v\<lparr>rs_RequestID := row_id q\<rparr>))"
proof -
  let ?q = "set_claimed (utc (e_now E 0)) q"
  from claimed_leaves [OF assms(2,3,1,4), where ctx = ctx and resolver = resolver and provider = provider]
  obtain res k where o: "one h E ctx resolver provider db = (True, res)" and l: "leaves h r ?q d (e_now E k) db res"
    unfolding r_def [symmetric] d_def [symmetric] by (elim exE conjE)
  have i: "row_id ?q = row_id q" "rq_ID r = row_id q" "row_attempt_count ?q = row_attempt_count q + 1"
    by (simp_all add: r_def request_of_row_def set_claimed_def)
  from l obtain q' where m: "moved q' db (fst res)" "row_id q' = row_id q" "row_attempt_count q' = row_attempt_count q + 1"
    "settled h r d (e_now E k) q' (snd res)"
    "\<forall>v. d = Done v \<longrightarrow> GetResult False (row_id q) (fst res) = Inr (v\<lparr>rs_RequestID := row_id q\<rparr>)"
    unfolding leaves_def i by (elim exE conjE)
  with o show ?thesis
    by (intro exI [of _ "fst res"] exI [of _ "snd res"] exI [of _ q'] exI [of _ k]) (simp add: moved_def put_def)
qed

lemma calm_undisturbed [simp]: "undisturbed (calm t)"
  by (simp add: undisturbed_def calm_def alone_def)

definition sample_positioning :: positioning_result where
  "sample_positioning = \<lparr>pr_Kind = AdditionalInformation, pr_RawLocationEstimate = [], pr_RawVelocityEstimate = [],
     pr_ECGI = [1], pr_EUTRANPositioningData = [], pr_AccuracyFulfilment = None, pr_AgeOfLocationEstimate = None,
     pr_ResultCode = 2001, pr_ExperimentalCode = 0, pr_Position = None\<rparr>"

lemma calm_now [simp]: "e_now (calm t) k = t"
  by (simp add: calm_def)

lemma hook_quiet_None [simp]: "hook_quiet None"
  by (simp add: hook_quiet_def)

theorem worker_outcome_witness:
  "\<exists>db' ns q'. one None (calm 5) (\<lambda>_. False) (\<lambda>_. Inr sample_node) (\<lambda>_ _. Inr sample_positioning)
      (sample_db [sample_row ''a'', sample_row ''b'']) = (True, db', ns)
     \<and> location_requests db' = [q', sample_row ''b''] \<and> row_state q' = StateCompleted \<and> row_attempt_count q' = 1"
proof -
  let ?r = "request_of_row (set_claimed (utc (e_now (calm 5) 0)) (sample_row ''a''))"
  have v: "verdict_of (\<lambda>_. False) (\<lambda>_. Inr sample_node) (\<lambda>_ _. Inr sample_positioning) terms r now =
      Done (result_of r sample_node sample_positioning now)" for terms r now
    by (simp add: verdict_of_def sample_positioning_def)
  have ids: "row_id (sample_row ''b'') \<noteq> row_id (sample_row ''a'')" "row_attempt_count (sample_row ''a'') = 0"
    by (simp_all add: sample_row_def insert_row_def sample_request_def)
  have f: "first_by request_order (filter (claimable (utc (e_now (calm 5) 0)))
      (location_requests (sample_db [sample_row ''a'', sample_row ''b'']))) = Some (sample_row ''a'')"
    using sample_first by simp
  from worker_outcome [OF sample_inv calm_undisturbed hook_quiet_None f refl refl, where ctx = "\<lambda>_. False"
      and resolver = "\<lambda>_. Inr sample_node" and provider = "\<lambda>_ _. Inr sample_positioning", unfolded v]
  obtain db' ns q' k where "one None (calm 5) (\<lambda>_. False) (\<lambda>_. Inr sample_node) (\<lambda>_ _. Inr sample_positioning)
      (sample_db [sample_row ''a'', sample_row ''b'']) = (True, db', ns)"
    and "location_requests db' = map (\<lambda>p. if row_id p = row_id (sample_row ''a'') then q' else p)
      (location_requests (sample_db [sample_row ''a'', sample_row ''b'']))"
    and "row_attempt_count q' = row_attempt_count (sample_row ''a'') + 1"
    and "settled None ?r (Done (result_of ?r sample_node sample_positioning (e_now (calm 5) 5))) (e_now (calm 5) k) q' ns"
    by (elim exE conjE)
  with ids show ?thesis
    by (intro exI [of _ db'] exI [of _ ns] exI [of _ q']) (auto simp: settled_def)
qed

text \<open>
  The loop of the worker does work only while there is work.  An undisturbed iteration reports
  none exactly when no request is due, and then leaves the database as it is; otherwise, unless it is
  interrupted, it uses up one of the finitely many attempts the queued requests have left (at most
  three each), so that it cannot go on forever without new requests.
\<close>

theorem worker_drains:
  assumes "requests_inv db" and "undisturbed E" and "hook_quiet h" and "\<forall>k. \<not> ctx k"
    and "one h E ctx resolver provider db = (worked, db', ns)"
  shows "if \<exists>q \<in> set (location_requests db). claimable (utc (e_now E 0)) q
    then worked \<and> workload db' < workload db else \<not> worked \<and> db' = db"
proof (cases "first_by request_order (filter (claimable (utc (e_now E 0))) (location_requests db))")
  case None
  with request_queue.none_picked idle [OF assms(2,1) None] assms(5) show ?thesis by auto
next
  case (Some q)
  note p = request_queue.picked [OF Some]
  let ?q = "set_claimed (utc (e_now E 0)) q"
  from claimed_leaves [OF assms(2,3,1) Some, where ctx = ctx and resolver = resolver and provider = provider] assms(5)
  obtain k q' where w: "worked" and m: "moved q' db db'" and i: "row_id q' = row_id ?q"
    and a: "row_attempt_count q' = row_attempt_count ?q"
    and s: "settled h (request_of_row ?q) (verdict_of ctx resolver provider
      (client_terms False (row_client_id q) db) (request_of_row ?q) (e_now E 5)) (e_now E k) q' ns"
    by (auto simp: leaves_def)
  have r: "rq_AttemptCount (request_of_row ?q) = row_attempt_count q + 1" "row_id ?q = row_id q"
    "row_attempt_count ?q = row_attempt_count q + 1"
    by (simp_all add: request_of_row_def set_claimed_def)
  have "remaining q' < remaining q"
    by (rule settled_remaining [OF s assms(4)]) (use r a p in simp_all)
  then have "workload db' < workload db"
    using put_less [OF requests_inv_unique [OF assms(1)], of q q'] p i r m by (simp add: workload_def moved_def)
  with w p show ?thesis by auto
qed

theorem worker_drains_witness:
  "\<exists>db' ns. one None (calm 5) (\<lambda>_. False) (\<lambda>_. Inl (SlhTransport ErrUnavailable)) (\<lambda>_ _. Inr sample_positioning)
      (sample_db [sample_row ''a'', sample_row ''b'']) = (True, db', ns)
     \<and> workload db' < workload (sample_db [sample_row ''a'', sample_row ''b''])"
proof -
  let ?db = "sample_db [sample_row ''a'', sample_row ''b'']"
  obtain w db' ns where o: "one None (calm 5) (\<lambda>_. False) (\<lambda>_. Inl (SlhTransport ErrUnavailable))
      (\<lambda>_ _. Inr sample_positioning) ?db = (w, db', ns)" by (rule prod_cases3)
  have "claimable (utc (e_now (calm 5) 0)) (sample_row ''a'')"
    by (simp add: claimable_def sample_row_def insert_row_def sample_request_def)
  then have "\<exists>q \<in> set (location_requests ?db). claimable (utc (e_now (calm 5) 0)) q" by simp
  with worker_drains [OF sample_inv calm_undisturbed hook_quiet_None _ o] have "w \<and> workload db' < workload ?db" by simp
  with o show ?thesis by simp
qed

text \<open>
  The worker strands no request: when no request is resolving or locating before an undisturbed
  iteration, none is after it, whatever the resolver and the provider answer and whether or not the
  request is interrupted.
\<close>

theorem worker_never_strands:
  assumes "requests_inv db" and "undisturbed E" and "hook_quiet h"
    and "\<forall>q \<in> set (location_requests db). \<not> interrupted q"
    and "one h E ctx resolver provider db = (worked, db', ns)"
  shows "requests_inv db' \<and> (\<forall>q \<in> set (location_requests db'). \<not> interrupted q)"
proof (cases "first_by request_order (filter (claimable (utc (e_now E 0))) (location_requests db))")
  case None
  with idle [OF assms(2,1) None] assms show ?thesis by simp
next
  case (Some q)
  from claimed_leaves [OF assms(2,3,1) Some, where ctx = ctx and resolver = resolver and provider = provider] assms(5)
  obtain q' r d now where m: "moved q' db db'" and s: "settled h r d now q' ns" by (auto simp: leaves_def)
  from no_strand [OF m settled_not_interrupted [OF s] assms(4)] m show ?thesis by (simp add: moved_def)
qed

theorem worker_never_strands_witness:
  "\<exists>w db' ns. one None (calm 5) (\<lambda>_. True) (\<lambda>_. Inl (SlhTransport Canceled)) (\<lambda>_ _. Inr sample_positioning)
      (sample_db [sample_row ''a'', sample_row ''b'']) = (w, db', ns)
     \<and> (\<forall>q \<in> set (location_requests db'). \<not> interrupted q)"
proof -
  let ?db = "sample_db [sample_row ''a'', sample_row ''b'']"
  obtain w db' ns where o: "one None (calm 5) (\<lambda>_. True) (\<lambda>_. Inl (SlhTransport Canceled))
      (\<lambda>_ _. Inr sample_positioning) ?db = (w, db', ns)" by (rule prod_cases3)
  have "\<forall>q \<in> set (location_requests ?db). \<not> interrupted q"
    by (simp add: interrupted_def sample_row_def insert_row_def sample_request_def)
  from worker_never_strands [OF sample_inv calm_undisturbed hook_quiet_None this o] o show ?thesis by blast
qed

text \<open>
  C4: Whatever the other goroutines do to the store between the operations of the worker, purges included, and
  whatever fails: a notification of the completion hook is true.  The request it names was stored in the
  terminal state it was given, in a database that the iteration passed, and whatever runs afterwards the
  request is found in that state, unless a purge whose cutoff has a stamp above that of its creation has
  deleted it; in particular a request that was cancelled meanwhile is never announced as completed or
  failed.
\<close>

theorem notification_truthful:
  assumes "env_within C E" and "hook_within C h" and "store_inv db"
    and "one h E ctx resolver provider db = (worked, db', ns)" and "(r, v) \<in> set ns" and "(store_step C)\<^sup>*\<^sup>* db' db2"
  shows "\<exists>d. \<exists>q \<in> set (location_requests d). (store_step C)\<^sup>*\<^sup>* db d \<and> (store_step C)\<^sup>*\<^sup>* d db'
    \<and> Terminal (rq_State r) \<and> row_id q = rq_ID r \<and> row_state q = rq_State r
    \<and> ((\<exists>q' \<in> set (location_requests db2). row_id q' = rq_ID r \<and> row_state q' = rq_State r)
        \<or> retired C d db2 q)"
proof -
  have o: "snd (snd (one h E ctx resolver provider db)) = ns" "fst (snd (one h E ctx resolver provider db)) = db'"
    using assms(4) by simp_all
  from one_truthful [OF assms(1-3), of ctx resolver provider] assms(5) obtain d where
    d: "(store_step C)\<^sup>*\<^sup>* db d" "(store_step C)\<^sup>*\<^sup>* d db'" and t: "truthful d (r, v)"
    unfolding o was_truthful_def by blast
  from t obtain q where q: "q \<in> set (location_requests d)" "row_id q = rq_ID r" "row_state q = rq_State r"
    "Terminal (row_state q)" by (auto simp: truthful_def)
  have "(store_step C)\<^sup>*\<^sup>* d db2" using d(2) assms(6) by (rule rtranclp_trans)
  from run_row_or_retired [OF this run_inv [OF d(1) assms(3)] q(1)]
  have "(\<exists>q' \<in> set (location_requests db2). row_id q' = rq_ID r \<and> row_state q' = rq_State r)
      \<or> retired C d db2 q"
  proof
    assume "\<exists>q' \<in> set (location_requests db2). row_reaches q q'"
    then show ?thesis
      using request_lifecycle.terminal_final [OF _ q(4)] q(2,3) unfolding row_reaches_def by metis
  qed simp
  with d q show ?thesis by auto
qed

theorem notification_truthful_witness:
  "\<exists>w db' r v. one (Some (\<lambda>_ _ db. db)) (calm 5) (\<lambda>_. False) (\<lambda>_. Inr sample_node) (\<lambda>_ _. Inr sample_positioning)
      (sample_db [sample_row ''a'', sample_row ''b'']) = (w, db', [(r, v)])
     \<and> (\<exists>q \<in> set (location_requests db'). row_id q = rq_ID r \<and> row_state q = rq_State r)"
proof -
  let ?db = "sample_db [sample_row ''a'', sample_row ''b'']" and ?h = "Some (\<lambda>_ _ db. db)"
  have h: "hook_quiet ?h" "hook_within {} ?h" by (simp_all add: hook_quiet_def hook_within_def)
  have i: "store_inv ?db" using sample_inv by (simp add: store_inv_def outbox_inv_def sample_defs key_unique_def)
  have v: "verdict_of (\<lambda>_. False) (\<lambda>_. Inr sample_node) (\<lambda>_ _. Inr sample_positioning) terms r now =
      Done (result_of r sample_node sample_positioning now)" for terms r now
    by (simp add: verdict_of_def sample_positioning_def)
  have f: "first_by request_order (filter (claimable (utc (e_now (calm 5) 0))) (location_requests ?db)) = Some (sample_row ''a'')"
    using sample_first by simp
  from claimed_leaves [OF calm_undisturbed h(1) sample_inv f, where ctx = "\<lambda>_. False"
      and resolver = "\<lambda>_. Inr sample_node" and provider = "\<lambda>_ _. Inr sample_positioning", unfolded v]
  obtain db' r w where o: "one ?h (calm 5) (\<lambda>_. False) (\<lambda>_. Inr sample_node) (\<lambda>_ _. Inr sample_positioning) ?db =
      (True, db', [(r, w)])" by (auto simp: leaves_def settled_def)
  from notification_truthful [OF alone_ok [OF calm_alone] h(2) i o _ rtranclp.rtrancl_refl, of r w] o show ?thesis by auto
qed

text \<open>
  A timeout of the serving-node query is not retried.  When the transport runs into the deadline,
  the resolver returns its own error kind, which the worker does not count as transient, and the request
  fails for good at its first attempt; the same timeout of the positioning query is retried.
\<close>

theorem resolver_timeout_not_retried:
  assumes "BuildRIR lib cfg rnd t = Inr m" and "rt m = (m', Inl DeadlineExceeded, cerr)"
    and "BuildPLR lib gcfg rnd n lr = Inr p" and "grt p = (p', Inl DeadlineExceeded, cerr)"
  shows "\<exists>e e'. ResolveServingNode lib cfg rnd now None rt t = Inl e
    \<and> ProvideLocation lib gcfg rnd None grt n lr = Inl e'
    \<and> handleError h E k r 1 StateResolving (Resolve e) db =
        fail_and_notify h E k r StateResolving ''network_failure'' ''location request failed'' db
    \<and> handleError h E k r 1 StateLocating (Provide e') db =
        (snd (Requeue (e_fault E k) (e_now E k) (rq_ID r) StateLocating (e_now E k + second)
           ''temporarily_unavailable'' (e_gap E k db)), [])"
  using assms
  by (simp add: ResolveServingNode_def ProvideLocation_def handleError_def transient_def transient_transport_def maxAttempts_def)

definition timed_out :: round_trip where
  "timed_out m = (m, Inl DeadlineExceeded, Some DeadlineExceeded)"

theorem resolver_timeout_not_retried_witness:
  "\<exists>e. ResolveServingNode sample_lib sample_slh [] 7 None timed_out
      \<lparr>IMSI = [], MSISDN = ''155''\<rparr> = Inl e
    \<and> (\<forall>r db. handleError None (calm 5) 1 r 1 StateResolving (Resolve e) db =
        fail_and_notify None (calm 5) 1 r StateResolving ''network_failure'' ''location request failed'' db)"
proof -
  have "validateTarget \<lparr>IMSI = [], MSISDN = ''155''\<rparr> = None"
    by (simp add: validateTarget_def Validate_None valid_digits is_digit_alt)
  then obtain m where m: "BuildRIR sample_lib sample_slh [] \<lparr>IMSI = [], MSISDN = ''155''\<rparr> = Inr m" by (simp add: BuildRIR_def)
  from sample_BuildPLR obtain p where p: "BuildPLR sample_lib \<lparr>gc_OriginHost = ''g'', gc_OriginRealm = ''r'',
      gc_RequestTimeout = 0\<rparr> [] sample_node sample_location_request = Inr p" by blast
  note w = resolver_timeout_not_retried [where rt = timed_out and grt = timed_out, OF m timed_out_def [of m] p timed_out_def [of p], where now = 7 and h = None and E = "calm 5" and k = 1]
  from w obtain e where e: "ResolveServingNode sample_lib sample_slh [] 7 None timed_out \<lparr>IMSI = [], MSISDN = ''155''\<rparr> = Inl e" by blast
  have "handleError None (calm 5) 1 r 1 StateResolving (Resolve e) db =
      fail_and_notify None (calm 5) 1 r StateResolving ''network_failure'' ''location request failed'' db" for r db
    using w [where r = r and db = db] unfolding e by (elim exE conjE) (simp only: sum.inject)
  with e show ?thesis by blast
qed

end
