(* ===== verification/GMLC_Delivery.thy ===== *)
theory GMLC_Delivery
  imports GMLC_Orchestrator
begin

text \<open>
  \<open>internal/delivery\<close>: the JSON payload of a callback (\<open>payload.go\<close>), its signature (\<open>sign.go\<close>), the
  encryption of the callback secrets (\<open>secret.go\<close>) and one iteration of the delivery worker with its
  retry and backoff (\<open>worker.go\<close>).  AES-GCM and HMAC-SHA256 are arguments, and so are the URL check of
  \<open>http.NewRequestWithContext\<close> and the HTTP client.
\<close>

section \<open>Payload\<close>

text \<open>A JSON value as \<open>map[string]any\<close> builds it; an object is the list of its entries.\<close>

datatype json =
    JString string | JState state | JUint u32 | JFloat float64 | JTrue | JTime time | JBytes bytes
  | JObject "(string \<times> json) list"

definition qosClassNames :: "u32 \<Rightarrow> string" where
  "qosClassNames c = (if c = QoSClassAssured then ''assured'' else if c = QoSClassBestEffort then ''best_effort'' else [])"

definition responseTimeNames :: "u32 \<Rightarrow> string" where
  "responseTimeNames c =
     (if c = ResponseTimeLowDelay then ''low_delay'' else if c = ResponseTimeDelayTolerant then ''delay_tolerant'' else [])"

definition locationTypeNames :: "u32 \<Rightarrow> string" where
  "locationTypeNames c =
     (if c = LocationCurrent then ''current'' else if c = LocationCurrentOrLastKnown then ''current_or_last_known'' else [])"

text \<open>\<open>if v != nil { out[key] = *v }\<close>.\<close>

definition entry :: "string \<Rightarrow> ('a \<Rightarrow> json) \<Rightarrow> 'a option \<Rightarrow> (string \<times> json) list" where
  "entry key f v = (case v of None \<Rightarrow> [] | Some x \<Rightarrow> [(key, f x)])"

definition qosFromDomain :: "qos_request option \<Rightarrow> json option" where
  "qosFromDomain q = map_option (\<lambda>q. JObject (
     entry ''class'' (\<lambda>c. JString (qosClassNames c)) (q_Class q)
     @ entry ''horizontal_accuracy_meters'' JFloat (q_HorizontalAccuracyMeters q)
     @ entry ''vertical_accuracy_meters'' JFloat (q_VerticalAccuracyMeters q)
     @ (if q_VerticalRequested q then [(''vertical_requested'', JTrue)] else [])
     @ entry ''response_time'' (\<lambda>c. JString (responseTimeNames c)) (q_ResponseTimeClass q))) q"

definition jnumber :: "rat \<Rightarrow> json" where
  "jnumber x = JFloat (Fin x)"

definition result_json :: "loc_result \<Rightarrow> json" where
  "result_json v = JObject (
     [(''created_at'', JTime (rs_CreatedAt v))]
     @ (if rs_Shape v \<noteq> [] then [(''shape'', JString (rs_Shape v))] else [])
     @ (case (rs_Latitude v, rs_Longitude v) of
          (Some lat, Some lon) \<Rightarrow> [(''latitude'', jnumber lat), (''longitude'', jnumber lon)]
        | _ \<Rightarrow> [])
     @ (if rs_ECGI v \<noteq> [] then [(''ecgi'', JBytes (rs_ECGI v))] else [])
     @ entry ''uncertainty_meters'' jnumber (rs_UncertaintyMeters v)
     @ entry ''semi_major_meters'' jnumber (rs_SemiMajorMeters v)
     @ entry ''semi_minor_meters'' jnumber (rs_SemiMinorMeters v)
     @ entry ''orientation_degrees'' jnumber (rs_OrientationDegrees v)
     @ entry ''confidence_percent'' JUint (rs_ConfidencePercent v)
     @ entry ''age_of_location_estimate_minutes'' JUint (rs_AgeOfLocationEstimate v)
     @ entry ''accuracy_fulfilment'' JUint (rs_AccuracyFulfilment v))"

definition RequestJSON :: "request \<Rightarrow> loc_result \<Rightarrow> (string \<times> json) list" where
  "RequestJSON r v =
     [(''id'', JString (rq_ID r)), (''service_type'', JString (rq_Service r)), (''state'', JState (rq_State r)),
      (''failure_code'', JString (rq_FailureCode r)), (''location_type'', JString (locationTypeNames (rq_LocationType r))),
      (''created_at'', JTime (rq_CreatedAt r)), (''updated_at'', JTime (rq_UpdatedAt r))]
     @ entry ''priority'' JUint (rq_Priority r)
     @ entry ''qos'' (\<lambda>q. q) (qosFromDomain (rq_QoS r))
     @ (if rq_State r = StateCompleted then [(''result'', result_json v)] else [])"

section \<open>Signature and secrets\<close>

definition SignatureHeader :: string where "SignatureHeader = ''X-GMLC-Signature''"

definition Sign :: "(bytes \<Rightarrow> bytes \<Rightarrow> bytes) \<Rightarrow> bytes \<Rightarrow> bytes \<Rightarrow> string" where
  "Sign hmac secret payload = ''sha256='' @ EncodeToString (hmac secret payload)"

text \<open>AES-GCM under a 32-byte key; \<open>cipher.NewGCM\<close> uses nonces of 12 bytes.\<close>

record aead =
  ae_Seal :: "bytes \<Rightarrow> bytes \<Rightarrow> bytes \<Rightarrow> bytes"
  ae_Open :: "bytes \<Rightarrow> bytes \<Rightarrow> bytes \<Rightarrow> bytes option"

definition NonceSize :: nat where "NonceSize = 12"

text \<open>What an AEAD promises: opening a sealed text under the same key and nonce gives the text back.\<close>

definition aead_ok :: "aead \<Rightarrow> bool" where
  "aead_ok A \<longleftrightarrow> (\<forall>key nonce p. ae_Open A key nonce (ae_Seal A key nonce p) = Some p)"

datatype secret_error = ErrInvalidKey | ErrNonce | ErrShortCiphertext | ErrOpen

definition newGCM :: "bytes \<Rightarrow> secret_error option" where
  "newGCM key = (if length key \<noteq> 32 then Some ErrInvalidKey else None)"

text \<open>\<open>rnd\<close> is what the random source returns: the nonce, or nothing when reading it fails.\<close>

definition EncryptSecret :: "aead \<Rightarrow> bytes option \<Rightarrow> bytes \<Rightarrow> bytes \<Rightarrow> secret_error + bytes" where
  "EncryptSecret A rnd key plaintext =
     (case newGCM key of
        Some e \<Rightarrow> Inl e
      | None \<Rightarrow>
          (case rnd of
             None \<Rightarrow> Inl ErrNonce
           | Some nonce \<Rightarrow> Inr (nonce @ ae_Seal A key nonce plaintext)))"

definition DecryptSecret :: "aead \<Rightarrow> bytes \<Rightarrow> bytes \<Rightarrow> secret_error + bytes" where
  "DecryptSecret A key ciphertext =
     (case newGCM key of
        Some e \<Rightarrow> Inl e
      | None \<Rightarrow>
          (if length ciphertext < NonceSize then Inl ErrShortCiphertext
           else case ae_Open A key (take NonceSize ciphertext) (drop NonceSize ciphertext) of
             None \<Rightarrow> Inl ErrOpen
           | Some p \<Rightarrow> Inr p))"

section \<open>The worker\<close>

record delivery_config =
  dc_MaxAttempts :: int
  dc_RetryBackoffMin :: duration
  dc_RetryBackoffMax :: duration
  dc_RequestTimeout :: duration
  dc_EncryptionKey :: bytes

text \<open>\<open>New\<close> applies the defaults and panics (here: no worker) on a key of the wrong length.\<close>

definition delivery_New :: "delivery_config \<Rightarrow> delivery_config option" where
  "delivery_New cfg =
     (let cfg = (if dc_MaxAttempts cfg \<le> 0 then cfg\<lparr>dc_MaxAttempts := 5\<rparr> else cfg);
          cfg = (if dc_RetryBackoffMin cfg \<le> 0 then cfg\<lparr>dc_RetryBackoffMin := second\<rparr> else cfg);
          cfg = (if dc_RetryBackoffMax cfg < dc_RetryBackoffMin cfg then cfg\<lparr>dc_RetryBackoffMax := 5 * 60 * second\<rparr> else cfg);
          cfg = (if dc_RequestTimeout cfg \<le> 0 then cfg\<lparr>dc_RequestTimeout := 10 * second\<rparr> else cfg)
      in if length (dc_EncryptionKey cfg) \<noteq> 32 then None else Some cfg)"

text \<open>The product of two \<open>time.Duration\<close> values wraps at 64 bits; the shift stays below 33 and does not.\<close>

definition backoff :: "int \<Rightarrow> duration \<Rightarrow> duration \<Rightarrow> duration" where
  "backoff attempts mn mx =
     (let attempts = (if attempts < 1 then 1 else attempts);
          shift = attempts - 1
      in if shift > 32 then mx
         else
           (let d = swrap64 (mn * 2 ^ nat shift) in
            if d \<le> 0 \<or> d > mx then mx else d))"

definition retryOrFail :: "delivery_config \<Rightarrow> env \<Rightarrow> nat \<Rightarrow> string \<Rightarrow> int \<Rightarrow> int \<Rightarrow> db \<Rightarrow> db" where
  "retryOrFail cfg E k i attempts responseCode db =
     (if attempts \<ge> dc_MaxAttempts cfg
      then snd (FailDelivery (e_fault E k) (e_now E k) i responseCode (e_gap E k db))
      else
        (let delay = backoff attempts (dc_RetryBackoffMin cfg) (dc_RetryBackoffMax cfg) in
         snd (RequeueDelivery (e_fault E k) (e_now E k) i (e_now E k + delay) (e_gap E k db))))"

record http_request =
  hr_URL :: string
  hr_Body :: bytes
  hr_Header :: "(string \<times> string) list"

text \<open>The HTTP side: whether a request for the URL can be built, and the status of a POST or a transport error.\<close>

record http_client =
  hc_valid :: "string \<Rightarrow> bool"
  hc_Do :: "http_request \<Rightarrow> int option"

definition callback_request :: "(bytes \<Rightarrow> bytes \<Rightarrow> bytes) \<Rightarrow> string \<Rightarrow> bytes \<Rightarrow> bytes \<Rightarrow> http_request" where
  "callback_request hmac url secret payload =
     \<lparr>hr_URL = url, hr_Body = payload,
      hr_Header = [(''Content-Type'', ''application/json''), (SignatureHeader, Sign hmac secret payload)]\<rparr>"

text \<open>\<open>stopped\<close>: the context of the worker was cancelled when the POST failed.  The requests sent are recorded.\<close>

definition Delivery_one ::
  "delivery_config \<Rightarrow> aead \<Rightarrow> (bytes \<Rightarrow> bytes \<Rightarrow> bytes) \<Rightarrow> http_client \<Rightarrow> bool \<Rightarrow> env \<Rightarrow> db
     \<Rightarrow> bool \<times> db \<times> http_request list" where
  "Delivery_one cfg A hmac http stopped E db =
     (case ClaimNextDelivery (e_fault E 0) (e_now E 0) (e_gap E 0 db) of
        (Inl _, db) \<Rightarrow> (False, db, [])
      | (Inr None, db) \<Rightarrow> (False, db, [])
      | (Inr (Some d), db) \<Rightarrow>
     (let db = e_gap E 1 db;
          failed = snd (FailDelivery (e_fault E 2) (e_now E 2) (d_ID d) 0 (e_gap E 2 db))
      in case GetSubscription (e_fault E 1) (d_SubscriptionID d) db of
        Inl _ \<Rightarrow> (True, failed, [])
      | Inr sub \<Rightarrow>
     (case DecryptSecret A (dc_EncryptionKey cfg) (s_CallbackSecret sub) of
        Inl _ \<Rightarrow> (True, failed, [])
      | Inr secret \<Rightarrow>
     (if \<not> hc_valid http (s_CallbackURL sub) then (True, failed, [])
      else
        (let req = callback_request hmac (s_CallbackURL sub) secret (d_Payload d) in
         case hc_Do http req of
           None \<Rightarrow>
             (if stopped
              then (True, snd (RequeueDelivery (e_fault E 2) (e_now E 2) (d_ID d) (e_now E 2) (e_gap E 2 db)), [req])
              else (True, retryOrFail cfg E 2 (d_ID d) (d_AttemptCount d) 0 db, [req]))
         | Some code \<Rightarrow>
             (if 200 \<le> code \<and> code < 300
              then (True, snd (MarkDelivered (e_fault E 2) (e_now E 2) (d_ID d) code (e_gap E 2 db)), [req])
              else (True, retryOrFail cfg E 2 (d_ID d) (d_AttemptCount d) code db, [req])))))))"

section \<open>The worker is a store program\<close>

lemma fail_delivery_run:
  "env_within C E \<Longrightarrow> (store_step C)\<^sup>*\<^sup>* db0 db \<Longrightarrow> (store_step C)\<^sup>*\<^sup>* db0 (snd (FailDelivery f t i c (e_gap E k db)))"
  by (rule op_run [OF _ store_step.fail_del [OF prod.collapse [symmetric]]])

lemma requeue_delivery_run:
  "env_within C E \<Longrightarrow> (store_step C)\<^sup>*\<^sup>* db0 db \<Longrightarrow> (store_step C)\<^sup>*\<^sup>* db0 (snd (RequeueDelivery f t i n (e_gap E k db)))"
  by (rule op_run [OF _ store_step.requeue_del [OF prod.collapse [symmetric]]])

lemma delivered_run:
  "env_within C E \<Longrightarrow> (store_step C)\<^sup>*\<^sup>* db0 db \<Longrightarrow> (store_step C)\<^sup>*\<^sup>* db0 (snd (MarkDelivered f t i c (e_gap E k db)))"
  by (rule op_run [OF _ store_step.delivered [OF prod.collapse [symmetric]]])

lemma retryOrFail_run:
  "env_within C E \<Longrightarrow> (store_step C)\<^sup>*\<^sup>* db0 db \<Longrightarrow> (store_step C)\<^sup>*\<^sup>* db0 (retryOrFail cfg E k i a c db)"
  by (simp add: retryOrFail_def Let_def fail_delivery_run requeue_delivery_run)

lemma Delivery_one_runs:
  assumes "env_within C E"
  shows "(store_step C)\<^sup>*\<^sup>* db (fst (snd (Delivery_one cfg A hmac http stopped E db)))"
proof -
  obtain res db1 where c: "ClaimNextDelivery (e_fault E 0) (e_now E 0) (e_gap E 0 db) = (res, db1)" by force
  have s1: "(store_step C)\<^sup>*\<^sup>* db db1" by (rule op_run [OF assms store_step.claim_del [OF c]]) simp
  note s2 = gap_run [OF assms s1, of 1]
  note r = fail_delivery_run [OF assms s2] requeue_delivery_run [OF assms s2] delivered_run [OF assms s2] retryOrFail_run [OF assms s2]
  show ?thesis
    using c s1 r by (simp add: Delivery_one_def Let_def split: sum.split option.split)
qed

interpretation delivery_worker: store_program
  "\<lambda>(cfg, A, hmac, http, stopped, E) db. fst (snd (Delivery_one cfg A hmac http stopped E db))"
  "\<lambda>C (cfg, A, hmac, http, stopped, E). env_within C E"
  by unfold_locales (auto intro: Delivery_one_runs)

section \<open>What one iteration does to the delivery it claims\<close>

datatype delivery_verdict = Redeliver duration | GiveUp int | DeliveredAs int

definition retry_verdict :: "delivery_config \<Rightarrow> int \<Rightarrow> int \<Rightarrow> delivery_verdict" where
  "retry_verdict cfg attempts code =
     (if attempts < dc_MaxAttempts cfg then Redeliver (backoff attempts (dc_RetryBackoffMin cfg) (dc_RetryBackoffMax cfg))
      else GiveUp code)"

definition delivery_decision ::
  "delivery_config \<Rightarrow> aead \<Rightarrow> (bytes \<Rightarrow> bytes \<Rightarrow> bytes) \<Rightarrow> http_client \<Rightarrow> bool \<Rightarrow> subscription \<Rightarrow> bytes \<Rightarrow> int
     \<Rightarrow> delivery_verdict \<times> http_request list" where
  "delivery_decision cfg A hmac http stopped sub payload attempts =
     (case DecryptSecret A (dc_EncryptionKey cfg) (s_CallbackSecret sub) of
        Inl _ \<Rightarrow> (GiveUp 0, [])
      | Inr secret \<Rightarrow>
          (if \<not> hc_valid http (s_CallbackURL sub) then (GiveUp 0, [])
           else
             (let req = callback_request hmac (s_CallbackURL sub) secret payload in
              (case hc_Do http req of
                 None \<Rightarrow> if stopped then Redeliver 0 else retry_verdict cfg attempts 0
               | Some code \<Rightarrow> if code \<in> {200..<300} then DeliveredAs code else retry_verdict cfg attempts code, [req]))))"

definition settled_del :: "delivery_verdict \<Rightarrow> time \<Rightarrow> delivery_row \<Rightarrow> bool" where
  "settled_del v now r \<longleftrightarrow>
     (case v of
        Redeliver delay \<Rightarrow> del_state r = DeliveryPending \<and> del_next_attempt_at r = Some (utc (now + delay))
      | GiveUp code \<Rightarrow> del_state r = DeliveryFailed \<and> del_last_response_code r = Some code
      | DeliveredAs code \<Rightarrow> del_state r = DeliveryDelivered \<and> del_last_response_code r = Some code)"

definition put_del :: "delivery_row \<Rightarrow> delivery_row list \<Rightarrow> delivery_row list" where
  "put_del r' rows = map (\<lambda>p. if del_id p = del_id r' then r' else p) rows"

lemma put_del_put: "del_id r1 = del_id r2 \<Longrightarrow> put_del r2 (put_del r1 rows) = put_del r2 rows"
  by (auto simp: put_del_def)

text \<open>A guarded update of a delivery in the state it is in.\<close>

lemma delivery_moves:
  assumes "delivery_update f (del_id r) (del_state r)" and "outbox_inv db"
    and "row_by del_id (del_id r) (deliveries db) = Some r"
  obtains db' where "update_deliveries (del_id r) (del_state r) f db = (Inr (), db')"
    and "deliveries db' = put_del (f r) (deliveries db)" and "row_by del_id (del_id r) (deliveries db') = Some (f r)"
    and "outbox_inv db'" and "delivery_subscriptions db' = delivery_subscriptions db"
proof
  let ?db = "db\<lparr>deliveries := update_where (guarded_del (del_id r) (del_state r)) f (deliveries db)\<rparr>"
  show u: "update_deliveries (del_id r) (del_state r) f db = (Inr (), ?db)"
    using delivery_update.guarded_ok [OF assms(1,2)] assms(3) by simp
  have i: "del_id (f r) = del_id r" using keyed_update.key_kept [OF delivery_update.axioms(1) [OF assms(1)]] .
  have only: "p = r" if "p \<in> set (deliveries db)" "del_id p = del_id r" for p
    using row_by_unique [OF outbox_inv_deliveries [OF assms(2)] that(1)] assms(3) that(2) by (metis option.inject)
  show "deliveries ?db = put_del (f r) (deliveries db)"
    unfolding update_where_def put_del_def i by simp (auto simp: guarded_del_def dest: only)
  show "row_by del_id (del_id r) (deliveries ?db) = Some (f r)"
    using delivery_update.updated_row [OF assms(1,3) refl] by simp
  show "outbox_inv ?db"
    using delivery_update.update_deliveries_kept [OF assms(1) u assms(2)] by (simp add: outbox_kept_def)
  show "delivery_subscriptions ?db = delivery_subscriptions db" by simp
qed

text \<open>The three ways to leave the in-flight state.\<close>

definition leaves_del :: "delivery_row \<Rightarrow> delivery_verdict \<Rightarrow> time \<Rightarrow> db \<Rightarrow> db \<Rightarrow> bool" where
  "leaves_del r v now db db' \<longleftrightarrow>
     (\<exists>r'. deliveries db' = put_del r' (deliveries db) \<and> del_id r' = del_id r \<and> del_payload r' = del_payload r
        \<and> del_attempt_count r' = del_attempt_count r \<and> settled_del v now r' \<and> outbox_inv db')"

lemma flight_leaves:
  assumes "undisturbed E" and "outbox_inv db" and "row_by del_id (del_id r) (deliveries db) = Some r"
    and "del_state r = DeliveryInFlight"
  shows "leaves_del r (GiveUp c) now db (snd (FailDelivery (e_fault E k) now (del_id r) c (e_gap E k db)))"
    and "leaves_del r (DeliveredAs c) now db (snd (MarkDelivered (e_fault E k) now (del_id r) c (e_gap E k db)))"
    and "leaves_del r (Redeliver d) now db (snd (RequeueDelivery (e_fault E k) now (del_id r) (now + d) (e_gap E k db)))"
proof -
  have ups: "delivery_update (set_done DeliveryFailed c (utc now)) (del_id r) (del_state r)"
    "delivery_update (set_done DeliveryDelivered c (utc now)) (del_id r) (del_state r)"
    "delivery_update (set_pending (utc (now + d)) (utc now)) (del_id r) (del_state r)"
    unfolding assms(4) by (rule set_failed_del.delivery_update_axioms set_delivered.delivery_update_axioms
        set_pending.delivery_update_axioms)+
  have fin: "leaves_del r v now db db'"
    if "deliveries db' = put_del (f r) (deliveries db)" "outbox_inv db'" "del_id (f r) = del_id r"
      "del_payload (f r) = del_payload r" "del_attempt_count (f r) = del_attempt_count r" "settled_del v now (f r)"
    for f v db' using that unfolding leaves_del_def by blast
  show "leaves_del r (GiveUp c) now db (snd (FailDelivery (e_fault E k) now (del_id r) c (e_gap E k db)))"
    by (rule delivery_moves [OF ups(1) assms(2,3)])
      (use assms(1,4) in \<open>auto simp: FailDelivery_def settled_del_def set_done_def intro!: fin\<close>)
  show "leaves_del r (DeliveredAs c) now db (snd (MarkDelivered (e_fault E k) now (del_id r) c (e_gap E k db)))"
    by (rule delivery_moves [OF ups(2) assms(2,3)])
      (use assms(1,4) in \<open>auto simp: MarkDelivered_def settled_del_def set_done_def intro!: fin\<close>)
  show "leaves_del r (Redeliver d) now db (snd (RequeueDelivery (e_fault E k) now (del_id r) (now + d) (e_gap E k db)))"
    by (rule delivery_moves [OF ups(3) assms(2,3)])
      (use assms(1,4) in \<open>auto simp: RequeueDelivery_def settled_del_def set_pending_def intro!: fin\<close>)
qed

lemma leaves_del_put:
  assumes "leaves_del q v now db1 db2" and "deliveries db1 = put_del q (deliveries db)"
  shows "leaves_del q v now db db2"
  using assms unfolding leaves_del_def by (metis put_del_put)

lemma subscription_known:
  assumes "outbox_inv db" and "r \<in> set (deliveries db)"
  shows "\<exists>sub. GetSubscription False (del_subscription_id r) db = Inr sub"
proof -
  from assms(1) have "del_subscription_id ` set (deliveries db) \<subseteq> sub_id ` set (delivery_subscriptions db)"
    by (simp add: outbox_inv_def)
  from subsetD [OF this imageI [OF assms(2)]] have "del_subscription_id r \<in> sub_id ` set (delivery_subscriptions db)" .
  then have "row_by sub_id (del_subscription_id r) (delivery_subscriptions db) \<noteq> None" by (simp add: row_by_None)
  then show ?thesis by (auto simp: GetSubscription_def)
qed

lemma retry_leaves:
  assumes "undisturbed E" and "outbox_inv db" and "row_by del_id (del_id r) (deliveries db) = Some r"
    and "del_state r = DeliveryInFlight"
  shows "leaves_del r (retry_verdict cfg a c) (e_now E k) db (retryOrFail cfg E k (del_id r) a c db)"
  using flight_leaves [OF assms] by (simp add: retry_verdict_def retryOrFail_def Let_def)

lemma delivery_leaves:
  assumes "undisturbed E" and "outbox_inv db"
    and "first_by delivery_order (filter (due_delivery (utc (e_now E 0))) (deliveries db)) = Some r"
    and "GetSubscription False (del_subscription_id r) db = Inr sub"
    and q_def: "q = set_in_flight (utc (e_now E 0)) r"
    and v_def: "v = delivery_decision cfg A hmac http stopped sub (del_payload r) (del_attempt_count r + 1)"
  shows "\<exists>db'. Delivery_one cfg A hmac http stopped E db = (True, db', snd v) \<and> leaves_del q (fst v) (e_now E 2) db db'"
proof -
  note p = delivery_queue.picked [OF assms(3)]
  have rb: "row_by del_id (del_id r) (deliveries db) = Some r"
    using p row_by_unique [OF outbox_inv_deliveries [OF assms(2)]] by simp
  have st: "del_state r = DeliveryPending" using p by simp
  have "delivery_update (set_in_flight (utc (e_now E 0))) (del_id r) (del_state r)"
    unfolding st by (rule set_in_flight.delivery_update_axioms)
  from this assms(2) rb obtain db1 where u: "update_deliveries (del_id r) (del_state r) (set_in_flight (utc (e_now E 0))) db = (Inr (), db1)"
    and d1: "deliveries db1 = put_del q (deliveries db)" and r1: "row_by del_id (del_id r) (deliveries db1) = Some q"
    and i1: "outbox_inv db1" and s1: "delivery_subscriptions db1 = delivery_subscriptions db"
    unfolding q_def by (rule delivery_moves)
  have c: "ClaimNextDelivery False (e_now E 0) db = (Inr (Some (delivery_of_row q)), db1)"
    using ClaimNextDelivery_eq [OF assms(2), of "e_now E 0"] assms(3) u
    unfolding st by (simp add: q_def update_deliveries_def Let_def split: if_splits)
  have q: "del_id q = del_id r" "del_state q = DeliveryInFlight" "d_ID (delivery_of_row q) = del_id q"
    "d_SubscriptionID (delivery_of_row q) = del_subscription_id r" "d_Payload (delivery_of_row q) = del_payload r"
    "d_AttemptCount (delivery_of_row q) = del_attempt_count r + 1"
    by (simp_all add: q_def set_in_flight_def delivery_of_row_def)
  have sub: "GetSubscription False (del_subscription_id r) db1 = Inr sub" using assms(4) by (simp add: GetSubscription_def s1)
  have rq: "row_by del_id (del_id q) (deliveries db1) = Some q" using r1 q by simp
  note fl = flight_leaves [OF assms(1) i1 rq q(2)] and rt = retry_leaves [OF assms(1) i1 rq q(2)]
  have fl0: "leaves_del q (Redeliver 0) now db1 (snd (RequeueDelivery (e_fault E k) now (del_id q) now (e_gap E k db1)))" for now k
    using fl(3) [of 0 now k] by simp
  have "\<exists>db'. Delivery_one cfg A hmac http stopped E db = (True, db', snd v) \<and> leaves_del q (fst v) (e_now E 2) db1 db'"
    using c sub q assms(1) fl(1,2) fl0 rt
    by (simp add: Delivery_one_def v_def delivery_decision_def Let_def split: sum.split option.split)
  then show ?thesis using leaves_del_put d1 by blast
qed

lemma delivery_idle:
  assumes "undisturbed E" and "outbox_inv db"
    and "first_by delivery_order (filter (due_delivery (utc (e_now E 0))) (deliveries db)) = None"
  shows "Delivery_one cfg A hmac http stopped E db = (False, db, [])"
  using ClaimNextDelivery_eq [OF assms(2), of "e_now E 0"] assms(1,3) by (simp add: Delivery_one_def)

section \<open>Secrets\<close>

lemma DecryptSecret_EncryptSecret:
  assumes "aead_ok A" and "length nonce = NonceSize" and "EncryptSecret A (Some nonce) key p = Inr c"
  shows "DecryptSecret A key c = Inr p"
  using assms by (auto simp: EncryptSecret_def DecryptSecret_def aead_ok_def split: option.splits)

lemma run_subscriptions:
  "(store_step C)\<^sup>*\<^sup>* db db' \<Longrightarrow> store_inv db \<Longrightarrow> set (delivery_subscriptions db) \<subseteq> set (delivery_subscriptions db')"
proof (induction rule: rtranclp_induct)
  case (step db1 db2)
  have "store_inv db1" by (rule run_inv [OF step(1,4)])
  from step_inv [OF step(2) this] have "set (delivery_subscriptions db1) \<subseteq> set (delivery_subscriptions db2)"
    by (simp add: outbox_kept_def)
  with step show ?case by blast
qed simp

section \<open>Properties\<close>

text \<open>
  C3: An undisturbed iteration of the delivery worker refines the decision \<open>delivery_decision\<close>, which
  does not mention the store.  It takes the oldest due delivery, counts the attempt, and leaves that
  row, and no other, as decided: delivered exactly after a 2xx answer, failed when the secret or the
  URL is unusable or the attempts are used up, and otherwise pending again after the backoff (at once
  on shutdown).  At most one request is sent, and it is the signed payload.
\<close>

theorem delivery_outcome:
  assumes "outbox_inv db" and "undisturbed E"
    and "first_by delivery_order (filter (due_delivery (utc (e_now E 0))) (deliveries db)) = Some r"
  shows "\<exists>sub db' r'. GetSubscription False (del_subscription_id r) db = Inr sub
    \<and> Delivery_one cfg A hmac http stopped E db =
        (True, db', snd (delivery_decision cfg A hmac http stopped sub (del_payload r) (del_attempt_count r + 1)))
    \<and> deliveries db' = map (\<lambda>p. if del_id p = del_id r then r' else p) (deliveries db)
    \<and> del_id r' = del_id r \<and> del_payload r' = del_payload r \<and> del_attempt_count r' = del_attempt_count r + 1
    \<and> settled_del (fst (delivery_decision cfg A hmac http stopped sub (del_payload r) (del_attempt_count r + 1))) (e_now E 2) r'"
proof -
  have "r \<in> set (deliveries db)" using delivery_queue.picked [OF assms(3)] by simp
  from subscription_known [OF assms(1) this] obtain sub where s: "GetSubscription False (del_subscription_id r) db = Inr sub" ..
  have q: "del_id (set_in_flight t r) = del_id r" "del_payload (set_in_flight t r) = del_payload r"
    "del_attempt_count (set_in_flight t r) = del_attempt_count r + 1" for t by (simp_all add: set_in_flight_def)
  from delivery_leaves [OF assms(2,1,3) s refl refl, where cfg = cfg and A = A and hmac = hmac and http = http and stopped = stopped]
  obtain db' r' where "Delivery_one cfg A hmac http stopped E db =
      (True, db', snd (delivery_decision cfg A hmac http stopped sub (del_payload r) (del_attempt_count r + 1)))"
    and "deliveries db' = put_del r' (deliveries db)" "del_id r' = del_id r" "del_payload r' = del_payload r"
      "del_attempt_count r' = del_attempt_count r + 1"
      "settled_del (fst (delivery_decision cfg A hmac http stopped sub (del_payload r) (del_attempt_count r + 1))) (e_now E 2) r'"
    unfolding leaves_del_def q by (elim exE conjE)
  with s show ?thesis unfolding put_del_def by (intro exI conjI) simp_all
qed

definition sample_aead :: aead where
  "sample_aead = \<lparr>ae_Seal = (\<lambda>key nonce p. p), ae_Open = (\<lambda>key nonce c. Some c)\<rparr>"

definition sample_delivery_config :: delivery_config where
  "sample_delivery_config = \<lparr>dc_MaxAttempts = 5, dc_RetryBackoffMin = second, dc_RetryBackoffMax = 300 * second,
     dc_RequestTimeout = 10 * second, dc_EncryptionKey = replicate 32 0\<rparr>"

theorem delivery_outcome_witness:
  "\<exists>db' r' sent. Delivery_one sample_delivery_config sample_aead (\<lambda>k p. []) \<lparr>hc_valid = (\<lambda>_. True), hc_Do = (\<lambda>_. Some 204)\<rparr>
      False (calm 5) sample_outbox = (True, db', sent)
     \<and> deliveries db' = [r', sample_delivery ''y''] \<and> del_state r' = DeliveryFailed \<and> sent = []"
proof -
  have f: "first_by delivery_order (filter (due_delivery (utc (e_now (calm 5) 0))) (deliveries sample_outbox)) = Some (sample_delivery ''x'')"
    using sample_first_delivery by simp
  have ds: "deliveries sample_outbox = [sample_delivery ''x'', sample_delivery ''y'']"
    "del_id (sample_delivery ''x'') \<noteq> del_id (sample_delivery ''y'')"
    by (simp_all add: sample_outbox_def sample_delivery_def)
  have s: "GetSubscription False (del_subscription_id (sample_delivery ''x'')) sample_outbox =
      Inr \<lparr>s_ID = ''s'', s_ClientID = ''c'', s_CallbackURL = ''u'', s_CallbackSecret = [1], s_CreatedAt = 0\<rparr>"
    by (simp add: GetSubscription_def sample_outbox_def sample_delivery_def row_by_def)
  have v: "delivery_decision sample_delivery_config sample_aead (\<lambda>k p. []) \<lparr>hc_valid = (\<lambda>_. True), hc_Do = (\<lambda>_. Some 204)\<rparr>
      False \<lparr>s_ID = ''s'', s_ClientID = ''c'', s_CallbackURL = ''u'', s_CallbackSecret = [1], s_CreatedAt = 0\<rparr> pl n = (GiveUp 0, [])" for pl n
    by (simp add: delivery_decision_def DecryptSecret_def newGCM_def sample_delivery_config_def NonceSize_def)
  from delivery_outcome [OF sample_outbox_inv calm_undisturbed f, where cfg = sample_delivery_config and A = sample_aead
      and hmac = "\<lambda>k p. []" and http = "\<lparr>hc_valid = (\<lambda>_. True), hc_Do = (\<lambda>_. Some 204)\<rparr>" and stopped = False] ds
  show ?thesis unfolding s by (auto simp: v settled_del_def)
qed

text \<open>
  The delivery worker strands no delivery: when none is in flight before an undisturbed iteration,
  none is after it, whatever the callback answers; and it reports no work exactly when nothing is due.
\<close>

theorem delivery_never_strands:
  assumes "outbox_inv db" and "undisturbed E" and "\<forall>r \<in> set (deliveries db). del_state r \<noteq> DeliveryInFlight"
    and "Delivery_one cfg A hmac http stopped E db = (worked, db', sent)"
  shows "(\<forall>r \<in> set (deliveries db'). del_state r \<noteq> DeliveryInFlight)
    \<and> (worked \<longleftrightarrow> (\<exists>r \<in> set (deliveries db). due_delivery (utc (e_now E 0)) r))"
proof (cases "first_by delivery_order (filter (due_delivery (utc (e_now E 0))) (deliveries db))")
  case None
  with delivery_queue.none_picked delivery_idle [OF assms(2,1) None] assms show ?thesis by auto
next
  case (Some r)
  have p: "r \<in> set (deliveries db)" "due_delivery (utc (e_now E 0)) r" using delivery_queue.picked [OF Some] by simp_all
  from subscription_known [OF assms(1) p(1)] obtain sub where s: "GetSubscription False (del_subscription_id r) db = Inr sub" ..
  from delivery_leaves [OF assms(2,1) Some s refl refl, where cfg = cfg and A = A and hmac = hmac and http = http
      and stopped = stopped] assms(4)
  obtain r' v now where w: "worked" and d: "deliveries db' = put_del r' (deliveries db)" and st: "settled_del v now r'"
    unfolding leaves_del_def by auto
  from st have "del_state r' \<noteq> DeliveryInFlight" by (auto simp: settled_del_def split: delivery_verdict.splits)
  with d assms(3) have "\<forall>r \<in> set (deliveries db'). del_state r \<noteq> DeliveryInFlight" by (auto simp: put_del_def)
  with w p show ?thesis by blast
qed

theorem delivery_never_strands_witness:
  "\<exists>w db' sent. Delivery_one sample_delivery_config sample_aead (\<lambda>k p. []) \<lparr>hc_valid = (\<lambda>_. True), hc_Do = (\<lambda>_. None)\<rparr>
      True (calm 5) sample_outbox = (w, db', sent) \<and> (\<forall>r \<in> set (deliveries db'). del_state r \<noteq> DeliveryInFlight)"
proof -
  obtain w db' sent where o: "Delivery_one sample_delivery_config sample_aead (\<lambda>k p. [])
      \<lparr>hc_valid = (\<lambda>_. True), hc_Do = (\<lambda>_. None)\<rparr> True (calm 5) sample_outbox = (w, db', sent)" by (rule prod_cases3)
  have "\<forall>r \<in> set (deliveries sample_outbox). del_state r \<noteq> DeliveryInFlight"
    by (simp add: sample_outbox_def sample_delivery_def)
  from delivery_never_strands [OF sample_outbox_inv calm_undisturbed this o] o show ?thesis by blast
qed

text \<open>
  A callback is signed with the secret its client registered.  After \<open>registerCallback\<close> stored the
  secret encrypted under the key of the worker, and after any run of store operations, an undisturbed
  iteration that claims a delivery for that subscription posts the stored payload to the registered URL,
  with the HMAC of that payload under the original secret in the signature header.
\<close>

theorem callback_signed:
  assumes "aead_ok A" and "length nonce = NonceSize" and "length key = 32"
    and "sv_encryptSecret s = Some (\<lambda>p. case EncryptSecret A (Some nonce) key p of Inl _ \<Rightarrow> None | Inr c \<Rightarrow> Some c)"
    and "registerCallback s E0 k clientID url secret db0 = (Inr subID, db1)" and "store_inv db1"
    and "(store_step C)\<^sup>*\<^sup>* db1 db"
    and "undisturbed E" and "first_by delivery_order (filter (due_delivery (utc (e_now E 0))) (deliveries db)) = Some r"
    and "del_subscription_id r = subID" and "dc_EncryptionKey cfg = key" and "hc_valid http url"
  shows "\<exists>db'. Delivery_one cfg A hmac http stopped E db =
    (True, db', [\<lparr>hr_URL = url, hr_Body = del_payload r,
       hr_Header = [(''Content-Type'', ''application/json''),
         (''X-GMLC-Signature'', ''sha256='' @ EncodeToString (hmac (byte_string secret) (del_payload r)))]\<rparr>])"
proof -
  obtain c where c: "EncryptSecret A (Some nonce) key (byte_string secret) = Inr c"
    using assms(3) by (simp add: EncryptSecret_def newGCM_def)
  define x where "x = \<lparr>sub_id = subID, sub_client_id = clientID, sub_callback_url = url, sub_callback_secret = c,
    sub_created_at = utc (e_now E0 k)\<rparr>"
  have x: "x \<in> set (delivery_subscriptions db1)" "sub_id x = subID" "sub_callback_url x = url" "sub_callback_secret x = c"
    using assms(4,5) c
    by (auto simp: x_def registerCallback_def CreateSubscription_def exec_def Let_def split: prod.splits sum.splits if_splits)
  have x': "x \<in> set (delivery_subscriptions db)" using run_subscriptions [OF assms(7,6)] x(1) by blast
  have i: "outbox_inv db" using run_inv [OF assms(7,6)] by (simp add: store_inv_def)
  then have "key_unique sub_id (delivery_subscriptions db)" by (simp add: outbox_inv_def)
  from row_by_unique [OF this x'] x(2) have "row_by sub_id subID (delivery_subscriptions db) = Some x" by simp
  then have g: "GetSubscription False (del_subscription_id r) db = Inr \<lparr>s_ID = sub_id x, s_ClientID = sub_client_id x,
      s_CallbackURL = sub_callback_url x, s_CallbackSecret = sub_callback_secret x, s_CreatedAt = parseTime (sub_created_at x)\<rparr>"
    by (simp add: GetSubscription_def assms(10))
  have d: "DecryptSecret A key c = Inr (byte_string secret)" by (rule DecryptSecret_EncryptSecret [OF assms(1,2) c])
  have "snd (delivery_decision cfg A hmac http stopped \<lparr>s_ID = sub_id x, s_ClientID = sub_client_id x,
      s_CallbackURL = sub_callback_url x, s_CallbackSecret = sub_callback_secret x, s_CreatedAt = parseTime (sub_created_at x)\<rparr>
      (del_payload r) (del_attempt_count r + 1)) = [callback_request hmac url (byte_string secret) (del_payload r)]"
    using d x assms(11,12) by (simp add: delivery_decision_def Let_def)
  with delivery_leaves [OF assms(8) i assms(9) g refl refl, where cfg = cfg and A = A and hmac = hmac and http = http
      and stopped = stopped]
  show ?thesis by (auto simp: callback_request_def Sign_def SignatureHeader_def)
qed

text \<open>
  C40: The delay before a retry, for a positive maximum: it is positive and at most the maximum, whatever the
  minimum and the number of attempts, and it is the maximum from the 34th attempt on.  Until then, when the
  minimum is positive and the minimum doubled with each attempt still fits into 63 bits, the delay is
  that product, capped at the maximum; it is then at least the minimum, if that is not above the
  maximum.  With a minimum below \<open>2^31\<close> nanoseconds (2.1 seconds) the product fits for every attempt.
\<close>

theorem backoff_spec:
  assumes "0 < mx"
  shows "0 < backoff attempts mn mx \<and> backoff attempts mn mx \<le> mx
    \<and> (33 < attempts \<longrightarrow> backoff attempts mn mx = mx)
    \<and> (attempts \<le> 33 \<and> 0 < mn \<and> mn * 2 ^ nat (max 1 attempts - 1) < 2 ^ 63 \<longrightarrow>
         backoff attempts mn mx = min mx (mn * 2 ^ nat (max 1 attempts - 1))
         \<and> (mn \<le> mx \<longrightarrow> mn \<le> backoff attempts mn mx))
    \<and> (attempts \<le> 33 \<and> mn < 2 ^ 31 \<longrightarrow> mn * 2 ^ nat (max 1 attempts - 1) < 2 ^ 63)"
proof -
  define n where "n = nat (max 1 attempts - 1)"
  have "0 < backoff attempts mn mx \<and> backoff attempts mn mx \<le> mx \<and> (33 < attempts \<longrightarrow> backoff attempts mn mx = mx)"
    using assms by (auto simp: backoff_def Let_def)
  moreover have "backoff attempts mn mx = min mx (mn * 2 ^ n) \<and> (mn \<le> mx \<longrightarrow> mn \<le> backoff attempts mn mx)"
    if a: "attempts \<le> 33" "0 < mn" "mn * 2 ^ n < 2 ^ 63"
  proof -
    have "(if attempts < 1 then 1 else attempts) - 1 = int n" "n \<le> 32" using a(1) by (auto simp: n_def)
    moreover have lo: "mn \<le> mn * 2 ^ n" using a(2) mult_left_mono [of 1 "2 ^ n" mn] by simp
    moreover have "swrap64 (mn * 2 ^ n) = mn * 2 ^ n" using a lo by (intro swrap64_id) linarith+
    ultimately have "backoff attempts mn mx = min mx (mn * 2 ^ n)"
      using a(2) unfolding backoff_def Let_def by (auto simp: min_def mult_le_0_iff)
    with lo show ?thesis by simp
  qed
  moreover have "mn * 2 ^ n < 2 ^ 63" if a: "attempts \<le> 33" "mn < 2 ^ 31"
  proof -
    have p: "(2 :: int) ^ n \<le> 2 ^ 32" using a(1) power_increasing [of n 32 "2 :: int"] by (simp add: n_def)
    have "mn * 2 ^ n \<le> (2 ^ 31 - 1) * 2 ^ n" using a(2) by (intro mult_right_mono) simp_all
    also have "\<dots> \<le> (2 ^ 31 - 1) * 2 ^ 32" using p by (intro mult_left_mono) simp_all
    finally show ?thesis by simp
  qed
  ultimately show ?thesis unfolding n_def [symmetric] by blast
qed

theorem backoff_spec_witness:
  "backoff 3 second (300 * second) = 4 * second \<and> second \<le> backoff 3 second (300 * second)
   \<and> backoff 34 second (300 * second) = 300 * second"
  using backoff_spec [of "300 * second" 3 second] backoff_spec [of "300 * second" 34 second] by simp

text \<open>
  The overflow guard of the backoff misses a product that wraps to a positive value: with a minimum
  of \<open>2^32 + 1\<close> nanoseconds (4.3 seconds) the 33rd attempt is retried after less than the minimum.
\<close>

theorem backoff_wraps:
  "backoff 33 (2 ^ 32 + 1) (5 * 60 * second) = 2 ^ 32 \<and> backoff 33 (2 ^ 32 + 1) (5 * 60 * second) < 2 ^ 32 + 1"
  by (simp add: backoff_def swrap64_def)

definition sample_encryptor :: "bytes \<Rightarrow> bytes option" where
  "sample_encryptor p = (case EncryptSecret sample_aead (Some (replicate 12 0)) (replicate 32 0) p of Inl _ \<Rightarrow> None | Inr c \<Rightarrow> Some c)"

definition sample_subscribed :: db where
  "sample_subscribed = snd (registerCallback (sample_service\<lparr>sv_encryptSecret := Some sample_encryptor\<rparr>) (calm 5) 0
     ''c'' ''u'' ''k'' sample_clients)"

definition sample_due :: db where
  "sample_due = snd (CreateDelivery False 5 ''d'' (e_uuid (calm 5) 0) [7] sample_subscribed)"

lemma sample_register:
  "registerCallback (sample_service\<lparr>sv_encryptSecret := Some sample_encryptor\<rparr>) (calm 5) 0 ''c'' ''u'' ''k'' sample_clients =
     (Inr (e_uuid (calm 5) 0), sample_subscribed)"
  by (simp add: sample_subscribed_def registerCallback_def sample_encryptor_def EncryptSecret_def newGCM_def calm_def
      CreateSubscription_def Let_def sample_clients_def sample_db_def empty_db_def sample_client_def row_by_def)

lemma sample_subscribed_inv: "store_inv sample_subscribed"
  using run_inv [OF registerCallback_runs [OF alone_ok [OF calm_alone] rtranclp.rtrancl_refl] sample_clients_inv]
  by (simp add: sample_subscribed_def)

lemma sample_due_run: "(store_step C)\<^sup>*\<^sup>* sample_subscribed sample_due"
  unfolding sample_due_def by (rule r_into_rtranclp) (rule store_step.create_del [OF prod.collapse [symmetric]])

lemma sample_due_deliveries:
  "deliveries sample_due = [\<lparr>del_id = ''d'', del_subscription_id = e_uuid (calm 5) 0, del_payload = [7],
     del_state = DeliveryPending, del_attempt_count = 0, del_next_attempt_at = None, del_last_response_code = None,
     del_created_at = utc 5, del_updated_at = utc 5\<rparr>]"
  by (simp add: sample_due_def CreateDelivery_def Let_def sample_subscribed_def registerCallback_def sample_encryptor_def
      EncryptSecret_def newGCM_def calm_def CreateSubscription_def sample_clients_def sample_db_def empty_db_def
      sample_client_def row_by_def)

theorem callback_signed_witness:
  "\<exists>db' req. Delivery_one sample_delivery_config sample_aead (\<lambda>k p. k @ p) \<lparr>hc_valid = (\<lambda>_. True), hc_Do = (\<lambda>_. Some 204)\<rparr>
      False (calm 5) sample_due = (True, db', [req]) \<and> hr_URL req = ''u'' \<and> hr_Body req = [7]
     \<and> map_of (hr_Header req) SignatureHeader = Some (''sha256='' @ EncodeToString (byte_string ''k'' @ [7]))"
proof -
  let ?s = "sample_service\<lparr>sv_encryptSecret := Some sample_encryptor\<rparr>"
  let ?r = "\<lparr>del_id = ''d'', del_subscription_id = e_uuid (calm 5) 0, del_payload = [7],
     del_state = DeliveryPending, del_attempt_count = 0, del_next_attempt_at = None, del_last_response_code = None,
     del_created_at = utc 5, del_updated_at = utc 5\<rparr>"
  have a: "aead_ok sample_aead" by (simp add: aead_ok_def sample_aead_def)
  have n: "length (replicate 12 0 :: bytes) = NonceSize" "length (replicate 32 0 :: bytes) = 32" by (simp_all add: NonceSize_def)
  have e: "sv_encryptSecret ?s = Some (\<lambda>p. case EncryptSecret sample_aead (Some (replicate 12 0)) (replicate 32 0) p of
      Inl _ \<Rightarrow> None | Inr c \<Rightarrow> Some c)" by (simp add: sample_encryptor_def [abs_def])
  have f: "first_by delivery_order (filter (due_delivery (utc (e_now (calm 5) 0))) (deliveries sample_due)) = Some ?r"
    by (simp add: sample_due_deliveries due_delivery_def)
  have k: "dc_EncryptionKey sample_delivery_config = replicate 32 0" by (simp add: sample_delivery_config_def)
  have v: "hc_valid \<lparr>hc_valid = (\<lambda>_. True), hc_Do = (\<lambda>_. Some 204)\<rparr> ''u''" by simp
  from callback_signed [OF a n e sample_register sample_subscribed_inv sample_due_run calm_undisturbed f _ k v,
      where hmac = "\<lambda>k p. k @ p" and stopped = False]
  show ?thesis by (auto simp: SignatureHeader_def)
qed

lemma map_of_entry: "map_of (entry k f v) x = (if x = k then map_option f v else None)"
  by (simp add: entry_def split: option.split)

lemma keys_entry: "map fst (entry k f v) = (if v = None then [] else [k])"
  by (cases v) (simp_all add: entry_def)

definition coordinates :: "loc_result \<Rightarrow> (string \<times> json) list" where
  "coordinates v = (case (rs_Latitude v, rs_Longitude v) of
     (Some lat, Some lon) \<Rightarrow> [(''latitude'', jnumber lat), (''longitude'', jnumber lon)] | _ \<Rightarrow> [])"

lemma coordinates_keys: "map fst (coordinates v) = (if rs_Latitude v = None \<or> rs_Longitude v = None then [] else [''latitude'', ''longitude''])"
  by (simp add: coordinates_def split: option.split)

lemma map_of_coordinates:
  "map_of (coordinates v) x = (if x = ''latitude'' \<and> rs_Longitude v \<noteq> None then map_option jnumber (rs_Latitude v)
     else if x = ''longitude'' \<and> rs_Latitude v \<noteq> None then map_option jnumber (rs_Longitude v) else None)"
  by (simp add: coordinates_def split: option.split)

lemma distinct_subseq: "subseq xs ys \<Longrightarrow> distinct ys \<Longrightarrow> distinct xs"
  by (auto simp: subseq_conv_nths)

lemma subseq_keys:
  "subseq (map fst (entry k f v)) [k]" "subseq (map fst (if b then [(k, y)] else [])) [k]"
  "subseq (map fst (coordinates w)) [''latitude'', ''longitude'']"
  by (simp_all add: keys_entry coordinates_keys)

lemma result_keys:
  "\<exists>fields. result_json v = JObject fields \<and> subseq (map fst fields)
     ([''created_at''] @ [''shape''] @ [''latitude'', ''longitude''] @ [''ecgi''] @ [''uncertainty_meters'']
      @ [''semi_major_meters''] @ [''semi_minor_meters''] @ [''orientation_degrees''] @ [''confidence_percent'']
      @ [''age_of_location_estimate_minutes''] @ [''accuracy_fulfilment''])"
  unfolding result_json_def coordinates_def [symmetric]
  by (intro exI conjI, rule refl) (unfold map_append, intro list_emb_append_mono subseq_keys, simp)

lemma map_of_if: "map_of (if b then [(k, y)] else []) x = (if b \<and> x = k then Some y else None)"
  by simp

lemma result_fields:
  "\<exists>fields. result_json v = JObject fields
        \<and> map_of fields ''latitude'' = (if rs_Longitude v = None then None else map_option jnumber (rs_Latitude v))
        \<and> map_of fields ''longitude'' = (if rs_Latitude v = None then None else map_option jnumber (rs_Longitude v))
        \<and> map_of fields ''ecgi'' = (if rs_ECGI v = [] then None else Some (JBytes (rs_ECGI v)))
        \<and> distinct (map fst fields)"
  unfolding result_json_def coordinates_def [symmetric]
  apply (intro exI conjI, rule refl)
  subgoal by (simp add: map_of_entry map_of_coordinates map_of_if map_add_def split: option.split)
  subgoal by (simp add: map_of_entry map_of_coordinates map_of_if map_add_def split: option.split)
  subgoal by (simp add: map_of_entry map_of_coordinates map_of_if map_add_def split: option.split)
  subgoal using result_keys [of v] unfolding result_json_def coordinates_def [symmetric]
    by (elim exE conjE) (rule distinct_subseq, unfold json.inject, hypsubst, assumption, simp)
  done

text \<open>
  The payload of a callback carries a result exactly when the request is completed, and then, besides
  the time, coordinates exactly when the result has both; a completion with only a cell identity still
  carries it.  The priority and the requested quality are included exactly when the request had them.
\<close>

theorem RequestJSON_result:
  "(map_of (RequestJSON r v) ''result'' = (if rq_State r = StateCompleted then Some (result_json v) else None))
    \<and> (\<exists>fields. result_json v = JObject fields
        \<and> map_of fields ''latitude'' = (if rs_Longitude v = None then None else map_option jnumber (rs_Latitude v))
        \<and> map_of fields ''longitude'' = (if rs_Latitude v = None then None else map_option jnumber (rs_Longitude v))
        \<and> map_of fields ''ecgi'' = (if rs_ECGI v = [] then None else Some (JBytes (rs_ECGI v)))
        \<and> distinct (map fst fields))
    \<and> map_of (RequestJSON r v) ''priority'' = map_option JUint (rq_Priority r)
    \<and> map_of (RequestJSON r v) ''qos'' = qosFromDomain (rq_QoS r)"
  using result_fields [of v]
  by (intro conjI) (simp_all add: RequestJSON_def map_of_entry map_add_def split: option.split)

end
