(* ===== verification/GMLC_Workers.thy ===== *)
theory GMLC_Workers
  imports GMLC_Delivery
begin

text \<open>
  The goroutines of the two workers, \<open>orchestrator.Worker\<close> and \<open>delivery.Worker\<close>: the same shell around their
  iterations (\<open>Start\<close>, \<open>Notify\<close>, \<open>Close\<close>, \<open>loop\<close>), and the map of active requests that \<open>Cancel\<close> uses.  The shell is
  a state machine over its channels; what an iteration does to the store is \<open>one\<close> and \<open>Delivery_one\<close>.
\<close>

section \<open>The shell of a worker\<close>

text \<open>
  Where the goroutine of \<open>loop\<close> is: not started, at the head of the loop, in an iteration, in the \<open>select\<close>, or
  returned, which closes \<open>done\<close>.
\<close>

datatype loop_phase = NotStarted | AtHead | Iterating | Selecting | Returned

text \<open>\<open>wake\<close> has room for one token; \<open>wk_ctx_done\<close> says that the context made by \<open>Start\<close> is cancelled.\<close>

record worker =
  wk_wake :: bool
  wk_started :: bool
  wk_ctx_done :: bool
  wk_phase :: loop_phase

definition worker_New :: worker where
  "worker_New = \<lparr>wk_wake = False, wk_started = False, wk_ctx_done = False, wk_phase = NotStarted\<rparr>"

definition worker_Start :: "worker \<Rightarrow> worker" where
  "worker_Start w = w\<lparr>wk_started := True, wk_phase := AtHead\<rparr>"

text \<open>A send that does not block: when the token is there already, it is dropped.\<close>

definition Notify :: "worker \<Rightarrow> worker" where
  "Notify w = w\<lparr>wk_wake := True\<rparr>"

text \<open>The cancellation in \<open>Close\<close>, which then waits for \<open>done\<close> or for its own context.\<close>

definition Close_cancel :: "worker \<Rightarrow> worker" where
  "Close_cancel w = (if wk_started w then w\<lparr>wk_ctx_done := True\<rparr> else w)"

definition Close_returns :: "worker \<Rightarrow> bool \<Rightarrow> bool option" where
  "Close_returns w ctx_done =
     (if wk_phase w = Returned then Some True else if ctx_done then Some False else None)"

text \<open>
  What happens to a worker: the calls of others, and the steps of its loop with their guards.  An iteration
  ends with what \<open>one\<close> returned.  A claim under a cancelled context fails, so that iteration returns false.
\<close>

datatype worker_event =
  Started | Notified | Cancelled | Begins | Ends bool | Woken | Ticked | Stops

fun worker_step :: "worker_event \<Rightarrow> worker \<Rightarrow> worker option" where
  "worker_step Started w = (if wk_phase w = NotStarted then Some (worker_Start w) else None)"
| "worker_step Notified w = Some (Notify w)"
| "worker_step Cancelled w = Some (Close_cancel w)"
| "worker_step Begins w = (if wk_phase w = AtHead then Some (w\<lparr>wk_phase := Iterating\<rparr>) else None)"
| "worker_step (Ends worked) w =
     (if wk_phase w = Iterating then Some (w\<lparr>wk_phase := (if worked then AtHead else Selecting)\<rparr>) else None)"
| "worker_step Woken w =
     (if wk_phase w = Selecting \<and> wk_wake w then Some (w\<lparr>wk_phase := AtHead, wk_wake := False\<rparr>) else None)"
| "worker_step Ticked w = (if wk_phase w = Selecting then Some (w\<lparr>wk_phase := AtHead\<rparr>) else None)"
| "worker_step Stops w = (if wk_phase w = Selecting \<and> wk_ctx_done w then Some (w\<lparr>wk_phase := Returned\<rparr>) else None)"

fun worker_run :: "worker_event list \<Rightarrow> worker \<Rightarrow> worker option" where
  "worker_run [] w = Some w"
| "worker_run (e # es) w = (case worker_step e w of None \<Rightarrow> None | Some w' \<Rightarrow> worker_run es w')"

section \<open>The active requests of the request worker\<close>

text \<open>
  \<open>active\<close> maps the request an iteration works on to the cancellation of its context; here the value says whether
  that context is cancelled.
\<close>

type_synonym active = "string \<rightharpoonup> bool"

definition active_enter :: "string \<Rightarrow> active \<Rightarrow> active" where
  "active_enter i a = a(i \<mapsto> False)"

definition active_leave :: "string \<Rightarrow> active \<Rightarrow> active" where
  "active_leave i a = a(i := None)"

definition worker_Cancel :: "string \<Rightarrow> active \<Rightarrow> active" where
  "worker_Cancel i a = (case a i of None \<Rightarrow> a | Some _ \<Rightarrow> a(i \<mapsto> True))"

section \<open>Runs\<close>

lemma worker_run_append:
  "worker_run (es @ es') w = (case worker_run es w of None \<Rightarrow> None | Some w' \<Rightarrow> worker_run es' w')"
  by (induction es w rule: worker_run.induct) (simp_all split: option.split)

text \<open>While no iteration has begun since a notification, the token is there or the loop is about to begin one.\<close>

lemma notice_kept:
  assumes "worker_run es w = Some w'" and "Begins \<notin> set es" and "wk_wake w \<or> wk_phase w = AtHead"
  shows "wk_wake w' \<or> wk_phase w' = AtHead"
  using assms
proof (induction es w rule: worker_run.induct)
  case (2 e es w)
  then obtain w1 where w1: "worker_step e w = Some w1" "worker_run es w1 = Some w'" by (auto split: option.splits)
  have "wk_wake w1 \<or> wk_phase w1 = AtHead"
    using w1(1) 2(3,4) by (cases e) (auto simp: worker_Start_def Notify_def Close_cancel_def split: if_splits)
  with 2 w1 show ?case by auto
qed simp

lemma started_run:
  "worker_run es w = Some w' \<Longrightarrow> wk_started w \<Longrightarrow> wk_phase w \<noteq> NotStarted \<Longrightarrow> wk_started w' \<and> wk_phase w' \<noteq> NotStarted"
proof (induction es w rule: worker_run.induct)
  case (2 e es w)
  then obtain w1 where w1: "worker_step e w = Some w1" "worker_run es w1 = Some w'" by (auto split: option.splits)
  have "wk_started w1 \<and> wk_phase w1 \<noteq> NotStarted"
    using w1(1) 2(3,4) by (cases e) (auto simp: worker_Start_def Notify_def Close_cancel_def split: if_splits)
  with 2 w1 show ?case by simp
qed simp

lemma cancelled_run:
  assumes "worker_run es w = Some w'" and "wk_ctx_done w"
  shows "wk_ctx_done w'"
  using assms
proof (induction es w rule: worker_run.induct)
  case (2 e es w)
  then obtain w1 where w1: "worker_step e w = Some w1" "worker_run es w1 = Some w'" by (auto split: option.splits)
  have "wk_ctx_done w1"
    using w1(1) 2(3) by (cases e) (auto simp: worker_Start_def Notify_def Close_cancel_def split: if_splits)
  with 2 w1 show ?case by simp
qed simp

section \<open>Iterating until nothing is due\<close>

text \<open>The iterations of a loop between two waits: \<open>n\<close> counts them.\<close>

partial_function (option) drain :: "(nat \<Rightarrow> db \<Rightarrow> bool \<times> db) \<Rightarrow> nat \<Rightarrow> db \<Rightarrow> (nat \<times> db) option" where
  "drain iter n db = (case iter n db of (worked, db') \<Rightarrow> if worked then drain iter (n + 1) db' else Some (n, db'))"

text \<open>
  A worker whose every iteration uses up some of a finite budget while something is due, and idles when
  nothing is: it comes to rest.
\<close>

locale draining =
  fixes iter :: "nat \<Rightarrow> db \<Rightarrow> bool \<times> db" and inv :: "db \<Rightarrow> bool" and due :: "nat \<Rightarrow> db \<Rightarrow> bool" and budget :: "db \<Rightarrow> nat"
  assumes works: "inv db \<Longrightarrow> due n db \<Longrightarrow> iter n db = (worked, db') \<Longrightarrow> worked \<and> inv db' \<and> budget db' < budget db"
    and idles: "inv db \<Longrightarrow> \<not> due n db \<Longrightarrow> iter n db = (False, db)"
begin

lemma rests:
  "inv db \<Longrightarrow> \<exists>k db'. drain iter n db = Some (k, db') \<and> n \<le> k \<and> k \<le> n + budget db \<and> inv db' \<and> \<not> due k db'"
proof (induction "budget db" arbitrary: n db rule: less_induct)
  case less
  show ?case
  proof (cases "due n db")
    case True
    obtain worked db1 where i: "iter n db = (worked, db1)" by force
    from works [OF less.prems True i] have w: "worked" "inv db1" "budget db1 < budget db" by simp_all
    from less.hyps [OF w(3,2), of "n + 1"] obtain k db' where
      "drain iter (n + 1) db1 = Some (k, db')" "n + 1 \<le> k" "k \<le> n + 1 + budget db1" "inv db'" "\<not> due k db'" by blast
    with i w show ?thesis
      by (intro exI [of _ k] exI [of _ db'] conjI) (simp_all add: drain.simps [of iter n db])
  next
    case False
    with idles [OF less.prems False] less.prems show ?thesis
      by (intro exI [of _ n] exI [of _ db] conjI) (simp_all add: drain.simps [of iter n db])
  qed
qed

end

section \<open>The request worker comes to rest\<close>

text \<open>The environment of iteration \<open>n\<close> when the store does not fail and nobody interferes.\<close>

definition quiet :: "(nat \<Rightarrow> nat \<Rightarrow> time) \<Rightarrow> (nat \<Rightarrow> nat \<Rightarrow> string) \<Rightarrow> nat \<Rightarrow> env" where
  "quiet clock uuid n = \<lparr>e_gap = (\<lambda>_ db. db), e_fault = (\<lambda>_. False), e_now = clock n, e_uuid = uuid n\<rparr>"

lemma quiet_simps [simp]: "undisturbed (quiet clock uuid n)" "alone (quiet clock uuid n)" "e_now (quiet clock uuid n) = clock n"
  by (simp_all add: quiet_def undisturbed_def alone_def)

text \<open>One iteration of the request worker with the completion hook of \<open>main\<close>; the network may answer differently each time.\<close>

definition request_iteration ::
  "(nat \<Rightarrow> nat \<Rightarrow> time) \<Rightarrow> (nat \<Rightarrow> nat \<Rightarrow> string) \<Rightarrow> (request \<Rightarrow> loc_result \<Rightarrow> bytes option)
     \<Rightarrow> (nat \<Rightarrow> target \<Rightarrow> resolve_error + serving_node)
     \<Rightarrow> (nat \<Rightarrow> serving_node \<Rightarrow> location_request \<Rightarrow> provide_error + positioning_result) \<Rightarrow> nat \<Rightarrow> db \<Rightarrow> bool \<times> db" where
  "request_iteration clock uuid marshal resolver provider n db =
     (case one (Some (completionHook (quiet clock uuid n) 8 marshal)) (quiet clock uuid n) (\<lambda>_. False) (resolver n) (provider n) db of
        (worked, db', _) \<Rightarrow> (worked, db'))"

lemma one_inv:
  assumes "undisturbed E" and "hook_quiet h" and "requests_inv db" and "one h E ctx resolver provider db = (worked, db', ns)"
  shows "requests_inv db'"
proof (cases "first_by request_order (filter (claimable (utc (e_now E 0))) (location_requests db))")
  case None
  with idle [OF assms(1,3) None] assms(3,4) show ?thesis by simp
next
  case (Some q)
  from claimed_leaves [OF assms(1-3) Some, where ctx = ctx and resolver = resolver and provider = provider] assms(4)
  show ?thesis by (auto simp: leaves_def moved_def)
qed

interpretation request_worker: draining "request_iteration clock uuid marshal resolver provider" requests_inv
  "\<lambda>n db. \<exists>q \<in> set (location_requests db). claimable (utc (clock n 0)) q" workload
  for clock uuid marshal resolver provider
proof (unfold_locales, goal_cases)
  case (1 db n worked db')
  let ?h = "Some (completionHook (quiet clock uuid n) 8 marshal)"
  have h: "hook_quiet ?h" by (rule completionHook_quiet) simp
  from 1(3) obtain ns where o: "one ?h (quiet clock uuid n) (\<lambda>_. False) (resolver n) (provider n) db = (worked, db', ns)"
    by (auto simp: request_iteration_def split: prod.splits)
  have "\<exists>q \<in> set (location_requests db). claimable (utc (e_now (quiet clock uuid n) 0)) q" using 1(2) by simp
  with worker_drains [OF 1(1) quiet_simps(1) h _ o] one_inv [OF quiet_simps(1) h 1(1) o] show ?case by simp
next
  case (2 db n)
  let ?h = "Some (completionHook (quiet clock uuid n) 8 marshal)"
  obtain worked db' ns where o: "one ?h (quiet clock uuid n) (\<lambda>_. False) (resolver n) (provider n) db = (worked, db', ns)"
    by (rule prod_cases3)
  have h: "hook_quiet ?h" by (rule completionHook_quiet) simp
  from worker_drains [OF 2(1) quiet_simps(1) h _ o] 2(2) o show ?case by (simp add: request_iteration_def)
qed

section \<open>The delivery worker comes to rest\<close>

definition delivery_iteration ::
  "delivery_config \<Rightarrow> aead \<Rightarrow> (bytes \<Rightarrow> bytes \<Rightarrow> bytes) \<Rightarrow> (nat \<Rightarrow> http_client) \<Rightarrow> (nat \<Rightarrow> nat \<Rightarrow> time) \<Rightarrow> (nat \<Rightarrow> nat \<Rightarrow> string)
     \<Rightarrow> nat \<Rightarrow> db \<Rightarrow> bool \<times> db" where
  "delivery_iteration cfg A hmac http clock uuid n db =
     (case Delivery_one cfg A hmac (http n) False (quiet clock uuid n) db of (worked, db', _) \<Rightarrow> (worked, db'))"

definition remaining_del :: "delivery_config \<Rightarrow> delivery_row \<Rightarrow> nat" where
  "remaining_del cfg r = (if del_state r = DeliveryPending then nat (max 1 (dc_MaxAttempts cfg - del_attempt_count r)) else 0)"

definition outbox_load :: "delivery_config \<Rightarrow> db \<Rightarrow> nat" where
  "outbox_load cfg db = (\<Sum>r \<leftarrow> deliveries db. remaining_del cfg r)"

lemma settled_del_remaining:
  assumes "settled_del (fst (delivery_decision cfg A hmac http False sub payload (del_attempt_count r + 1))) now r'"
    and "del_attempt_count r' = del_attempt_count r + 1" and "del_state r = DeliveryPending"
  shows "remaining_del cfg r' < remaining_del cfg r"
  using assms
  by (auto simp: settled_del_def delivery_decision_def retry_verdict_def remaining_del_def Let_def
      split: sum.splits option.splits if_splits)

lemma delivery_drains:
  assumes "outbox_inv db" and "undisturbed E" and "Delivery_one cfg A hmac http False E db = (worked, db', sent)"
    and "\<exists>r \<in> set (deliveries db). due_delivery (utc (e_now E 0)) r"
  shows "worked \<and> outbox_inv db' \<and> outbox_load cfg db' < outbox_load cfg db"
proof (cases "first_by delivery_order (filter (due_delivery (utc (e_now E 0))) (deliveries db))")
  case None
  with delivery_queue.none_picked assms(4) show ?thesis by auto
next
  case (Some r)
  note p = delivery_queue.picked [OF Some]
  from p have "r \<in> set (deliveries db)" by simp
  from subscription_known [OF assms(1) this] obtain sub where s: "GetSubscription False (del_subscription_id r) db = Inr sub" ..
  from delivery_leaves [OF assms(2,1) Some s refl refl, where cfg = cfg and A = A and hmac = hmac and http = http and stopped = False]
    assms(3) obtain r' where w: "worked" and d: "deliveries db' = put_del r' (deliveries db)" and i: "del_id r' = del_id r"
      and a: "del_attempt_count r' = del_attempt_count r + 1" and o: "outbox_inv db'"
      and t: "settled_del (fst (delivery_decision cfg A hmac http False sub (del_payload r) (del_attempt_count r + 1))) (e_now E 2) r'"
    by (auto simp: leaves_del_def set_in_flight_def)
  have "del_state r = DeliveryPending" using p by simp
  from settled_del_remaining [OF t a this] have "remaining_del cfg r' < remaining_del cfg r" .
  from replaced_less [OF outbox_inv_deliveries [OF assms(1)] _ i, where f = "remaining_del cfg"] this p
  have "outbox_load cfg db' < outbox_load cfg db" by (simp add: outbox_load_def d put_del_def)
  with w o show ?thesis by simp
qed

interpretation delivery_worker: draining "delivery_iteration cfg A hmac http clock uuid" outbox_inv
  "\<lambda>n db. \<exists>r \<in> set (deliveries db). due_delivery (utc (clock n 0)) r" "outbox_load cfg"
  for cfg A hmac http clock uuid
proof (unfold_locales, goal_cases)
  case (1 db n worked db')
  from 1(3) obtain sent where o: "Delivery_one cfg A hmac (http n) False (quiet clock uuid n) db = (worked, db', sent)"
    by (auto simp: delivery_iteration_def split: prod.splits)
  show ?case by (rule delivery_drains [OF 1(1) quiet_simps(1) o]) (use 1(2) in simp)
next
  case (2 db n)
  have "first_by delivery_order (filter (due_delivery (utc (e_now (quiet clock uuid n) 0))) (deliveries db)) = None"
    using 2(2) delivery_queue.none_picked by auto
  from delivery_idle [OF quiet_simps(1) 2(1) this] show ?case by (simp add: delivery_iteration_def)
qed

section \<open>Properties\<close>

text \<open>
  C22: A notification is never lost: whatever happens to a worker after \<open>Notify\<close>, as long as no iteration has
  begun since, a loop that waits in its \<open>select\<close> finds the token there.  It is then woken, and the iteration
  that follows begins after the notification.
\<close>

theorem notification_not_lost:
  assumes "worker_run (us @ Notified # vs) worker_New = Some w" and "Begins \<notin> set vs" and "wk_phase w = Selecting"
  shows "wk_wake w \<and> (\<exists>w'. worker_run [Woken, Begins] w = Some w' \<and> wk_phase w' = Iterating)"
proof -
  from assms(1) obtain w1 where "worker_run vs (Notify w1) = Some w" by (auto simp: worker_run_append split: option.splits)
  from notice_kept [OF this assms(2)] assms(3) have "wk_wake w" by (simp add: Notify_def)
  with assms(3) show ?thesis by simp
qed

theorem notification_not_lost_witness:
  "\<exists>w. worker_run [Started, Begins, Notified, Ends False] worker_New = Some w \<and> wk_phase w = Selecting \<and> wk_wake w"
proof -
  obtain w where w: "worker_run ([Started, Begins] @ Notified # [Ends False]) worker_New = Some w" "wk_phase w = Selecting"
    by (simp add: worker_New_def worker_Start_def Notify_def)
  from notification_not_lost [OF w(1) _ w(2)] w show ?thesis by simp
qed

text \<open>
  Once \<open>Close\<close> has cancelled a worker, its loop can return whenever it waits, and when it has returned nothing
  more is iterated and \<open>Close\<close> returns without an error.
\<close>

theorem worker_stops:
  assumes "worker_run (us @ Cancelled # vs) worker_New = Some w" and "Started \<in> set us"
  shows "(wk_phase w = Selecting \<longrightarrow> (\<exists>w'. worker_step Stops w = Some w' \<and> Close_returns w' ctx_done = Some True))
    \<and> (wk_phase w = Returned \<longrightarrow> worker_step Begins w = None \<and> Close_returns w ctx_done = Some True)"
proof -
  from assms(1) obtain w1 where w1: "worker_run us worker_New = Some w1" "worker_run vs (Close_cancel w1) = Some w"
    by (auto simp: worker_run_append split: option.splits)
  from assms(2) obtain us1 us2 where us: "us = us1 @ Started # us2" by (meson split_list)
  with w1(1) obtain w0 where "worker_run us2 (worker_Start w0) = Some w1"
    by (auto simp: worker_run_append split: option.splits if_splits)
  from started_run [OF this] have "wk_started w1" by (simp add: worker_Start_def)
  with cancelled_run [OF w1(2)] have "wk_ctx_done w" by (simp add: Close_cancel_def)
  then show ?thesis by (simp add: Close_returns_def)
qed

theorem worker_stops_witness:
  "\<exists>w. worker_run [Started, Begins, Ends False, Cancelled, Stops] worker_New = Some w \<and> Close_returns w False = Some True"
proof -
  obtain w where w: "worker_run ([Started, Begins, Ends False] @ Cancelled # [Stops]) worker_New = Some w" "wk_phase w = Returned"
    by (simp add: worker_New_def worker_Start_def Close_cancel_def)
  from worker_stops [OF w(1)] w show ?thesis by auto
qed

text \<open>
  C10: The loop of the request worker terminates between two waits.  With the store undisturbed, but whatever the
  network answers and however the clock moves, it stops iterating after at most as many iterations as the
  queued requests have attempts left, and then no request is due.
\<close>

theorem requests_drained:
  assumes "requests_inv db"
  shows "\<exists>k db'. drain (request_iteration clock uuid marshal resolver provider) 0 db = Some (k, db')
    \<and> k \<le> workload db \<and> requests_inv db' \<and> (\<forall>q \<in> set (location_requests db'). \<not> claimable (utc (clock k 0)) q)"
  using request_worker.rests [OF assms, where n = 0 and clock = clock and uuid = uuid and marshal = marshal
      and resolver = resolver and provider = provider] by auto

theorem requests_drained_witness:
  "\<exists>k db'. drain (request_iteration (\<lambda>n _. int n * second) (\<lambda>n k. fixed_digits 3 k) (\<lambda>r v. None)
      (\<lambda>_ _. Inl (SlhTransport ErrUnavailable)) (\<lambda>_ _ _. Inr sample_positioning)) 0
      (sample_db [sample_row ''a'', sample_row ''b'']) = Some (k, db') \<and> k \<le> 6"
proof -
  have "workload (sample_db [sample_row ''a'', sample_row ''b'']) = 6"
    by (simp add: workload_def remaining_def sample_row_def insert_row_def sample_request_def maxAttempts_def)
  with requests_drained [OF sample_inv, of "\<lambda>n _. int n * second" "\<lambda>n k. fixed_digits 3 k" "\<lambda>r v. None"
      "\<lambda>_ _. Inl (SlhTransport ErrUnavailable)" "\<lambda>_ _ _. Inr sample_positioning"]
  show ?thesis by auto
qed

text \<open>
  C11: The loop of the delivery worker terminates between two waits, after at most as many iterations as the
  pending deliveries have attempts left, and then no delivery is due.
\<close>

theorem deliveries_drained:
  assumes "outbox_inv db"
  shows "\<exists>k db'. drain (delivery_iteration cfg A hmac http clock uuid) 0 db = Some (k, db')
    \<and> k \<le> outbox_load cfg db \<and> outbox_inv db' \<and> (\<forall>r \<in> set (deliveries db'). \<not> due_delivery (utc (clock k 0)) r)"
  using delivery_worker.rests [OF assms, where n = 0 and clock = clock and uuid = uuid and cfg = cfg and A = A
      and hmac = hmac and http = http] by auto

theorem deliveries_drained_witness:
  "\<exists>k db'. drain (delivery_iteration sample_delivery_config sample_aead (\<lambda>k p. [])
      (\<lambda>_. \<lparr>hc_valid = (\<lambda>_. True), hc_Do = (\<lambda>_. None)\<rparr>) (\<lambda>n _. int n * second) (\<lambda>n k. [])) 0 sample_outbox = Some (k, db')
     \<and> k \<le> outbox_load sample_delivery_config sample_outbox"
  using deliveries_drained [OF sample_outbox_inv] by blast

text \<open>
  Cancelling a request signals the iteration that works on it and nobody else: the map holds exactly the
  request being worked on, and a cancellation of any other id changes nothing.
\<close>

lemma Cancel_only_active:
  "worker_Cancel j (active_enter i Map.empty) = (if j = i then [i \<mapsto> True] else active_enter i Map.empty)
   \<and> active_leave i (worker_Cancel j (active_enter i Map.empty)) = Map.empty"
  by (auto simp: worker_Cancel_def active_enter_def active_leave_def fun_eq_iff)

end
