(* ===== verification/GMLC_Dtd.thy ===== *)
theory GMLC_Dtd
  imports GMLC_Auth
begin

text \<open>
  \<open>internal/mlp/dtd.go\<close>: the wire types of the MLP adapter, as far as they are read or written, its
  coordinate format and its time format.  The XML decoder and encoder are not modelled: a request is the
  value the decoder yields, an answer the value that is handed to the encoder.
\<close>

section \<open>Requests\<close>

record msid =
  ms_Type :: string
  ms_Value :: string

record mlp_client =
  mc_ID :: string
  mc_Pwd :: string

record eqop =
  eq_RespReq :: "string option"
  eq_RespTimer :: "string option"
  eq_HorAcc :: "string option"

record slir =
  sl_Msids :: "msid list option"
  sl_EQoP :: "eqop option"
  sl_GeoInfo :: "string option"
  sl_LocType :: "string option"
  sl_Prio :: "string option"

record emeLir =
  el_Msids :: "msid list option"
  el_EQoP :: "eqop option"
  el_GeoInfo :: "string option"
  el_LocType :: "string option"

record hlir =
  hl_Msid :: msid
  hl_StartTime :: string
  hl_StopTime :: "string option"
  hl_Interval :: "string option"
  hl_NoOfReports :: "string option"
  hl_GeoInfo :: "string option"

record svcInit =
  si_Client :: "mlp_client option"
  si_Slir :: "slir option"
  si_EmeLir :: "emeLir option"
  si_Hlir :: "hlir option"

section \<open>Answers and reports\<close>

record timeElem =
  te_UtcOff :: string
  te_Value :: string

record circularArea =
  ca_SrsName :: string
  ca_X :: string
  ca_Y :: string
  ca_Radius :: string

record pd =
  pd_Time :: timeElem
  pd_Shape :: circularArea

record mlp_result =
  mr_ResID :: string
  mr_Value :: string

record posErr =
  pe_Result :: mlp_result
  pe_Time :: timeElem

record pos =
  po_Msid :: msid
  po_Pd :: "pd option"
  po_PosErr :: "posErr option"

text \<open>\<open>slia\<close>, \<open>emeLia\<close> and \<open>hlia\<close> have the same three fields.\<close>

record mlp_answer =
  an_Pos :: "pos list"
  an_Result :: "mlp_result option"
  an_AddInfo :: string

record emeEvent =
  ee_EmeTrigger :: string
  ee_EmePos :: "pos list"

record svcResult =
  sr_Client :: "mlp_client option"
  sr_Slia :: "mlp_answer option"
  sr_EmeLia :: "mlp_answer option"
  sr_Hlia :: "mlp_answer option"
  sr_Slrep :: "pos list option"
  sr_Emerep :: "emeEvent option"

record gem =
  ge_Result :: mlp_result
  ge_AddInfo :: string

definition mlpVersion :: string where "mlpVersion = ''3.5.0''"
definition epsg4326SrsName :: string where "epsg4326SrsName = ''www.epsg.org#4326''"

section \<open>Coordinates\<close>

text \<open>
  \<open>math.Round\<close> of a value that is not negative rounds halves up.  The seconds are a whole number of
  thousandths, so \<open>%.3f\<close> prints them exactly.
\<close>

definition milli_text :: "nat \<Rightarrow> string" where
  "milli_text n = show_nat (n div 1000) @ ''.'' @ fixed_digits 3 (n mod 1000)"

definition encodeDMSH :: "rat \<Rightarrow> char \<Rightarrow> char \<Rightarrow> string" where
  "encodeDMSH decimalDegrees positiveHemi negativeHemi =
     (let hemi = (if decimalDegrees < 0 then negativeHemi else positiveHemi);
          v = (if decimalDegrees < 0 then - decimalDegrees else decimalDegrees);
          total = nat \<lfloor>v * 3600 * 1000 + 1 / 2\<rfloor>;
          deg = total div (3600 * 1000);
          rem = total - deg * 3600 * 1000;
          mn = rem div (60 * 1000);
          rem = rem - mn * 60 * 1000
      in show_nat deg @ '' '' @ show_nat mn @ '' '' @ milli_text rem @ [hemi])"

text \<open>
  The pattern \<open>^(\d+) (\d+) (\d+(?:\.\d+)?)([NSEW])$\<close>: its four groups.  A group of digits extends as far
  as there are digits, because what follows it in the pattern is not one.
\<close>

definition digit_group :: "string \<Rightarrow> (string \<times> string) option" where
  "digit_group s = (let ds = takeWhile is_digit s in if ds = [] then None else Some (ds, dropWhile is_digit s))"

definition expect :: "char \<Rightarrow> string \<Rightarrow> string option" where
  "expect c s = (case s of [] \<Rightarrow> None | x # s \<Rightarrow> if x = c then Some s else None)"

definition fraction_group :: "string \<Rightarrow> string \<times> string" where
  "fraction_group s =
     (case expect (CHR ''.'') s of
        None \<Rightarrow> ([], s)
      | Some u \<Rightarrow> (case digit_group u of None \<Rightarrow> ([], s) | Some (ds, rest) \<Rightarrow> (ds, rest)))"

definition dmshPattern :: "string \<Rightarrow> (string \<times> string \<times> string \<times> string \<times> char) option" where
  "dmshPattern s =
     Option.bind (digit_group s) (\<lambda>(deg, s).
     Option.bind (expect (CHR '' '') s) (\<lambda>s.
     Option.bind (digit_group s) (\<lambda>(mn, s).
     Option.bind (expect (CHR '' '') s) (\<lambda>s.
     Option.bind (digit_group s) (\<lambda>(sec, s).
     (case fraction_group s of
        (fr, [h]) \<Rightarrow> if h \<in> set ''NSEW'' then Some (deg, mn, sec, fr, h) else None
      | _ \<Rightarrow> None))))))"

text \<open>The value of digits with a decimal point; float64 arithmetic is rational arithmetic.\<close>

definition decimal_val :: "string \<Rightarrow> string \<Rightarrow> rat" where
  "decimal_val ds fr = of_nat (digits_val ds) + of_nat (digits_val fr) / 10 ^ length fr"

definition decodeDMSH :: "string \<Rightarrow> rat option" where
  "decodeDMSH s =
     (case dmshPattern (TrimSpace s) of
        None \<Rightarrow> None
      | Some (deg, mn, sec, fr, h) \<Rightarrow>
          (let v = decimal_val deg [] + decimal_val mn [] / 60 + decimal_val sec fr / 3600
           in Some (if h = CHR ''S'' \<or> h = CHR ''W'' then - v else v)))"

section \<open>Times\<close>

text \<open>The proleptic Gregorian calendar of \<open>time.Time\<close>, in days since January 1 of year 1.\<close>

definition leap :: "int \<Rightarrow> bool" where
  "leap y \<longleftrightarrow> y mod 4 = 0 \<and> (y mod 100 \<noteq> 0 \<or> y mod 400 = 0)"

definition days_before_year :: "int \<Rightarrow> int" where
  "days_before_year y = 365 * (y - 1) + (y - 1) div 4 - (y - 1) div 100 + (y - 1) div 400"

definition month_lengths :: "int \<Rightarrow> int list" where
  "month_lengths y = [31, if leap y then 29 else 28, 31, 30, 31, 30, 31, 31, 30, 31, 30, 31]"

definition year_of :: "int \<Rightarrow> int \<times> int" where
  "year_of d =
     (let n400 = d div 146097; r = d mod 146097;
          n100 = min 3 (r div 36524); r = r - 36524 * n100;
          n4 = r div 1461; r = r mod 1461;
          n1 = min 3 (r div 365)
      in (400 * n400 + 100 * n100 + 4 * n4 + n1 + 1, r - 365 * n1))"

fun month_of :: "int list \<Rightarrow> nat \<Rightarrow> int \<Rightarrow> nat \<times> int" where
  "month_of (l # ls) m d = (if d < l \<or> ls = [] then (m, d) else month_of ls (m + 1) (d - l))"
| "month_of [] m d = (m, d)"

definition unix_day :: int where "unix_day = 719162"

text \<open>A field of the layout: zero-padded to its width, longer when the value needs it.\<close>

definition field :: "nat \<Rightarrow> int \<Rightarrow> string" where
  "field k x =
     (let n = nat \<bar>x\<bar>; ds = (if n < 10 ^ k then fixed_digits k n else show_nat n)
      in if x < 0 then CHR ''-'' # ds else ds)"

definition formatMLPTime :: "time \<Rightarrow> string" where
  "formatMLPTime t =
     (let s = t div second; day = s div 86400; sod = s mod 86400;
          (y, yday) = year_of (day + unix_day);
          (mo, d) = month_of (month_lengths y) 1 yday
      in field 4 y @ field 2 (int mo) @ field 2 (d + 1)
         @ field 2 (sod div 3600) @ field 2 (sod mod 3600 div 60) @ field 2 (sod mod 60))"

text \<open>
  \<open>time.ParseInLocation\<close> with the layout \<open>20060102150405\<close> in UTC: fields of fixed width in their ranges;
  a fraction of a second may follow the seconds although the layout has none, and nothing else may.
\<close>

definition take_field :: "nat \<Rightarrow> string \<Rightarrow> (nat \<times> string) option" where
  "take_field k s =
     (if length s < k \<or> \<not> list_all is_digit (take k s) then None else Some (digits_val (take k s), drop k s))"

definition parse_fraction :: "string \<Rightarrow> nat option" where
  "parse_fraction s =
     (case s of
        [] \<Rightarrow> Some 0
      | c # ds \<Rightarrow>
          (if (c = CHR ''.'' \<or> c = CHR '','') \<and> ds \<noteq> [] \<and> list_all is_digit ds
           then (let ds = take 9 ds in Some (digits_val ds * 10 ^ (9 - length ds)))
           else None))"

definition parseMLPTime :: "string \<Rightarrow> time option" where
  "parseMLPTime s =
     Option.bind (take_field 4 (TrimSpace s)) (\<lambda>(y, s).
     Option.bind (take_field 2 s) (\<lambda>(mo, s).
     Option.bind (take_field 2 s) (\<lambda>(d, s).
     Option.bind (take_field 2 s) (\<lambda>(hh, s).
     Option.bind (take_field 2 s) (\<lambda>(mi, s).
     Option.bind (take_field 2 s) (\<lambda>(ss, s).
     Option.bind (parse_fraction s) (\<lambda>ns.
       if mo < 1 \<or> mo > 12 \<or> hh \<ge> 24 \<or> mi \<ge> 60 \<or> ss \<ge> 60 \<or> d < 1 \<or> int d > month_lengths (int y) ! (mo - 1)
       then None
       else
         (let day = days_before_year (int y) + sum_list (take (mo - 1) (month_lengths (int y))) + int d - 1 - unix_day
          in Some ((day * 86400 + int hh * 3600 + int mi * 60 + int ss) * second + int ns)))))))))"

section \<open>The coordinate text\<close>

lemma digit_group_append:
  "list_all is_digit ds \<Longrightarrow> ds \<noteq> [] \<Longrightarrow> rest = [] \<or> \<not> is_digit (hd rest) \<Longrightarrow> digit_group (ds @ rest) = Some (ds, rest)"
proof -
  assume ds: "list_all is_digit ds" "ds \<noteq> []" and r: "rest = [] \<or> \<not> is_digit (hd rest)"
  have "takeWhile is_digit rest = []" "dropWhile is_digit rest = rest" using r by (cases rest; simp)+
  with ds have "takeWhile is_digit (ds @ rest) = ds" "dropWhile is_digit (ds @ rest) = rest"
    by (simp_all add: list_all_iff)
  with ds show ?thesis by (simp add: digit_group_def)
qed

lemma not_digits: "\<not> is_digit (CHR '' '')" "\<not> is_digit (CHR ''.'')" "h \<in> set ''NSEW'' \<Longrightarrow> \<not> is_digit h"
  by (auto simp: is_digit_alt)

lemma dmshPattern_text:
  assumes "h \<in> set ''NSEW''" and "list_all is_digit fr" and "fr \<noteq> []"
  shows "dmshPattern (show_nat a @ '' '' @ show_nat b @ '' '' @ show_nat c @ ''.'' @ fr @ [h]) =
    Some (show_nat a, show_nat b, show_nat c, fr, h)"
proof -
  have g: "digit_group (show_nat n @ x # s) = Some (show_nat n, x # s)" if "\<not> is_digit x" for n x s
    using digit_group_append [of "show_nat n" "x # s"] that by simp
  have f: "digit_group (fr @ [h]) = Some (fr, [h])"
    using digit_group_append [of fr "[h]"] assms not_digits(3) [OF assms(1)] by simp
  show ?thesis
    using assms(1) by (simp add: dmshPattern_def g not_digits expect_def fraction_group_def f)
qed

lemma strip_right_letter: "h \<in> set ''NSEW'' \<Longrightarrow> strip_right (s @ [h]) = None"
proof -
  assume h: "h \<in> set ''NSEW''"
  have ends: "\<forall>w \<in> set white_space. last w \<notin> set ''NSEW''" by (simp add: white_space_def)
  have "\<not> suffix w (s @ [h])" if w: "w \<in> set white_space" for w
  proof
    assume "suffix w (s @ [h])"
    with white_space_nonempty [OF w] have "last w = h" by (metis last_appendR last_snoc suffix_def)
    with w h ends show False by blast
  qed
  then show ?thesis by (auto simp: strip_right_def find_None_iff)
qed

lemma TrimSpace_dmsh: "h \<in> set ''NSEW'' \<Longrightarrow> TrimSpace (show_nat a @ s @ [h]) = show_nat a @ s @ [h]"
proof -
  assume h: "h \<in> set ''NSEW''"
  obtain c u where cu: "show_nat a = c # u" by (cases "show_nat a") auto
  moreover have "is_digit c" using show_nat_digits [of a] cu by simp
  ultimately have "trim_left (show_nat a @ s @ [h]) = show_nat a @ s @ [h]"
    by (simp add: trim_left.simps strip_left_digit)
  moreover have "trim_right ((show_nat a @ s) @ [h]) = (show_nat a @ s) @ [h]"
    unfolding trim_right.simps [of "(show_nat a @ s) @ [h]"] strip_right_letter [OF h] by simp
  ultimately show ?thesis by (simp add: TrimSpace_def)
qed

text \<open>The rounded angle, in thousandths of a second of arc.\<close>

definition milliarcsec :: "rat \<Rightarrow> nat" where
  "milliarcsec x = nat \<lfloor>\<bar>x\<bar> * 3600000 + 1 / 2\<rfloor>"

lemma encodeDMSH_text:
  "encodeDMSH x p n = (let m = milliarcsec x in
     show_nat (m div 3600000) @ '' '' @ show_nat (m mod 3600000 div 60000) @ '' ''
       @ show_nat (m mod 60000 div 1000) @ ''.'' @ fixed_digits 3 (m mod 1000) @ [if x < 0 then n else p])"
proof -
  define m where "m = milliarcsec x"
  have t: "nat \<lfloor>(if x < 0 then - x else x) * 3600 * 1000 + 1 / 2\<rfloor> = m"
    unfolding m_def milliarcsec_def by (simp add: abs_if mult.commute)
  have r1: "m - m div 3600000 * 3600 * 1000 = m mod 3600000" using minus_div_mult_eq_mod [of m 3600000] by simp
  have r2: "m mod 3600000 - m mod 3600000 div 60000 * 60 * 1000 = m mod 60000"
    using minus_div_mult_eq_mod [of "m mod 3600000" 60000] mod_mod_cancel [of 60000 3600000 m] by (simp add: mult.commute)
  have r3: "m mod 60000 mod 1000 = m mod 1000" by (simp add: mod_mod_cancel)
  show ?thesis
    unfolding encodeDMSH_def Let_def m_def [symmetric] t milli_text_def
    using r1 r2 r3 by simp
qed

lemma milliarcsec_parts:
  "of_nat (m div 3600000) + of_nat (m mod 3600000 div 60000) / 60
     + (of_nat (m mod 60000 div 1000) + of_nat (m mod 1000) / 1000) / 3600 = (of_nat m / 3600000 :: rat)"
proof -
  define a where "a = m div 3600000"
  define b where "b = m mod 3600000 div 60000"
  define c where "c = m mod 60000 div 1000"
  define d where "d = m mod 1000"
  define x where "x = m mod 3600000"
  define y where "y = m mod 60000"
  have "m = a * 3600000 + x" unfolding a_def x_def by (rule div_mult_mod_eq [symmetric])
  moreover have "x = b * 60000 + y"
    unfolding b_def x_def y_def using div_mult_mod_eq [of "m mod 3600000" 60000] mod_mod_cancel [of 60000 3600000 m] by simp
  moreover have "y = c * 1000 + d"
    unfolding c_def d_def y_def using div_mult_mod_eq [of "m mod 60000" 1000] mod_mod_cancel [of 1000 60000 m] by simp
  ultimately have "m = a * 3600000 + b * 60000 + c * 1000 + d" by linarith
  then have "(of_nat m :: rat) = of_nat a * 3600000 + of_nat b * 60000 + of_nat c * 1000 + of_nat d"
    by simp
  then show ?thesis unfolding a_def [symmetric] b_def [symmetric] c_def [symmetric] d_def [symmetric] by (simp add: field_simps)
qed

lemma decode_encode:
  assumes "p \<in> {CHR ''N'', CHR ''E''}" and "n \<in> {CHR ''S'', CHR ''W''}"
  shows "decodeDMSH (encodeDMSH x p n) =
    Some (if x < 0 then - (of_nat (milliarcsec x) / 3600000) else of_nat (milliarcsec x) / 3600000)"
proof -
  define m h where "m = milliarcsec x" and "h = (if x < 0 then n else p)"
  have h: "h \<in> set ''NSEW''" using assms by (auto simp: h_def)
  have hs: "h = CHR ''S'' \<or> h = CHR ''W'' \<longleftrightarrow> x < 0" using assms by (auto simp: h_def)
  have e: "encodeDMSH x p n = show_nat (m div 3600000) @ ('' '' @ show_nat (m mod 3600000 div 60000) @ '' ''
      @ show_nat (m mod 60000 div 1000) @ ''.'' @ fixed_digits 3 (m mod 1000)) @ [h]"
    by (simp add: encodeDMSH_text m_def h_def Let_def)
  have "fixed_digits 3 k \<noteq> []" for k using fixed_digits_length [of 3 k] by (metis length_0_conv zero_neq_numeral)
  with dmshPattern_text [OF h fixed_digits_digits]
  have d: "dmshPattern (encodeDMSH x p n) = Some (show_nat (m div 3600000), show_nat (m mod 3600000 div 60000),
      show_nat (m mod 60000 div 1000), fixed_digits 3 (m mod 1000), h)"
    unfolding e by simp
  have t: "TrimSpace (encodeDMSH x p n) = encodeDMSH x p n" unfolding e by (rule TrimSpace_dmsh [OF h])
  have v: "decimal_val (show_nat (m div 3600000)) [] + decimal_val (show_nat (m mod 3600000 div 60000)) [] / 60
      + decimal_val (show_nat (m mod 60000 div 1000)) (fixed_digits 3 (m mod 1000)) / 3600 = of_nat m / 3600000"
    using milliarcsec_parts [of m] by (simp add: decimal_val_def fixed_digits_val)
  show ?thesis
    unfolding decodeDMSH_def t d option.case prod.case Let_def v using hs by (simp add: m_def)
qed

lemma milliarcsec_near: "\<bar>of_nat (milliarcsec x) / 3600000 - \<bar>x\<bar>\<bar> \<le> (1 / 7200000 :: rat)"
proof -
  let ?y = "\<bar>x\<bar> * 3600000 + 1 / 2"
  have "0 \<le> \<lfloor>?y\<rfloor>" by simp
  then have f: "(of_nat (milliarcsec x) :: rat) = of_int \<lfloor>?y\<rfloor>" by (simp add: milliarcsec_def)
  have "of_int \<lfloor>?y\<rfloor> \<le> ?y" "?y < of_int \<lfloor>?y\<rfloor> + 1" by linarith+
  then have "\<bar>of_int \<lfloor>?y\<rfloor> - \<bar>x\<bar> * 3600000\<bar> \<le> 1 / 2" by linarith
  then have "\<bar>(of_int \<lfloor>?y\<rfloor> - \<bar>x\<bar> * 3600000) / 3600000\<bar> \<le> 1 / 7200000" by (simp add: abs_divide)
  then show ?thesis unfolding f by (simp add: diff_divide_distrib)
qed

section \<open>The calendar\<close>

lemma year_of_split:
  assumes "year_of d = (y, yd)"
  shows "days_before_year y + yd = d \<and> 0 \<le> yd \<and> yd < 365 + (if leap y then 1 else 0)"
proof -
  define q where "q = d div 146097"
  define r where "r = d mod 146097"
  define a where "a = min 3 (r div 36524)"
  define r1 where "r1 = r - 36524 * a"
  define b where "b = r1 div 1461"
  define r2 where "r2 = r1 mod 1461"
  define c where "c = min 3 (r2 div 365)"
  have y: "y = 400 * q + 100 * a + 4 * b + c + 1" and yd: "yd = r2 - 365 * c"
    using assms unfolding year_of_def Let_def q_def [symmetric] r_def [symmetric] a_def [symmetric] r1_def [symmetric]
      b_def [symmetric] r2_def [symmetric] c_def [symmetric] prod.inject by (elim conjE; simp only:)+
  have d: "d = 146097 * q + r" "0 \<le> r" "r < 146097" unfolding q_def r_def by simp_all
  define k4 where "k4 = r div 36524"
  define m4 where "m4 = r mod 36524"
  have k: "r = k4 * 36524 + m4" "0 \<le> m4" "m4 < 36524" unfolding k4_def m4_def by simp_all
  have k4: "0 \<le> k4" "k4 \<le> 4" using k d(2,3) by linarith+
  have a: "0 \<le> a" "a \<le> 3" "36524 * a \<le> r" "a < 3 \<Longrightarrow> r1 < 36524" "r1 \<le> 36524"
  proof -
    have "a = k4 \<and> k4 \<le> 3 \<or> a = 3 \<and> k4 = 4" using k4 unfolding a_def k4_def [symmetric] by linarith
    then show "0 \<le> a" "a \<le> 3" "36524 * a \<le> r" "a < 3 \<Longrightarrow> r1 < 36524" "r1 \<le> 36524"
      using k k4(1) d(3) unfolding r1_def by (elim disjE conjE; simp)+
  qed
  have r1: "0 \<le> r1" using a unfolding r1_def by simp
  have b: "r1 = 1461 * b + r2" "0 \<le> r2" "r2 < 1461" "0 \<le> b" unfolding b_def r2_def using r1 by simp_all
  have b24: "b \<le> 24" using a(5) b(1,2) by simp
  have b24': "b = 24 \<Longrightarrow> a < 3 \<Longrightarrow> r2 < 1460" using a(4) b(1) by simp
  define k1 where "k1 = r2 div 365"
  have k1: "k1 * 365 \<le> r2" "r2 < (k1 + 1) * 365" "0 \<le> k1" unfolding k1_def using b(2) by simp_all
  have c: "0 \<le> c" "c \<le> 3" "365 * c \<le> r2" "c < 3 \<Longrightarrow> r2 - 365 * c < 365"
    using k1 unfolding c_def k1_def [symmetric] by (simp_all add: min_def split: if_splits)
  have "(y - 1) div 4 = 100 * q + 25 * a + b"
    by (rule int_div_pos_eq [where r = c]) (use y c in simp_all)
  moreover have "(y - 1) div 100 = 4 * q + a"
    by (rule int_div_pos_eq [where r = "4 * b + c"]) (use y c b24 b(4) in simp_all)
  moreover have "(y - 1) div 400 = q"
    by (rule int_div_pos_eq [where r = "100 * a + 4 * b + c"]) (use y c b24 b(4) a in simp_all)
  ultimately have "days_before_year y = 365 * (y - 1) + (100 * q + 25 * a + b) - (4 * q + a) + q"
    by (simp add: days_before_year_def)
  then have dby: "days_before_year y = 146097 * q + 36524 * a + 1461 * b + 365 * c" using y by (simp add: algebra_simps)
  have sum: "days_before_year y + yd = d" using dby yd b(1) d(1) r1_def by linarith
  have "yd < 366" "0 \<le> yd" using yd c b(3) by linarith+
  moreover have "leap y" if "365 \<le> yd"
  proof -
    have c3: "c = 3" using that c yd by linarith
    then have n: "\<not> (b = 24 \<and> a < 3)" using b24' that yd by linarith
    have y4: "y = 4 * (100 * q + 25 * a + b + 1)" using y c3 by simp
    show ?thesis
    proof (cases "b = 24")
      case True
      with n a(2) have "a = 3" by simp
      with True have "y = 400 * (q + 1)" using y c3 by simp
      then show ?thesis by (simp add: leap_def)
    next
      case False
      have "y = 4 * b + 4 + 100 * (4 * q + a)" using y c3 by simp
      then have "y mod 100 = (4 * b + 4) mod 100" by (metis mod_mult_self2)
      also have "\<dots> = 4 * b + 4" using False b24 b(4) by simp
      finally have "y mod 100 = 4 * b + 4" .
      with False b(4) b24 y4 show ?thesis by (simp add: leap_def)
    qed
  qed
  ultimately show ?thesis using sum by (cases "365 \<le> yd") auto
qed

lemma div_step: "0 < k \<Longrightarrow> y div k = (y - 1) div k + (if k dvd y then 1 else 0)" for k y :: int
proof -
  assume k: "0 < k"
  have y: "y = k * (y div k) + y mod k" by simp
  show ?thesis
  proof (cases "k dvd y")
    case True
    have "(y - 1) div k = y div k - 1"
      by (rule int_div_pos_eq [where r = "k - 1"]) (use True k in \<open>auto simp: algebra_simps\<close>)
    with True show ?thesis by simp
  next
    case False
    have "0 < y mod k" using False k by (metis mod_0_imp_dvd order_le_less pos_mod_sign)
    then have "(y - 1) div k = y div k"
      using y k pos_mod_bound [OF k, of y] by (intro int_div_pos_eq [where r = "y mod k - 1"]) simp_all
    with False show ?thesis by simp
  qed
qed

lemma days_before_next: "days_before_year (y + 1) = days_before_year y + 365 + (if leap y then 1 else 0)"
proof -
  define e where "e k = (if k dvd y then 1 else 0 :: int)" for k :: int
  have st: "y div k = (y - 1) div k + e k" if "0 < k" for k using div_step [OF that, of y] by (simp add: e_def)
  have logic: "(if p then 1 else 0) - (if q then 1 else 0) + (if r then 1 else 0) = (if p \<and> (\<not> q \<or> r) then 1 else 0 :: int)"
    if "q \<Longrightarrow> p" "r \<Longrightarrow> q" for p q r using that by (cases r; cases q; cases p) simp_all
  have ar: "365 * y + (p + a) - (q + b) + (r + c) = 365 * (y - 1) + p - q + r + 365 + (a - b + c)" for p q r a b c by simp
  have l: "e 4 - e 100 + e 400 = (if leap y then 1 else 0)"
    unfolding leap_def e_def mod_eq_0_iff_dvd by (rule logic; erule dvd_trans [rotated]; simp)
  have "days_before_year (y + 1) = 365 * y + y div 4 - y div 100 + y div 400"
    by (simp only: days_before_year_def add_diff_cancel_right')
  also have "\<dots> = 365 * y + ((y - 1) div 4 + e 4) - ((y - 1) div 100 + e 100) + ((y - 1) div 400 + e 400)"
    using st [of 4] st [of 100] st [of 400] by (simp only: zero_less_numeral)
  also have "\<dots> = days_before_year y + 365 + (e 4 - e 100 + e 400)" unfolding days_before_year_def by (rule ar)
  finally show ?thesis by (simp only: l)
qed

lemma month_of_split:
  assumes "month_of ls m d = (k, e)" and "0 \<le> d" and "d < sum_list ls" and "ls \<noteq> []"
  shows "m \<le> k \<and> k < m + length ls \<and> 0 \<le> e \<and> e < ls ! (k - m) \<and> sum_list (take (k - m) ls) + e = d"
  using assms
proof (induction ls m d rule: month_of.induct)
  case (1 l ls m d)
  show ?case
  proof (cases "d < l \<or> ls = []")
    case True
    with 1 show ?thesis by auto
  next
    case False
    with 1 have "m + 1 \<le> k \<and> k < m + 1 + length ls \<and> 0 \<le> e \<and> e < ls ! (k - (m + 1))
        \<and> sum_list (take (k - (m + 1)) ls) + e = d - l" by simp
    moreover from this have "k - m = Suc (k - (m + 1))" by linarith
    ultimately show ?thesis by simp
  qed
qed simp

lemma month_lengths_sum: "sum_list (month_lengths y) = 365 + (if leap y then 1 else 0)" "length (month_lengths y) = 12"
  by (simp_all add: month_lengths_def)

lemma month_lengths_nth: "i < 12 \<Longrightarrow> month_lengths y ! i \<le> 31"
proof -
  assume "i < 12"
  then have "month_lengths y ! i \<in> set (month_lengths y)" by (simp add: month_lengths_sum)
  moreover have "\<forall>l \<in> set (month_lengths y). l \<le> 31" by (simp add: month_lengths_def)
  ultimately show ?thesis by blast
qed

section \<open>The time text\<close>

lemma take_field_field:
  "n < 10 ^ k \<Longrightarrow> take_field k (field k (int n) @ s) = Some (n, s)"
  by (simp add: take_field_def field_def fixed_digits_val)

lemma field_digits: "n < 10 ^ k \<Longrightarrow> list_all is_digit (field k (int n))"
  by (simp add: field_def)

text \<open>The fields of a time: year, month, day, hour, minute, second.\<close>

definition time_fields :: "time \<Rightarrow> int \<times> nat \<times> nat \<times> nat \<times> nat \<times> nat" where
  "time_fields t =
     (let s = t div second; sod = s mod 86400; (y, yday) = year_of (s div 86400 + unix_day);
          (mo, d) = month_of (month_lengths y) 1 yday
      in (y, mo, nat (d + 1), nat (sod div 3600), nat (sod mod 3600 div 60), nat (sod mod 60)))"

lemma time_fields_ok:
  assumes "time_fields t = (y, mo, d, hh, mi, ss)"
  shows "formatMLPTime t = field 4 y @ field 2 (int mo) @ field 2 (int d) @ field 2 (int hh) @ field 2 (int mi) @ field 2 (int ss)"
    and "1 \<le> mo \<and> mo \<le> 12 \<and> 1 \<le> d \<and> int d \<le> month_lengths y ! (mo - 1) \<and> hh < 24 \<and> mi < 60 \<and> ss < 60"
    and "((days_before_year y + sum_list (take (mo - 1) (month_lengths y)) + int d - 1 - unix_day) * 86400
      + int hh * 3600 + int mi * 60 + int ss) = t div second"
proof -
  define s where "s = t div second"
  define sod where "sod = s mod 86400"
  obtain y' yd where yd': "year_of (s div 86400 + unix_day) = (y', yd)" by (metis prod.exhaust)
  obtain mo' e where e': "month_of (month_lengths y') 1 yd = (mo', e)" by (metis prod.exhaust)
  have eqs: "y' = y" "mo' = mo" and d: "d = nat (e + 1)"
    and h: "hh = nat (sod div 3600)" "mi = nat (sod mod 3600 div 60)" "ss = nat (sod mod 60)"
    using assms unfolding time_fields_def Let_def s_def [symmetric] sod_def [symmetric] yd' prod.case e' prod.inject
    by (elim conjE; simp)+
  note yd = yd' [unfolded eqs] and e = e' [unfolded eqs]
  have y: "days_before_year y + yd = s div 86400 + unix_day" "0 \<le> yd" "yd < sum_list (month_lengths y)"
    using year_of_split [OF yd] by (simp_all add: month_lengths_sum)
  have "month_lengths y \<noteq> []" by (simp add: month_lengths_def)
  with month_of_split [OF e y(2,3)] y(1) month_lengths_sum(2) [of y]
  have m: "1 \<le> mo" "mo \<le> 12" "0 \<le> e" "e < month_lengths y ! (mo - 1)"
    "sum_list (take (mo - 1) (month_lengths y)) + e = yd" "days_before_year y + yd = s div 86400 + unix_day"
    by auto
  have sd: "0 \<le> sod" "sod < 86400" "s = s div 86400 * 86400 + sod" unfolding sod_def by simp_all
  have i: "int d = e + 1" "int hh = sod div 3600" "int mi = sod mod 3600 div 60" "int ss = sod mod 60"
    using m(3) sd(1) by (simp_all add: d h)
  show "formatMLPTime t = field 4 y @ field 2 (int mo) @ field 2 (int d) @ field 2 (int hh) @ field 2 (int mi) @ field 2 (int ss)"
    unfolding formatMLPTime_def s_def [symmetric] Let_def yd prod.case e sod_def [symmetric] i by (rule refl)
  have "sod div 3600 < 24" "sod mod 3600 div 60 < 60" "sod mod 60 < 60" using sd by simp_all
  then show "1 \<le> mo \<and> mo \<le> 12 \<and> 1 \<le> d \<and> int d \<le> month_lengths y ! (mo - 1) \<and> hh < 24 \<and> mi < 60 \<and> ss < 60"
    using m i by linarith
  have "sod mod 3600 div 60 * 60 + sod mod 60 = sod mod 3600"
    using div_mult_mod_eq [of "sod mod 3600" 60] mod_mod_cancel [of 60 3600 sod] by simp
  then have so: "sod div 3600 * 3600 + sod mod 3600 div 60 * 60 + sod mod 60 = sod"
    by (simp only: add.assoc div_mult_mod_eq)
  have da: "days_before_year y + sum_list (take (mo - 1) (month_lengths y)) + int d - 1 - unix_day = s div 86400"
    using m(5,6) i(1) by linarith
  show "((days_before_year y + sum_list (take (mo - 1) (month_lengths y)) + int d - 1 - unix_day) * 86400
      + int hh * 3600 + int mi * 60 + int ss) = t div second"
    unfolding s_def [symmetric] da i(2-4) add.assoc [of "s div 86400 * 86400"] so
    by (simp only: add.assoc so [unfolded add.assoc] sod_def div_mult_mod_eq)
qed

lemma parse_format:
  assumes "0 \<le> fst (time_fields t)" and "fst (time_fields t) < 10000"
  shows "parseMLPTime (formatMLPTime t) = Some (t div second * second)"
proof -
  obtain y mo d hh mi ss where f: "time_fields t = (y, mo, d, hh, mi, ss)" by (metis prod_cases6)
  note ok = time_fields_ok [OF f]
  obtain n where n: "y = int n" "n < 10 ^ 4" using assms f nonneg_int_cases [of y] by auto
  have "month_lengths y ! (mo - 1) \<le> 31" using ok(2) by (intro month_lengths_nth) linarith
  then have b: "mo < 10 ^ 2" "d < 10 ^ 2" "hh < 10 ^ 2" "mi < 10 ^ 2" "ss < 10 ^ 2" using ok(2) by simp_all
  note fd = field_digits [OF n(2)] field_digits [OF b(1)] field_digits [OF b(2)] field_digits [OF b(3)]
    field_digits [OF b(4)] field_digits [OF b(5)]
  note tf = take_field_field [OF n(2)] take_field_field [OF b(1)] take_field_field [OF b(2)] take_field_field [OF b(3)]
    take_field_field [OF b(4)]
  have "TrimSpace (formatMLPTime t) = formatMLPTime t"
    unfolding ok(1) n(1) by (rule TrimSpace_digits) (simp only: list_all_append fd)
  moreover have "take_field 2 (field 2 (int ss)) = Some (ss, [])" using take_field_field [OF b(5), of "[]"] by simp
  ultimately show ?thesis
    unfolding parseMLPTime_def ok(1) n(1)
    using ok(2,3) n(1) by (simp add: tf parse_fraction_def)
qed

section \<open>Properties\<close>

text \<open>
  C38: The coordinates of an MLP answer are well formed and exact to half a thousandth of a second of arc:
  the text of an angle has minutes and seconds below 60, and reading it back gives the angle with that
  error and the right hemisphere.
\<close>

theorem encodeDMSH_roundtrip:
  assumes "p \<in> {CHR ''N'', CHR ''E''}" and "n \<in> {CHR ''S'', CHR ''W''}"
  shows "(\<exists>y. decodeDMSH (encodeDMSH x p n) = Some y \<and> \<bar>y - x\<bar> \<le> 1 / 7200000)
    \<and> (\<exists>deg mn sec thousandths. mn < 60 \<and> sec < 60
        \<and> encodeDMSH x p n = show_nat deg @ '' '' @ show_nat mn @ '' '' @ show_nat sec @ ''.''
            @ fixed_digits 3 thousandths @ [if x < 0 then n else p])"
proof (intro conjI exI)
  show "decodeDMSH (encodeDMSH x p n) =
      Some (if x < 0 then - (of_nat (milliarcsec x) / 3600000) else of_nat (milliarcsec x) / 3600000)"
    by (rule decode_encode [OF assms])
  show "\<bar>(if x < 0 then - (of_nat (milliarcsec x) / 3600000) else of_nat (milliarcsec x) / 3600000) - x\<bar> \<le> 1 / 7200000"
    using milliarcsec_near [of x] by (cases "x < 0") (simp_all add: abs_if split: if_splits)
  show "encodeDMSH x p n = show_nat (milliarcsec x div 3600000) @ '' '' @ show_nat (milliarcsec x mod 3600000 div 60000) @ '' ''
      @ show_nat (milliarcsec x mod 60000 div 1000) @ ''.'' @ fixed_digits 3 (milliarcsec x mod 1000) @ [if x < 0 then n else p]"
    by (simp add: encodeDMSH_text Let_def)
  show "milliarcsec x mod 3600000 div 60000 < 60" by (rule less_mult_imp_div_less) simp
  show "milliarcsec x mod 60000 div 1000 < 60" by (rule less_mult_imp_div_less) simp
qed

theorem encodeDMSH_roundtrip_witness:
  "\<exists>y. decodeDMSH (encodeDMSH (- 1 / 7) (CHR ''N'') (CHR ''S'')) = Some y \<and> \<bar>y - (- 1 / 7)\<bar> \<le> 1 / 7200000"
  using encodeDMSH_roundtrip [of "CHR ''N''" "CHR ''S''" "- 1 / 7"] by simp

text \<open>
  An MLP time text names the second it was made from: for every time in the years 0 to 9999, reading
  the text back gives that time without its fraction of a second.
\<close>

theorem formatMLPTime_roundtrip:
  assumes "days_before_year 0 \<le> t div second div 86400 + unix_day"
    and "t div second div 86400 + unix_day < days_before_year 10000"
  shows "parseMLPTime (formatMLPTime t) = Some (t div second * second)"
proof (rule parse_format)
  let ?d = "t div second div 86400 + unix_day"
  obtain y yd where y: "year_of ?d = (y, yd)" by (metis prod.exhaust)
  have fst: "fst (time_fields t) = y" by (simp add: time_fields_def Let_def y split: prod.split)
  note s = year_of_split [OF y]
  have mono: "days_before_year a \<le> days_before_year b" if "a \<le> b" for a b
    using that by (induction b rule: int_ge_induct) (auto simp: days_before_next)
  have nxt: "?d < days_before_year (y + 1)" using s by (simp add: days_before_next)
  show "0 \<le> fst (time_fields t)"
    using mono [of "y + 1" 0] nxt assms(1) unfolding fst by (cases "y < 0") simp_all
  show "fst (time_fields t) < 10000"
    using mono [of 10000 y] s assms(2) unfolding fst by (cases "y < 10000") simp_all
qed

theorem formatMLPTime_roundtrip_witness: "parseMLPTime (formatMLPTime 0) = Some 0"
  using formatMLPTime_roundtrip [of 0] by (simp add: days_before_year_def unix_day_def)

end
