(* ===== verification/GMLC_Mlp.thy ===== *)
theory GMLC_Mlp
  imports GMLC_Dtd GMLC_Service
begin

text \<open>
  \<open>internal/mlp/handler.go\<close> and \<open>resultcodes.go\<close>: the MLP Le adapter.  A request is validated and
  submitted, the handler polls until every target is terminal or the deadline has passed, and one
  position or error is written per target; history requests are answered from the recorded fixes.
  The XML decoder, \<open>strconv.ParseFloat\<close> and \<open>strconv.Quote\<close> are fields of the handler.
\<close>

section \<open>Result codes\<close>

record resultCode =
  rc_ID :: string
  rc_Slogan :: string

definition resultSystemFailure :: resultCode where
  "resultSystemFailure = \<lparr>rc_ID = ''1'', rc_Slogan = ''SYSTEM FAILURE''\<rparr>"
definition resultUnauthorizedApplication :: resultCode where
  "resultUnauthorizedApplication = \<lparr>rc_ID = ''3'', rc_Slogan = ''UNAUTHORIZED APPLICATION''\<rparr>"
definition resultUnknownSubscriber :: resultCode where
  "resultUnknownSubscriber = \<lparr>rc_ID = ''4'', rc_Slogan = ''UNKNOWN SUBSCRIBER''\<rparr>"
definition resultPositionMethodFailure :: resultCode where
  "resultPositionMethodFailure = \<lparr>rc_ID = ''6'', rc_Slogan = ''POSITION METHOD FAILURE''\<rparr>"
definition resultTimeout :: resultCode where
  "resultTimeout = \<lparr>rc_ID = ''7'', rc_Slogan = ''TIMEOUT''\<rparr>"
definition resultFormatError :: resultCode where
  "resultFormatError = \<lparr>rc_ID = ''105'', rc_Slogan = ''FORMAT ERROR''\<rparr>"
definition resultServiceNotSupported :: resultCode where
  "resultServiceNotSupported = \<lparr>rc_ID = ''108'', rc_Slogan = ''SERVICE NOT SUPPORTED''\<rparr>"
definition resultInvalidProtocolElementValue :: resultCode where
  "resultInvalidProtocolElementValue = \<lparr>rc_ID = ''110'', rc_Slogan = ''INVALID PROTOCOL ELEMENT VALUE''\<rparr>"
definition resultProtocolElementAttributeValueNotSupported :: resultCode where
  "resultProtocolElementAttributeValueNotSupported =
     \<lparr>rc_ID = ''113'', rc_Slogan = ''PROTOCOL ELEMENT ATTRIBUTE VALUE NOT SUPPORTED''\<rparr>"

lemmas result_codes =
  resultSystemFailure_def resultUnauthorizedApplication_def resultUnknownSubscriber_def
  resultPositionMethodFailure_def resultTimeout_def resultFormatError_def resultServiceNotSupported_def
  resultInvalidProtocolElementValue_def resultProtocolElementAttributeValueNotSupported_def

fun errorToResultCode :: "service_error \<Rightarrow> resultCode" where
  "errorToResultCode (ErrAuth ErrUnauthenticated) = resultUnauthorizedApplication"
| "errorToResultCode (ErrAuth ErrForbidden) = resultUnauthorizedApplication"
| "errorToResultCode (ErrStore ErrNotFound) = resultUnknownSubscriber"
| "errorToResultCode (ErrTarget _) = resultInvalidProtocolElementValue"
| "errorToResultCode ErrUnsupportedService = resultServiceNotSupported"
| "errorToResultCode ErrInvalidLocationType = resultProtocolElementAttributeValueNotSupported"
| "errorToResultCode ErrIdempotencyRequired = resultSystemFailure"
| "errorToResultCode _ = resultSystemFailure"

text \<open>A request that was not awaited to its end is \<^term>\<open>None\<close> (\<open>timedOut\<close>).\<close>

definition outcomeResultCode :: "request option \<Rightarrow> resultCode" where
  "outcomeResultCode r = (case r of None \<Rightarrow> resultTimeout | Some r \<Rightarrow> resultPositionMethodFailure)"

section \<open>Reading a request\<close>

record mlp_handler =
  mh_svc :: service
  mh_syncWaitDefault :: duration
  mh_syncWaitMax :: duration
  mh_unmarshal :: "bytes \<Rightarrow> svcInit option"
  mh_ParseFloat :: "string \<Rightarrow> float64 option"
  mh_Quote :: "string \<Rightarrow> string"

definition maxBodyBytes :: nat where "maxBodyBytes = 1048576"

definition credentialsFromHdr :: "mlp_client option \<Rightarrow> string \<times> string" where
  "credentialsFromHdr c = (case c of None \<Rightarrow> ([], []) | Some c \<Rightarrow> (TrimSpace (mc_ID c), TrimSpace (mc_Pwd c)))"

definition msidToTarget :: "msid \<Rightarrow> resultCode + target" where
  "msidToTarget m =
     (let t = (if ms_Type m = [] then ''MSISDN'' else ms_Type m); value = TrimSpace (ms_Value m) in
      if t = ''MSISDN'' then Inr \<lparr>IMSI = [], MSISDN = value\<rparr>
      else if t = ''IMSI'' then Inr \<lparr>IMSI = value, MSISDN = []\<rparr>
      else Inl resultProtocolElementAttributeValueNotSupported)"

definition unsupported_msid :: "mlp_handler \<Rightarrow> msid \<Rightarrow> string" where
  "unsupported_msid h m = ''unsupported msid type '' @ mh_Quote h (ms_Type m)"

fun targets_loop :: "mlp_handler \<Rightarrow> msid list \<Rightarrow> (resultCode \<times> string) + target list" where
  "targets_loop h [] = Inr []"
| "targets_loop h (m # ms) =
     (case msidToTarget m of
        Inl rc \<Rightarrow> Inl (rc, unsupported_msid h m)
      | Inr t \<Rightarrow> (case targets_loop h ms of Inl e \<Rightarrow> Inl e | Inr ts \<Rightarrow> Inr (t # ts)))"

definition extractTargetsFrom :: "mlp_handler \<Rightarrow> msid list option \<Rightarrow> (resultCode \<times> string) + target list" where
  "extractTargetsFrom h m =
     (case m of
        None \<Rightarrow> Inl (resultFormatError, ''missing msids'')
      | Some ms \<Rightarrow> if ms = [] then Inl (resultFormatError, ''missing msids'') else targets_loop h ms)"

definition parseLocType :: "string option \<Rightarrow> resultCode + u32" where
  "parseLocType lt =
     (if lt = None \<or> lt = Some [] \<or> lt = Some ''CURRENT'' then Inr LocationCurrent
      else if lt = Some ''CURRENT_OR_LAST'' then Inr LocationCurrentOrLastKnown
      else Inl resultProtocolElementAttributeValueNotSupported)"

definition parsePrio :: "string option \<Rightarrow> u32 option" where
  "parsePrio p = (if p = Some ''HIGH'' then Some 0 else None)"

definition validateGeoInfo :: "string option \<Rightarrow> resultCode option" where
  "validateGeoInfo g =
     (case g of
        None \<Rightarrow> None
      | Some code \<Rightarrow> if TrimSpace code \<noteq> ''4326'' then Some resultProtocolElementAttributeValueNotSupported else None)"

text \<open>\<open>time.Duration(secs) * time.Second\<close> is a 64-bit multiplication.\<close>

definition parse_seconds :: "string \<Rightarrow> duration option" where
  "parse_seconds s =
     (case Atoi (TrimSpace s) of
        None \<Rightarrow> None
      | Some secs \<Rightarrow> if secs \<le> 0 then None else Some (swrap64 (secs * second)))"

definition parse_resp_req :: "string \<Rightarrow> u32 option" where
  "parse_resp_req t =
     (if t = [] \<or> t = ''DELAY_TOL'' then Some ResponseTimeDelayTolerant
      else if t = ''LOW_DELAY'' \<or> t = ''NO_DELAY'' then Some ResponseTimeLowDelay
      else None)"

definition no_qos :: qos_request where
  "no_qos = \<lparr>q_Class = None, q_HorizontalAccuracyMeters = None, q_VerticalAccuracyMeters = None,
     q_VerticalRequested = False, q_ResponseTimeClass = None\<rparr>"

definition parseEQoP :: "mlp_handler \<Rightarrow> eqop option \<Rightarrow> resultCode + qos_request option \<times> duration" where
  "parseEQoP h e =
     (case e of
        None \<Rightarrow> Inr (None, 0)
      | Some e \<Rightarrow>
     (case map_option (\<lambda>v. mh_ParseFloat h (TrimSpace v)) (eq_HorAcc e) of
        Some None \<Rightarrow> Inl resultInvalidProtocolElementValue
      | acc \<Rightarrow>
     (case map_option parse_resp_req (eq_RespReq e) of
        Some None \<Rightarrow> Inl resultProtocolElementAttributeValueNotSupported
      | cls \<Rightarrow>
     (case map_option parse_seconds (eq_RespTimer e) of
        Some None \<Rightarrow> Inl resultInvalidProtocolElementValue
      | timer \<Rightarrow>
          (let q = no_qos\<lparr>q_HorizontalAccuracyMeters := Option.bind acc (\<lambda>x. x), q_ResponseTimeClass := Option.bind cls (\<lambda>x. x)\<rparr>
           in Inr (if acc = None \<and> cls = None then None else Some q,
                   case Option.bind timer (\<lambda>x. x) of None \<Rightarrow> 0 | Some d \<Rightarrow> d))))))"

definition waitDeadline :: "mlp_handler \<Rightarrow> time \<Rightarrow> duration \<Rightarrow> time" where
  "waitDeadline h now respTimer =
     (let wait = (if respTimer > 0 then respTimer else mh_syncWaitDefault h);
          wait = (if wait > mh_syncWaitMax h then mh_syncWaitMax h else wait)
      in now + wait)"

definition parseHistoryWindow :: "hlir \<Rightarrow> time \<Rightarrow> resultCode + time \<times> time \<times> duration \<times> int" where
  "parseHistoryWindow req now =
     (if TrimSpace (hl_StartTime req) = [] then Inl resultFormatError
      else case parseMLPTime (hl_StartTime req) of
        None \<Rightarrow> Inl resultInvalidProtocolElementValue
      | Some start \<Rightarrow>
     (case (case hl_StopTime req of
              None \<Rightarrow> Some now
            | Some s \<Rightarrow> map_option (\<lambda>stop. if stop > now then now else stop) (parseMLPTime s)) of
        None \<Rightarrow> Inl resultInvalidProtocolElementValue
      | Some stop \<Rightarrow>
          (if stop < start then Inl resultInvalidProtocolElementValue
           else case map_option parse_seconds (hl_Interval req) of
             Some None \<Rightarrow> Inl resultInvalidProtocolElementValue
           | interval \<Rightarrow>
               (let minInterval = (case Option.bind interval (\<lambda>x. x) of None \<Rightarrow> 0 | Some d \<Rightarrow> d) in
                case hl_NoOfReports req of
                  None \<Rightarrow> Inr (start, stop, minInterval, 0)
                | Some s \<Rightarrow>
                    (case Atoi (TrimSpace s) of
                       None \<Rightarrow> Inl resultInvalidProtocolElementValue
                     | Some n \<Rightarrow> if n \<le> 0 then Inl resultInvalidProtocolElementValue
                                 else Inr (start, stop, minInterval, n))))))"

section \<open>Positions\<close>

text \<open>\<open>%.0f\<close>: the nearest integer, halves to even.\<close>

definition round_half_even :: "rat \<Rightarrow> nat" where
  "round_half_even a =
     (let f = nat \<lfloor>a\<rfloor>; d = a - of_nat f in
      if d < 1 / 2 then f else if d > 1 / 2 then f + 1 else if even f then f else f + 1)"

definition format_0f :: "rat \<Rightarrow> string" where
  "format_0f r = (if r < 0 then ''-'' @ show_nat (round_half_even (- r)) else show_nat (round_half_even r))"

definition circle :: "rat \<Rightarrow> rat \<Rightarrow> rat option \<Rightarrow> circularArea" where
  "circle lat lon unc =
     \<lparr>ca_SrsName = epsg4326SrsName, ca_X = encodeDMSH lat CHR ''N'' CHR ''S'', ca_Y = encodeDMSH lon CHR ''E'' CHR ''W'',
      ca_Radius = format_0f (case unc of None \<Rightarrow> 0 | Some r \<Rightarrow> r)\<rparr>"

definition fix_pd :: "time \<Rightarrow> rat \<Rightarrow> rat \<Rightarrow> rat option \<Rightarrow> pd" where
  "fix_pd t lat lon unc =
     \<lparr>pd_Time = \<lparr>te_UtcOff = ''+0000'', te_Value = formatMLPTime t\<rparr>, pd_Shape = circle lat lon unc\<rparr>"

definition result_of_code :: "resultCode \<Rightarrow> mlp_result" where
  "result_of_code rc = \<lparr>mr_ResID = rc_ID rc, mr_Value = rc_Slogan rc\<rparr>"

definition posErr_of :: "resultCode \<Rightarrow> time \<Rightarrow> posErr" where
  "posErr_of rc t = \<lparr>pe_Result = result_of_code rc, pe_Time = \<lparr>te_UtcOff = [], te_Value = formatMLPTime t\<rparr>\<rparr>"

definition buildPos :: "msid \<Rightarrow> (request \<times> loc_result) option \<Rightarrow> time \<Rightarrow> pos" where
  "buildPos m final now =
     (let err = \<lparr>po_Msid = m, po_Pd = None, po_PosErr = Some (posErr_of (outcomeResultCode (map_option fst final)) now)\<rparr> in
      case final of
        None \<Rightarrow> err
      | Some (req, res) \<Rightarrow>
          (if rq_State req = StateCompleted then
             (case (rs_Latitude res, rs_Longitude res) of
                (Some lat, Some lon) \<Rightarrow>
                  \<lparr>po_Msid = m, po_Pd = Some (fix_pd (rs_CreatedAt res) lat lon (rs_UncertaintyMeters res)), po_PosErr = None\<rparr>
              | _ \<Rightarrow> err)
           else err))"

definition buildHistoryPos :: "msid \<Rightarrow> history_point \<Rightarrow> pos" where
  "buildHistoryPos m p =
     (case (hp_Latitude p, hp_Longitude p) of
        (Some lat, Some lon) \<Rightarrow>
          \<lparr>po_Msid = m, po_Pd = Some (fix_pd (hp_RecordedAt p) lat lon (hp_UncertaintyMeters p)), po_PosErr = None\<rparr>
      | _ \<Rightarrow> \<lparr>po_Msid = m, po_Pd = None, po_PosErr = Some (posErr_of resultPositionMethodFailure (hp_RecordedAt p))\<rparr>)"

section \<open>Submitting and waiting\<close>

text \<open>
  One poll: what the store does during the read, the clock when it is compared with the deadline, and
  whether the client has gone during the pause that follows.
\<close>

record poll =
  pl_env :: env
  pl_now :: time
  pl_done :: bool

text \<open>
  The surroundings of one MLP request: its random idempotency key, the store during the submission,
  the clock when the wait begins, the polls of target \<open>i\<close>, and the clock when its outcome is written.
\<close>

record visit =
  vi_key :: string
  vi_submit :: env
  vi_start :: time
  vi_poll :: "nat \<Rightarrow> nat \<Rightarrow> poll"
  vi_end :: "nat \<Rightarrow> time"

text \<open>
  The poll loop, from poll \<open>j\<close> on.  The value inside is the terminal request with its result, or
  \<^term>\<open>None\<close> when the wait was given up; a loop that never ends has the value \<^term>\<open>None\<close> itself.
\<close>

partial_function (option) awaitTerminal ::
  "mlp_handler \<Rightarrow> (nat \<Rightarrow> poll) \<Rightarrow> string \<Rightarrow> string \<Rightarrow> string \<Rightarrow> time \<Rightarrow> nat \<Rightarrow> db
     \<Rightarrow> ((request \<times> loc_result) option \<times> db) option" where
  "awaitTerminal h polls clientID token i deadline j db =
     (let (res, db) = Service_GetResult (mh_svc h) (pl_env (polls j)) clientID token i db;
          final = (case res of
             Inr (req, v) \<Rightarrow>
               (if Terminal (rq_State req) then Some (req, case v of None \<Rightarrow> no_result | Some v \<Rightarrow> v) else None)
           | Inl _ \<Rightarrow> None)
      in if final \<noteq> None then Some (final, db)
         else if \<not> pl_now (polls j) < deadline then Some (None, db)
         else if pl_done (polls j) then Some (None, db)
         else awaitTerminal h polls clientID token i deadline (j + 1) db)"

definition submit_targets ::
  "mlp_handler \<Rightarrow> visit \<Rightarrow> string \<Rightarrow> string \<Rightarrow> target list \<Rightarrow> u32 \<Rightarrow> u32 option \<Rightarrow> qos_request option \<Rightarrow> db
     \<Rightarrow> (service_error + request list) \<times> db \<times> hook list" where
  "submit_targets h V clientID token targets locationType priority qos db =
     (if length targets = 1 then
        (case Submit (mh_svc h) (vi_submit V)
                \<lparr>in_ClientID = clientID, in_Token = token, in_IdempotencyKey = vi_key V, in_Target = hd targets,
                 in_Service = ServiceImmediate, in_LocationType = locationType, in_Priority = priority, in_QoS = qos,
                 in_CallbackURL = [], in_CallbackSecret = []\<rparr> db of
           (Inl e, db, hs) \<Rightarrow> (Inl e, db, hs)
         | (Inr (created, _), db, hs) \<Rightarrow> (Inr [created], db, hs))
      else
        (case SubmitBatch (mh_svc h) (vi_submit V)
                \<lparr>bi_ClientID = clientID, bi_Token = token, bi_IdempotencyKey = vi_key V, bi_Targets = targets,
                 bi_Service = ServiceImmediate, bi_LocationType = locationType, bi_Priority = priority, bi_QoS = qos,
                 bi_CallbackURL = [], bi_CallbackSecret = []\<rparr> db of
           ((Some e, _), db, hs) \<Rightarrow> (Inl e, db, hs)
         | ((None, created), db, hs) \<Rightarrow> (Inr (map fst created), db, hs)))"

text \<open>The targets are awaited one after the other, all against the same deadline.\<close>

fun await_all ::
  "mlp_handler \<Rightarrow> visit \<Rightarrow> string \<Rightarrow> string \<Rightarrow> msid list \<Rightarrow> time \<Rightarrow> nat \<Rightarrow> request list \<Rightarrow> db \<Rightarrow> (pos list \<times> db) option" where
  "await_all h V clientID token ms deadline i [] db = Some ([], db)"
| "await_all h V clientID token ms deadline i (r # rs) db =
     (case awaitTerminal h (vi_poll V i) clientID token (rq_ID r) deadline 0 db of
        None \<Rightarrow> None
      | Some (final, db) \<Rightarrow>
          (case await_all h V clientID token ms deadline (i + 1) rs db of
             None \<Rightarrow> None
           | Some (ps, db) \<Rightarrow> Some (buildPos (ms ! i) final (vi_end V i) # ps, db)))"

definition resolveImmediate ::
  "mlp_handler \<Rightarrow> visit \<Rightarrow> string \<Rightarrow> string \<Rightarrow> msid list option \<Rightarrow> string option \<Rightarrow> string option \<Rightarrow> u32 option
     \<Rightarrow> eqop option \<Rightarrow> db \<Rightarrow> (((resultCode \<times> string) + pos list) \<times> db \<times> hook list) option" where
  "resolveImmediate h V clientID token msids lt gi priority e db =
     (case extractTargetsFrom h msids of
        Inl rc \<Rightarrow> Some (Inl rc, db, [])
      | Inr targets \<Rightarrow>
     (case parseLocType lt of
        Inl rc \<Rightarrow> Some (Inl (rc, ''unsupported loc_type''), db, [])
      | Inr locationType \<Rightarrow>
     (case validateGeoInfo gi of
        Some rc \<Rightarrow> Some (Inl (rc, ''unsupported geo_info coordinate reference system''), db, [])
      | None \<Rightarrow>
     (case parseEQoP h e of
        Inl rc \<Rightarrow> Some (Inl (rc, ''invalid eqop''), db, [])
      | Inr (qos, respTimer) \<Rightarrow>
     (case submit_targets h V clientID token targets locationType priority qos db of
        (Inl err, db, hs) \<Rightarrow> Some (Inl (errorToResultCode err, []), db, hs)
      | (Inr reqs, db, hs) \<Rightarrow>
          (case await_all h V clientID token (the msids) (waitDeadline h (vi_start V) respTimer) 0 reqs db of
             None \<Rightarrow> None
           | Some (positions, db) \<Rightarrow> Some (Inr positions, db, hs)))))))"

section \<open>Answers\<close>

datatype mlp_body = Svc svcResult | Gem gem

record mlp_response =
  rp_status :: nat
  rp_body :: mlp_body

definition no_svc :: svcResult where
  "no_svc = \<lparr>sr_Client = None, sr_Slia = None, sr_EmeLia = None, sr_Hlia = None, sr_Slrep = None, sr_Emerep = None\<rparr>"

definition pos_answer :: "pos list \<Rightarrow> mlp_answer" where
  "pos_answer ps = \<lparr>an_Pos = ps, an_Result = None, an_AddInfo = []\<rparr>"

definition result_answer :: "resultCode \<Rightarrow> string \<Rightarrow> mlp_answer" where
  "result_answer rc detail = \<lparr>an_Pos = [], an_Result = Some (result_of_code rc), an_AddInfo = detail\<rparr>"

definition writeXML :: "nat \<Rightarrow> mlp_body \<Rightarrow> mlp_response" where
  "writeXML status v = \<lparr>rp_status = status, rp_body = v\<rparr>"

definition writeTopLevelResult :: "resultCode \<Rightarrow> string \<Rightarrow> mlp_response" where
  "writeTopLevelResult rc detail = writeXML 200 (Svc (no_svc\<lparr>sr_Slia := Some (result_answer rc detail)\<rparr>))"

definition writeTopLevelResultEme :: "resultCode \<Rightarrow> string \<Rightarrow> mlp_response" where
  "writeTopLevelResultEme rc detail = writeXML 200 (Svc (no_svc\<lparr>sr_EmeLia := Some (result_answer rc detail)\<rparr>))"

definition writeTopLevelResultHlia :: "resultCode \<Rightarrow> string \<Rightarrow> mlp_response" where
  "writeTopLevelResultHlia rc detail = writeXML 200 (Svc (no_svc\<lparr>sr_Hlia := Some (result_answer rc detail)\<rparr>))"

definition writeGEM :: "resultCode \<Rightarrow> string \<Rightarrow> mlp_response" where
  "writeGEM rc detail = writeXML 404 (Gem \<lparr>ge_Result = result_of_code rc, ge_AddInfo = detail\<rparr>)"

definition handleSLIR ::
  "mlp_handler \<Rightarrow> visit \<Rightarrow> mlp_client option \<Rightarrow> slir \<Rightarrow> db \<Rightarrow> (mlp_response \<times> db \<times> hook list) option" where
  "handleSLIR h V header req db =
     (let (clientID, token) = credentialsFromHdr header; priority = parsePrio (sl_Prio req) in
      case resolveImmediate h V clientID token (sl_Msids req) (sl_LocType req) (sl_GeoInfo req) priority (sl_EQoP req) db of
        None \<Rightarrow> None
      | Some (Inl (rc, detail), db, hs) \<Rightarrow> Some (writeTopLevelResult rc detail, db, hs)
      | Some (Inr positions, db, hs) \<Rightarrow>
          Some (writeXML 200 (Svc (no_svc\<lparr>sr_Slia := Some (pos_answer positions)\<rparr>)), db, hs))"

definition handleEMELIR ::
  "mlp_handler \<Rightarrow> visit \<Rightarrow> mlp_client option \<Rightarrow> emeLir \<Rightarrow> db \<Rightarrow> (mlp_response \<times> db \<times> hook list) option" where
  "handleEMELIR h V header req db =
     (let (clientID, token) = credentialsFromHdr header in
      case resolveImmediate h V clientID token (el_Msids req) (el_LocType req) (el_GeoInfo req) None (el_EQoP req) db of
        None \<Rightarrow> None
      | Some (Inl (rc, detail), db, hs) \<Rightarrow> Some (writeTopLevelResultEme rc detail, db, hs)
      | Some (Inr positions, db, hs) \<Rightarrow>
          Some (writeXML 200 (Svc (no_svc\<lparr>sr_EmeLia := Some (pos_answer positions)\<rparr>)), db, hs))"

definition handleHLIR :: "mlp_handler \<Rightarrow> visit \<Rightarrow> mlp_client option \<Rightarrow> hlir \<Rightarrow> db \<Rightarrow> mlp_response \<times> db" where
  "handleHLIR h V header req db =
     (let (clientID, token) = credentialsFromHdr header in
      case validateGeoInfo (hl_GeoInfo req) of
        Some rc \<Rightarrow> (writeTopLevelResultHlia rc ''unsupported geo_info coordinate reference system'', db)
      | None \<Rightarrow>
     (case msidToTarget (hl_Msid req) of
        Inl rc \<Rightarrow> (writeTopLevelResultHlia rc (unsupported_msid h (hl_Msid req)), db)
      | Inr target \<Rightarrow>
     (case parseHistoryWindow req (vi_start V) of
        Inl rc \<Rightarrow> (writeTopLevelResultHlia rc ''invalid history window'', db)
      | Inr (start, stop, minInterval, limit) \<Rightarrow>
     (case Service_QueryHistory (mh_svc h) (vi_submit V) clientID token target start stop minInterval limit db of
        (Inl err, db) \<Rightarrow> (writeTopLevelResultHlia (errorToResultCode err) [], db)
      | (Inr points, db) \<Rightarrow>
          (if points = [] then
             (writeTopLevelResultHlia resultPositionMethodFailure
                ''no location history recorded for target in the requested time window'', db)
           else
             (writeXML 200 (Svc (no_svc\<lparr>sr_Hlia := Some (pos_answer (map (buildHistoryPos (hl_Msid req)) points))\<rparr>)), db))))))"

record http_request =
  ht_Method :: string
  ht_Body :: bytes
  ht_ReadError :: bool

text \<open>\<open>io.LimitReader\<close> ends the body after \<open>maxBodyBytes + 1\<close> bytes.\<close>

definition ServeHTTP :: "mlp_handler \<Rightarrow> visit \<Rightarrow> http_request \<Rightarrow> db \<Rightarrow> (mlp_response \<times> db \<times> hook list) option" where
  "ServeHTTP h V r db =
     (if ht_Method r \<noteq> ''POST'' then Some (writeGEM resultServiceNotSupported ''only HTTP POST is supported'', db, [])
      else
        (let body = take (maxBodyBytes + 1) (ht_Body r) in
         if ht_ReadError r \<or> length body > maxBodyBytes
         then Some (writeGEM resultServiceNotSupported ''unable to read request body'', db, [])
         else case mh_unmarshal h body of
           None \<Rightarrow> Some (writeGEM resultServiceNotSupported ''request is not a recognized or supported MLP service'', db, [])
         | Some init \<Rightarrow>
             (case (si_Slir init, si_EmeLir init, si_Hlir init) of
                (Some req, _, _) \<Rightarrow> handleSLIR h V (si_Client init) req db
              | (None, Some req, _) \<Rightarrow> handleEMELIR h V (si_Client init) req db
              | (None, None, Some req) \<Rightarrow> (case handleHLIR h V (si_Client init) req db of (resp, db) \<Rightarrow> Some (resp, db, []))
              | (None, None, None) \<Rightarrow>
                  Some (writeGEM resultServiceNotSupported ''request is not a recognized or supported MLP service'', db, []))))"

section \<open>The adapter is a store program\<close>

definition visit_within :: "time set \<Rightarrow> visit \<Rightarrow> bool" where
  "visit_within C V \<longleftrightarrow> env_within C (vi_submit V) \<and> (\<forall>i j. env_within C (pl_env (vi_poll V i j)))"

abbreviation visit_ok :: "visit \<Rightarrow> bool" where
  "visit_ok V \<equiv> visit_within {} V"

lemma Service_GetResult_runs: "env_within C E \<Longrightarrow> (store_step C)\<^sup>*\<^sup>* db (snd (Service_GetResult s E cid token i db))"
  using Get_runs [of C E db s cid token i]
  by (auto simp: Service_GetResult_def Let_def intro: gap_run split: sum.splits prod.splits)

lemma Service_QueryHistory_runs:
  "env_within C E \<Longrightarrow> (store_step C)\<^sup>*\<^sup>* db (snd (Service_QueryHistory s E cid token t start stop mi n db))"
  using Authenticate_runs [of C E db "sv_sha256 s" 0 cid token]
  by (auto simp: Service_QueryHistory_def Let_def intro: gap_run split: sum.splits prod.splits option.splits)

text \<open>
  What a poll loop returns, it returns at some poll: a property of the loop holds if it holds of a poll
  that ends it and is inherited from the next poll.
\<close>

definition poll_final :: "(service_error + request \<times> loc_result option) \<Rightarrow> (request \<times> loc_result) option" where
  "poll_final res = (case res of
     Inr (req, v) \<Rightarrow> (if Terminal (rq_State req) then Some (req, case v of None \<Rightarrow> no_result | Some v \<Rightarrow> v) else None)
   | Inl _ \<Rightarrow> None)"

lemma awaitTerminal_poll:
  "awaitTerminal h P cid token i deadline j db =
     (case Service_GetResult (mh_svc h) (pl_env (P j)) cid token i db of
        (res, db1) \<Rightarrow>
          (if poll_final res \<noteq> None \<or> deadline \<le> pl_now (P j) \<or> pl_done (P j) then Some (poll_final res, db1)
           else awaitTerminal h P cid token i deadline (j + 1) db1))"
  by (subst awaitTerminal.simps) (auto simp: poll_final_def Let_def split: prod.splits sum.splits)

lemma awaitTerminal_induct:
  assumes "awaitTerminal h P cid token i deadline j db = Some (x, db')"
    and last: "\<And>j db res. Service_GetResult (mh_svc h) (pl_env (P j)) cid token i db = (res, db') \<Longrightarrow>
      x = poll_final res \<Longrightarrow> Q db"
    and inner: "\<And>j db res db1. Service_GetResult (mh_svc h) (pl_env (P j)) cid token i db = (res, db1) \<Longrightarrow> Q db1 \<Longrightarrow> Q db"
  shows "Q db"
proof -
  have "(h' = h \<and> P' = P \<and> cid' = cid \<and> token' = token \<and> i' = i \<and> out = (x, db')) \<longrightarrow> Q db"
    if "awaitTerminal h' P' cid' token' i' deadline j db = Some out" for h' P' cid' token' i' deadline j db out
  proof (rule awaitTerminal.raw_induct [where P = "\<lambda>h' P' cid' token' i' deadline j db out.
      (h' = h \<and> P' = P \<and> cid' = cid \<and> token' = token \<and> i' = i \<and> out = (x, db')) \<longrightarrow> Q db", OF _ that], goal_cases)
    case (1 aw h' P' cid' token' i' deadline j db out)
    obtain res db1 where g: "Service_GetResult (mh_svc h') (pl_env (P' j)) cid' token' i' db = (res, db1)" by force
    have "Some out = (if poll_final res \<noteq> None \<or> deadline \<le> pl_now (P' j) \<or> pl_done (P' j) then Some (poll_final res, db1)
        else aw h' P' cid' token' i' deadline (j + 1) db1)"
      unfolding 1(2) [symmetric] by (auto simp: g poll_final_def Let_def split: sum.splits)
    then have "out = (poll_final res, db1) \<or> aw h' P' cid' token' i' deadline (j + 1) db1 = Some out"
      by (metis option.inject)
    with 1(1) g last inner show ?case by (metis Pair_inject)
  qed
  with assms(1) show ?thesis by blast
qed

lemma awaitTerminal_runs:
  assumes "awaitTerminal h P cid token i deadline j db = Some (x, db')" and "\<forall>j. env_within C (pl_env (P j))"
  shows "(store_step C)\<^sup>*\<^sup>* db db'"
proof (rule awaitTerminal_induct [OF assms(1)])
  have r: "(store_step C)\<^sup>*\<^sup>* db db1" if "Service_GetResult (mh_svc h) (pl_env (P j)) cid token i db = (res, db1)" for j db res db1
    using Service_GetResult_runs [of C "pl_env (P j)" db "mh_svc h" cid token i] assms(2) that by simp
  then show "Service_GetResult (mh_svc h) (pl_env (P j)) cid token i db = (res, db') \<Longrightarrow> x = poll_final res \<Longrightarrow> (store_step C)\<^sup>*\<^sup>* db db'"
    for j db res by blast
  show "Service_GetResult (mh_svc h) (pl_env (P j)) cid token i db = (res, db1) \<Longrightarrow> (store_step C)\<^sup>*\<^sup>* db1 db' \<Longrightarrow> (store_step C)\<^sup>*\<^sup>* db db'"
    for j db res db1 using r by (meson rtranclp_trans)
qed

lemma awaitTerminal_returns:
  assumes "deadline \<le> pl_now (P n)" and "j \<le> n"
  shows "awaitTerminal h P cid token i deadline j db \<noteq> None"
  using assms(2)
proof (induction "n - j" arbitrary: j db)
  case 0
  with assms(1) show ?case by (simp add: awaitTerminal_poll [of h P cid token i deadline j] split: prod.splits)
next
  case (Suc m)
  from Suc.hyps(1) [of "j + 1"] Suc.hyps(2) have "awaitTerminal h P cid token i deadline (j + 1) db \<noteq> None" for db by simp
  then show ?case by (subst awaitTerminal_poll) (simp split: prod.splits)
qed

text \<open>Polls after the first at which the clock has reached the deadline are never made.\<close>

lemma awaitTerminal_local:
  assumes "deadline \<le> pl_now (P n)" and "\<forall>k \<le> n. P' k = P k" and "j \<le> n"
  shows "awaitTerminal h P' cid token i deadline j db = awaitTerminal h P cid token i deadline j db"
  using assms(3)
proof (induction "n - j" arbitrary: j db)
  case 0
  then have "P' j = P j" "j = n" using assms(2) by simp_all
  with assms(1) show ?case
    by (subst (1 2) awaitTerminal_poll) (simp split: prod.splits)
next
  case (Suc m)
  from Suc.hyps(1) [of "j + 1"] Suc.hyps(2)
  have "awaitTerminal h P' cid token i deadline (j + 1) db = awaitTerminal h P cid token i deadline (j + 1) db" for db by simp
  moreover have "P' j = P j" using assms(2) Suc.prems by simp
  ultimately show ?case
    by (subst (1 2) awaitTerminal_poll) (simp split: prod.splits)
qed

lemma await_all_runs:
  "visit_within C V \<Longrightarrow> await_all h V cid token ms deadline i rs db = Some (ps, db') \<Longrightarrow> (store_step C)\<^sup>*\<^sup>* db db'"
proof (induction rs arbitrary: i db ps)
  case (Cons r rs)
  from Cons.prems(2) obtain x db1 ps' where
    a: "awaitTerminal h (vi_poll V i) cid token (rq_ID r) deadline 0 db = Some (x, db1)"
    and b: "await_all h V cid token ms deadline (i + 1) rs db1 = Some (ps', db')"
    by (auto split: option.splits)
  have "(store_step C)\<^sup>*\<^sup>* db db1" using awaitTerminal_runs [OF a] Cons.prems(1) by (simp add: visit_within_def)
  moreover have "(store_step C)\<^sup>*\<^sup>* db1 db'" by (rule Cons.IH [OF Cons.prems(1) b])
  ultimately show ?case by (rule rtranclp_trans)
qed simp

lemma submit_targets_runs:
  "env_within C (vi_submit V) \<Longrightarrow> submit_targets h V cid token ts lt prio qos db = (res, db', hs) \<Longrightarrow> (store_step C)\<^sup>*\<^sup>* db db'"
proof -
  assume e: "env_within C (vi_submit V)" and s: "submit_targets h V cid token ts lt prio qos db = (res, db', hs)"
  have one: "(store_step C)\<^sup>*\<^sup>* db db1" if "Submit (mh_svc h) (vi_submit V) inp db = (x, db1, y)" for inp x db1 y
    using Submit_runs [OF e, of db "mh_svc h" inp] that by simp
  have batch: "(store_step C)\<^sup>*\<^sup>* db db1" if "SubmitBatch (mh_svc h) (vi_submit V) inp db = (x, db1, y)" for inp x db1 y
    using SubmitBatch_runs [OF e, of db "mh_svc h" inp] that by simp
  show ?thesis
    using s unfolding submit_targets_def by (auto split: if_splits prod.splits sum.splits option.splits dest: one batch)
qed

lemma resolveImmediate_runs:
  assumes "visit_within C V" and "resolveImmediate h V cid token ms lt gi prio e db = Some (res, db', hs)"
  shows "(store_step C)\<^sup>*\<^sup>* db db'"
proof -
  have sub: "(store_step C)\<^sup>*\<^sup>* db db1" if "submit_targets h V cid token ts l prio q db = (x, db1, y)" for ts l q x db1 y
    using submit_targets_runs [OF _ that] assms(1) by (simp add: visit_within_def)
  have "(store_step C)\<^sup>*\<^sup>* db db2" if "submit_targets h V cid token ts l prio q db = (x, db1, y)"
    "await_all h V cid token (the ms) dl 0 rs db1 = Some (ps, db2)" for ts l q x db1 y dl rs ps db2
    using rtranclp_trans [OF sub [OF that(1)] await_all_runs [OF assms(1) that(2)]] .
  with sub assms(2) show ?thesis
    unfolding resolveImmediate_def by (auto split: sum.splits option.splits prod.splits)
qed

lemma handleHLIR_runs: "visit_within C V \<Longrightarrow> (store_step C)\<^sup>*\<^sup>* db (snd (handleHLIR h V c req db))"
proof -
  assume "visit_within C V"
  then have q: "(store_step C)\<^sup>*\<^sup>* db db1" if "Service_QueryHistory s (vi_submit V) cid token t start stop mi n db = (x, db1)"
    for s cid token t start stop mi n x db1
    using Service_QueryHistory_runs [of C "vi_submit V" db s cid token t start stop mi n] that by (simp add: visit_within_def)
  then show ?thesis
    unfolding handleHLIR_def Let_def by (auto split: prod.splits option.splits sum.splits)
qed

lemma ServeHTTP_runs:
  assumes "visit_within C V" and "ServeHTTP h V r db = Some (resp, db', hs)"
  shows "(store_step C)\<^sup>*\<^sup>* db db'"
proof -
  note run = resolveImmediate_runs [OF assms(1)]
  have s: "(store_step C)\<^sup>*\<^sup>* db db1" if "handleSLIR h V c q db = Some (x, db1, y)" for c q x db1 y
    using that unfolding handleSLIR_def Let_def by (auto dest: run split: prod.splits option.splits sum.splits)
  have e: "(store_step C)\<^sup>*\<^sup>* db db1" if "handleEMELIR h V c q db = Some (x, db1, y)" for c q x db1 y
    using that unfolding handleEMELIR_def Let_def by (auto dest: run split: prod.splits option.splits sum.splits)
  have l: "(store_step C)\<^sup>*\<^sup>* db db1" if "handleHLIR h V c q db = (x, db1)" for c q x db1
    using handleHLIR_runs [OF assms(1), of db h c q] that by simp
  show ?thesis
    using assms(2) unfolding ServeHTTP_def Let_def
    by (auto split: if_splits option.splits prod.splits dest: s e l)
qed

definition mlp_store :: "mlp_handler \<times> visit \<times> http_request \<Rightarrow> db \<Rightarrow> db" where
  "mlp_store x db = (case x of (h, V, r) \<Rightarrow> (case ServeHTTP h V r db of None \<Rightarrow> db | Some (_, db', _) \<Rightarrow> db'))"

interpretation mlp: store_program mlp_store "\<lambda>C (h, V, r). visit_within C V"
  by unfold_locales (auto simp: mlp_store_def dest: ServeHTTP_runs split: option.splits)

section \<open>The wait is bounded\<close>

lemma waitDeadline_bound: "waitDeadline h t d \<le> t + mh_syncWaitMax h"
  by (simp add: waitDeadline_def Let_def)

definition clock_passes :: "mlp_handler \<Rightarrow> visit \<Rightarrow> (nat \<Rightarrow> nat) \<Rightarrow> bool" where
  "clock_passes h V n \<longleftrightarrow> (\<forall>i. vi_start V + mh_syncWaitMax h \<le> pl_now (vi_poll V i (n i)))"

lemma await_all_returns:
  "(\<And>i. deadline \<le> pl_now (vi_poll V i (n i))) \<Longrightarrow> await_all h V cid token ms deadline i rs db \<noteq> None"
proof (induction rs arbitrary: i db)
  case (Cons r rs)
  obtain x db1 where a: "awaitTerminal h (vi_poll V i) cid token (rq_ID r) deadline 0 db = Some (x, db1)"
    using awaitTerminal_returns [of deadline "vi_poll V i" "n i" 0] Cons.prems [of i] by fast
  moreover obtain ps db2 where "await_all h V cid token ms deadline (i + 1) rs db1 = Some (ps, db2)"
    using Cons.IH [OF Cons.prems, of "i + 1" db1] by fast
  ultimately show ?case by simp
qed simp

lemma await_all_local:
  assumes "\<And>i. deadline \<le> pl_now (vi_poll V i (n i))" and "\<And>i k. k \<le> n i \<Longrightarrow> vi_poll V' i k = vi_poll V i k"
    and "vi_end V' = vi_end V"
  shows "await_all h V' cid token ms deadline i rs db = await_all h V cid token ms deadline i rs db"
proof (induction rs arbitrary: i db)
  case (Cons r rs)
  have "awaitTerminal h (vi_poll V' i) cid token (rq_ID r) deadline 0 db
      = awaitTerminal h (vi_poll V i) cid token (rq_ID r) deadline 0 db"
    using assms(1,2) by (intro awaitTerminal_local [where n = "n i"]) simp_all
  with Cons.IH show ?case by (simp add: assms(3) split: option.splits)
qed simp

lemma clock_passes_deadline: "clock_passes h V n \<Longrightarrow> waitDeadline h (vi_start V) d \<le> pl_now (vi_poll V i (n i))"
  using waitDeadline_bound [of h "vi_start V" d] by (auto simp: clock_passes_def intro: order_trans)

lemma resolveImmediate_returns:
  assumes "clock_passes h V n"
  shows "resolveImmediate h V cid token ms lt gi prio e db \<noteq> None"
proof -
  have "\<exists>y. await_all h V cid token ms (waitDeadline h (vi_start V) d) i rs db = Some y" for ms d i rs db
    using await_all_returns [OF clock_passes_deadline [OF assms]] by auto
  then show ?thesis
    unfolding resolveImmediate_def by (auto split: sum.splits option.splits prod.splits) (metis option.distinct(1))
qed

lemma submit_targets_local:
  "vi_submit V' = vi_submit V \<Longrightarrow> vi_key V' = vi_key V \<Longrightarrow> submit_targets h V' = submit_targets h V"
  by (intro ext) (simp add: submit_targets_def)

lemma resolveImmediate_local:
  assumes "clock_passes h V n" and "\<And>i k. k \<le> n i \<Longrightarrow> vi_poll V' i k = vi_poll V i k"
    and "vi_end V' = vi_end V" and "vi_submit V' = vi_submit V" and "vi_key V' = vi_key V" and "vi_start V' = vi_start V"
  shows "resolveImmediate h V' cid token ms lt gi prio e db = resolveImmediate h V cid token ms lt gi prio e db"
proof -
  have "await_all h V' cid token ms (waitDeadline h (vi_start V) d) i rs db
      = await_all h V cid token ms (waitDeadline h (vi_start V) d) i rs db" for cid token ms d i rs db
    by (rule await_all_local [OF clock_passes_deadline [OF assms(1)] assms(2,3)])
  then show ?thesis
    unfolding resolveImmediate_def submit_targets_local [OF assms(4,5)] assms(6) by (simp only:)
qed

section \<open>The requests of an MLP request\<close>

definition key_free :: "string \<Rightarrow> string \<Rightarrow> db \<Rightarrow> bool" where
  "key_free c key d \<longleftrightarrow> (c, key) \<notin> client_key ` set (location_requests d)"

text \<open>The random key is fresh: the client has no request under it or an extension of it, and nobody else makes one.\<close>

definition fresh_key :: "visit \<Rightarrow> string \<Rightarrow> db \<Rightarrow> bool" where
  "fresh_key V c db \<longleftrightarrow>
     (\<forall>key. prefix (vi_key V) key \<longrightarrow> key_free c key db)
     \<and> (\<forall>k d key. prefix (vi_key V) key \<longrightarrow> key_free c key d \<longrightarrow> key_free c key (e_gap (vi_submit V) k d))"

lemma CreateRequest_free:
  assumes "CreateRequest f f2 now r db = (Inr (r0, created), db1)" and "key_free (rq_ClientID r) (rq_IdempotencyKey r) db"
  shows "created"
  using assms
  by (cases "row_by client_key (rq_ClientID r, rq_IdempotencyKey r) (location_requests db)")
    (auto simp: CreateRequest_def exec_def Let_def byClientKey_def key_free_def row_by_None [symmetric]
      split: if_splits sum.splits option.splits)

lemma CreateRequest_others:
  assumes "CreateRequest f f2 now r db = (res, db1)" and "key_free c key db" and "key \<noteq> rq_IdempotencyKey r"
  shows "key_free c key db1"
  using assms
  by (auto simp: CreateRequest_def exec_def Let_def key_free_def client_key_def insert_row_def
      split: if_splits sum.splits)

lemma CreateRequest_target:
  assumes "CreateRequest f f2 now r db = (Inr (r0, True), db1)"
  shows "\<exists>q \<in> set (location_requests db1). row_id q = rq_ID r0 \<and> client_key q = (rq_ClientID r, rq_IdempotencyKey r)
    \<and> row_target_kind q = rq_TargetKind r \<and> row_target_value q = rq_TargetValue r"
  using assms
  by (auto simp: CreateRequest_def exec_def Let_def insert_row_def client_key_def split: if_splits sum.splits)

text \<open>Without a callback, what follows the creation touches no request.\<close>

lemma submit_one_plain:
  assumes "submit_one s E k c [] sec sub det r db = (Inr (r', created, sub'), db', hs)"
  obtains dbc where "CreateRequest (e_fault E k) (e_fault E (k + 1)) (e_now E k) r (e_gap E k db) = (Inr (r', created), dbc)"
    and "location_requests db' = location_requests (e_gap E (k + 4) dbc)"
    and "db' = snd (RecordAudit (e_fault E (k + 4)) (e_now E (k + 4)) \<lparr>ev_RequestID = rq_ID r', ev_ClientID = c_ID c,
        ev_Type = (if created then ''request_accepted'' else ''request_idempotent''), ev_Detail = det, ev_At = None\<rparr>
        (e_gap E (k + 4) dbc))"
proof -
  have *: "location_requests (snd (RecordAudit f t ev d)) = location_requests d" for f t ev d
    by (simp add: RecordAudit_def exec_def Let_def)
  from assms show thesis
    by (auto simp: submit_one_def attach_callback_def Let_def * intro: that split: prod.splits sum.splits)
qed

definition own_row :: "db \<Rightarrow> string \<Rightarrow> string \<Rightarrow> target \<Rightarrow> request \<Rightarrow> bool" where
  "own_row db c key t r \<longleftrightarrow> (\<exists>q \<in> set (location_requests db). row_id q = rq_ID r \<and> client_key q = (c, key)
     \<and> row_target_kind q = Kind t \<and> row_target_value q = Value t)"

lemma own_row_run:
  assumes "own_row db c key t r" and "(store_step {})\<^sup>*\<^sup>* db db'" and "store_inv db"
  shows "own_row db' c key t r"
proof -
  from assms(1) obtain q where q: "q \<in> set (location_requests db)" "row_id q = rq_ID r" "client_key q = (c, key)"
    "row_target_kind q = Kind t" "row_target_value q = Value t" unfolding own_row_def by blast
  from run_row [OF assms(2,3) q(1)] obtain q' where "q' \<in> set (location_requests db')" "row_reaches q q'" by blast
  with q show ?thesis unfolding own_row_def row_reaches_def by metis
qed

lemma submit_one_own:
  assumes "env_ok E" and "store_inv db"
    and s: "submit_one s E k c [] sec sub det (new_request uuid c key svc t lt prio qos) db = (Inr (r', created, sub'), db', hs)"
    and free: "key_free (c_ID c) key (e_gap E k db)"
  shows "own_row db' (c_ID c) key t r'"
proof -
  from s obtain dbc where c: "CreateRequest (e_fault E k) (e_fault E (k + 1)) (e_now E k)
      (new_request uuid c key svc t lt prio qos) (e_gap E k db) = (Inr (r', created), dbc)"
    and l: "location_requests db' = location_requests (e_gap E (k + 4) dbc)"
    by (rule submit_one_plain)
  from CreateRequest_free [OF c] free have "created" by (simp add: new_request_def)
  with CreateRequest_target [of "e_fault E k" "e_fault E (k + 1)" "e_now E k" _ "e_gap E k db" r' dbc] c
  have o: "own_row dbc (c_ID c) key t r'" by (force simp: own_row_def new_request_def)
  have "store_inv (e_gap E k db)" using run_inv assms(1,2) by (simp add: env_within_def) blast
  then have "store_inv dbc" using step_kept [OF store_step.create [OF c]] store_kept_inv by blast
  with o have "own_row (e_gap E (k + 4) dbc) (c_ID c) key t r'"
    using own_row_run assms(1) unfolding env_within_def by blast
  then show ?thesis using l by (simp add: own_row_def)
qed

lemma batch_key_inject [simp]: "batch_key key i = batch_key key j \<longleftrightarrow> i = j"
proof
  assume "batch_key key i = batch_key key j"
  then have "show_nat i = show_nat j" by (simp add: batch_key_def)
  then show "i = j" using show_nat_val by metis
qed simp

lemma batch_key_prefix: "prefix key (batch_key key i)"
  by (simp add: batch_key_def)

text \<open>Each request of a successful submission is the client's own, for the target at its position.\<close>

definition key_at :: "visit \<Rightarrow> target list \<Rightarrow> nat \<Rightarrow> string" where
  "key_at V ts k = (if length ts = 1 then vi_key V else batch_key (vi_key V) k)"

lemma batch_loop_own:
  assumes "env_ok E" and "bi_CallbackURL inp = []"
    and gap: "\<And>k d key. prefix (bi_IdempotencyKey inp) key \<Longrightarrow> key_free (c_ID c) key d \<Longrightarrow> key_free (c_ID c) key (e_gap E k d)"
  shows "store_inv db \<Longrightarrow> (\<And>j. i \<le> j \<Longrightarrow> key_free (c_ID c) (batch_key (bi_IdempotencyKey inp) j) db) \<Longrightarrow>
    batch_loop s E c svc inp i sub ts db = ((None, rs), db', hs) \<Longrightarrow>
    \<forall>k < length ts. own_row db' (c_ID c) (batch_key (bi_IdempotencyKey inp) (i + k)) (ts ! k) (fst (rs ! k))"
proof (induction ts arbitrary: i sub db rs db' hs)
  case (Cons t ts)
  let ?key = "batch_key (bi_IdempotencyKey inp)"
  from Cons.prems(3) assms(2) obtain r created sub' db1 hs1 rs' hs2 where
    o: "submit_one s E (2 + 5 * i) c [] (bi_CallbackSecret inp) sub ''immediate location request (batch)''
         (new_request (e_uuid E (2 + 5 * i)) c (?key i) svc t (bi_LocationType inp)
            (bi_Priority inp) (bi_QoS inp)) db = (Inr (r, created, sub'), db1, hs1)"
    and b: "batch_loop s E c svc inp (i + 1) sub' ts db1 = ((None, rs'), db', hs2)"
    and rs: "rs = (r, created) # rs'"
    by (auto split: prod.splits sum.splits)
  have own: "own_row db1 (c_ID c) (?key i) t r"
    by (rule submit_one_own [OF assms(1) Cons.prems(1) o gap [OF batch_key_prefix Cons.prems(2) [OF order_refl]]])
  have run1: "(store_step {})\<^sup>*\<^sup>* db db1"
    using submit_one_runs [OF assms(1) rtranclp.rtrancl_refl] o by (metis fst_conv snd_conv)
  have inv1: "store_inv db1" by (rule run_inv [OF run1 Cons.prems(1)])
  have run2: "(store_step {})\<^sup>*\<^sup>* db1 db'"
    using batch_loop_runs [OF assms(1) rtranclp.rtrancl_refl, of db1 s c svc inp "i + 1" sub' ts] b by simp
  have free: "key_free (c_ID c) (?key j) db1" if j: "i + 1 \<le> j" for j
  proof -
    from o obtain dbc where cr: "CreateRequest (e_fault E (2 + 5 * i)) (e_fault E (2 + 5 * i + 1)) (e_now E (2 + 5 * i))
        (new_request (e_uuid E (2 + 5 * i)) c (?key i) svc t (bi_LocationType inp) (bi_Priority inp) (bi_QoS inp))
        (e_gap E (2 + 5 * i) db) = (Inr (r, created), dbc)"
      and l: "location_requests db1 = location_requests (e_gap E (2 + 5 * i + 4) dbc)"
      by (rule submit_one_plain)
    have "key_free (c_ID c) (?key j) dbc"
      using j by (intro CreateRequest_others [OF cr] gap [OF batch_key_prefix] Cons.prems(2)) (simp_all add: new_request_def)
    from gap [OF batch_key_prefix this] show ?thesis by (simp add: key_free_def l)
  qed
  have rest: "\<forall>k < length ts. own_row db' (c_ID c) (?key (i + 1 + k)) (ts ! k) (fst (rs' ! k))"
    by (rule Cons.IH [OF inv1 free b])
  have "own_row db' (c_ID c) (?key i) t r" by (rule own_row_run [OF own run2 inv1])
  with rest show ?case by (auto simp: rs nth_Cons split: nat.splits)
qed simp

lemma submit_targets_own:
  assumes "visit_ok V" and "store_inv db" and "fresh_key V cid db"
    and "submit_targets h V cid token ts lt prio qos db = (Inr reqs, db', hs)"
  shows "length reqs = length ts \<and> (\<forall>k < length ts. own_row db' cid (key_at V ts k) (ts ! k) (reqs ! k))"
proof (cases "length ts = 1")
  case True
  then obtain t where ts: "ts = [t]" by (cases ts) auto
  have e: "env_ok (vi_submit V)" using assms(1) by (simp add: visit_within_def)
  from assms(4) ts obtain r created where reqs: "reqs = [r]" and sub: "Submit (mh_svc h) (vi_submit V)
      \<lparr>in_ClientID = cid, in_Token = token, in_IdempotencyKey = vi_key V, in_Target = t,
       in_Service = ServiceImmediate, in_LocationType = lt, in_Priority = prio, in_QoS = qos,
       in_CallbackURL = [], in_CallbackSecret = []\<rparr> db = (Inr (r, created), db', hs)"
    by (auto simp: submit_targets_def split: prod.splits sum.splits)
  from sub obtain c db1 sub where c: "c_ID c = cid" and db1: "db1 = e_gap (vi_submit V) 1 (e_gap (vi_submit V) 0 db)"
    and o: "submit_one (mh_svc h) (vi_submit V) 2 c [] [] [] ''immediate location request''
      (new_request (e_uuid (vi_submit V) 2) c (vi_key V) ServiceImmediate t lt prio qos) db1 = (Inr (r, created, sub), db', hs)"
    by (rule Submit_Inr) simp
  have inv: "store_inv db1" unfolding db1 using e assms(2) unfolding env_within_def by (meson run_inv)
  have "key_free (c_ID c) (vi_key V) (e_gap (vi_submit V) 2 db1)"
    using assms(3) unfolding db1 c fresh_key_def by (simp only: prefix_order.order_refl simp_thms)
  from submit_one_own [OF e inv o this] show ?thesis by (simp add: ts reqs c key_at_def)
next
  case False
  have e: "env_ok (vi_submit V)" using assms(1) by (simp add: visit_within_def)
  let ?inp = "\<lparr>bi_ClientID = cid, bi_Token = token, bi_IdempotencyKey = vi_key V, bi_Targets = ts,
       bi_Service = ServiceImmediate, bi_LocationType = lt, bi_Priority = prio, bi_QoS = qos,
       bi_CallbackURL = [], bi_CallbackSecret = []\<rparr>"
  from assms(4) False obtain rs where reqs: "reqs = map fst rs"
    and sub: "SubmitBatch (mh_svc h) (vi_submit V) ?inp db = ((None, rs), db', hs)"
    by (auto simp: submit_targets_def split: prod.splits option.splits)
  from sub obtain c svc db1 where
    p: "prepare (mh_svc h) (vi_submit V) 0 cid token (vi_key V) ServiceImmediate lt db = (Inr (c, svc), db1)"
    and f: "first_forbidden c svc ts = None" and ne: "ts \<noteq> []"
    and b: "batch_loop (mh_svc h) (vi_submit V) c svc ?inp 0 [] ts db1 = ((None, rs), db', hs)"
    by (auto simp: SubmitBatch_def split: if_splits option.splits prod.splits sum.splits)
  from f ne have "Authorize c svc (hd ts) = None"
    by (cases ts) (auto simp: first_forbidden_def split: if_splits)
  from prepare_Inr [OF p this] have c: "c_ID c = cid" and db1: "db1 = e_gap (vi_submit V) 1 (e_gap (vi_submit V) 0 db)" by simp_all
  have inv: "store_inv db1" unfolding db1 using e assms(2) unfolding env_within_def by (meson run_inv)
  have gap: "key_free (c_ID c) key (e_gap (vi_submit V) k d)" if "prefix (bi_IdempotencyKey ?inp) key" "key_free (c_ID c) key d" for k d key
    using assms(3) that unfolding fresh_key_def c by simp
  have free: "key_free (c_ID c) (batch_key (bi_IdempotencyKey ?inp) j) db1" if "0 \<le> j" for j
    unfolding db1 using assms(3) batch_key_prefix unfolding fresh_key_def by (intro gap) (simp_all add: batch_key_prefix c)
  from batch_loop_all [OF b] have "length rs = length ts" by simp
  with batch_loop_own [OF e _ gap inv free b] show ?thesis
    using False by (simp add: reqs c key_at_def)
qed

section \<open>What a poll and a wait return\<close>

lemma Get_Inr:
  assumes "Get s E cid token i db = (Inr r, db')"
  obtains q where "row_by row_id i (location_requests db') = Some q" and "row_client_id q = cid" and "r = request_of_row q"
proof -
  from assms obtain c db1 where a: "Authenticate (sv_sha256 s) E 0 cid token db = (Inr c, db1)"
    and g: "GetRequest (e_fault E 2) i (e_gap E 2 db1) = Inr r" "rq_ClientID r = c_ID c" "db' = e_gap E 2 db1"
    by (auto simp: Get_def Let_def split: prod.splits sum.splits if_splits)
  from Authenticate_Inr [OF a] have "c_ID c = cid" by auto
  with g that show thesis by (auto simp: GetRequest_def request_of_row_def split: if_splits option.splits)
qed

lemma Get_Inr_inv: "env_ok E \<Longrightarrow> store_inv db \<Longrightarrow> Get s E cid token i db = (x, db') \<Longrightarrow> store_inv db'"
  using run_inv [OF Get_runs [of "{}" E db s cid token i]] by simp

lemma poll_completed:
  assumes "env_ok E" and "store_inv db" and "Service_GetResult s E cid token i db = (Inr (r, v), db')"
  shows "(rq_State r = StateCompleted) = (v \<noteq> None)"
    and "v = Some w \<Longrightarrow> \<exists>q \<in> set (location_requests db'). row_id q = i \<and> row_client_id q = cid \<and> row_state q = StateCompleted
      \<and> GetResult False i db' = Inr w"
proof -
  from assms(3) obtain db1 where g: "Get s E cid token i db = (Inr r, db1)"
    by (auto simp: Service_GetResult_def Let_def split: prod.splits sum.splits if_splits)
  show s: "(rq_State r = StateCompleted) = (v \<noteq> None)"
    using assms(3) g by (auto simp: Service_GetResult_def Let_def split: if_splits sum.splits)
  assume w: "v = Some w"
  from g obtain q where q: "row_by row_id i (location_requests db1) = Some q" "row_client_id q = cid" "r = request_of_row q"
    by (rule Get_Inr)
  with w s have st: "row_state q = StateCompleted" by (simp add: request_of_row_def)
  from assms(3) g w have db': "db' = e_gap E 3 db1" and v: "GetResult (e_fault E 3) i db' = Inr w"
    by (auto simp: Service_GetResult_def Let_def split: if_splits sum.splits)
  have "(store_step {})\<^sup>*\<^sup>* db1 db'" using assms(1) by (simp add: db' env_within_def)
  from run_row [OF this Get_Inr_inv [OF assms(1,2) g]] row_by_Some [OF q(1)]
  obtain q' where q': "q' \<in> set (location_requests db')" "row_reaches q q'" by blast
  then have "row_state q' = StateCompleted" "row_id q' = i" "row_client_id q' = cid"
    using st q(2) row_by_Some [OF q(1)] request_lifecycle.terminal_final [of StateCompleted]
    by (auto simp: row_reaches_def client_key_def)
  moreover have "GetResult False i db' = Inr w" using v by (simp add: GetResult_def split: if_splits)
  ultimately show "\<exists>q \<in> set (location_requests db'). row_id q = i \<and> row_client_id q = cid \<and> row_state q = StateCompleted
      \<and> GetResult False i db' = Inr w" using q'(1) by blast
qed

lemma awaitTerminal_final:
  assumes "awaitTerminal h P cid token i deadline j db = Some (Some (r, v), db')" and "\<forall>j. env_ok (pl_env (P j))"
    and "store_inv db" and "rq_State r = StateCompleted"
  shows "\<exists>q \<in> set (location_requests db'). row_id q = i \<and> row_client_id q = cid \<and> row_state q = StateCompleted
    \<and> GetResult False i db' = Inr v"
proof -
  have "store_inv db \<longrightarrow> (\<exists>q \<in> set (location_requests db'). row_id q = i \<and> row_client_id q = cid \<and> row_state q = StateCompleted
    \<and> GetResult False i db' = Inr v)"
  proof (rule awaitTerminal_induct [OF assms(1)], goal_cases)
    case (1 j db res)
    from 1(2) obtain w where res: "res = Inr (r, w)" and v: "v = (case w of None \<Rightarrow> no_result | Some v \<Rightarrow> v)"
      by (auto simp: poll_final_def split: sum.splits prod.splits if_splits)
    show ?case
    proof
      assume inv: "store_inv db"
      have e: "env_ok (pl_env (P j))" using assms(2) by blast
      note c = poll_completed [OF e inv 1(1) [unfolded res]]
      from c(1) assms(4) have "w = Some v" using v by auto
      from c(2) [OF this] show "\<exists>q \<in> set (location_requests db'). row_id q = i \<and> row_client_id q = cid \<and> row_state q = StateCompleted
        \<and> GetResult False i db' = Inr v" .
    qed
  next
    case (2 j db res db1)
    have "(store_step {})\<^sup>*\<^sup>* db db1" using Service_GetResult_runs assms(2) 2(1) by (metis snd_conv)
    with 2(2) show ?case using run_inv by blast
  qed
  with assms(3) show ?thesis by blast
qed

lemma await_all_nth:
  assumes "visit_ok V"
  shows "await_all h V cid token ms deadline i rs db = Some (ps, db') \<Longrightarrow>
    length ps = length rs \<and> (\<forall>k < length rs. \<exists>x da db1.
      awaitTerminal h (vi_poll V (i + k)) cid token (rq_ID (rs ! k)) deadline 0 da = Some (x, db1)
      \<and> ps ! k = buildPos (ms ! (i + k)) x (vi_end V (i + k)) \<and> (store_step {})\<^sup>*\<^sup>* db da \<and> (store_step {})\<^sup>*\<^sup>* db1 db')"
proof (induction rs arbitrary: i db ps)
  case (Cons r rs)
  from Cons.prems obtain x db1 ps' where
    a: "awaitTerminal h (vi_poll V i) cid token (rq_ID r) deadline 0 db = Some (x, db1)"
    and b: "await_all h V cid token ms deadline (i + 1) rs db1 = Some (ps', db')"
    and ps: "ps = buildPos (ms ! i) x (vi_end V i) # ps'"
    by (auto split: option.splits)
  have run: "(store_step {})\<^sup>*\<^sup>* db db1" using awaitTerminal_runs [OF a] assms by (simp add: visit_within_def)
  have run2: "(store_step {})\<^sup>*\<^sup>* db1 db'" by (rule await_all_runs [OF assms b])
  note ih = Cons.IH [OF b]
  have "\<exists>x da db1. awaitTerminal h (vi_poll V (i + k)) cid token (rq_ID ((r # rs) ! k)) deadline 0 da = Some (x, db1)
      \<and> ps ! k = buildPos (ms ! (i + k)) x (vi_end V (i + k)) \<and> (store_step {})\<^sup>*\<^sup>* db da \<and> (store_step {})\<^sup>*\<^sup>* db1 db'"
    if k: "k < length (r # rs)" for k
  proof (cases k)
    case 0
    with a run2 ps show ?thesis by (intro exI [of _ x] exI [of _ db] exI [of _ db1]) simp
  next
    case (Suc m)
    with k have "m < length rs" by simp
    with ih obtain y da d1 where y: "awaitTerminal h (vi_poll V (i + 1 + m)) cid token (rq_ID (rs ! m)) deadline 0 da = Some (y, d1)"
      "ps' ! m = buildPos (ms ! (i + 1 + m)) y (vi_end V (i + 1 + m))" "(store_step {})\<^sup>*\<^sup>* db1 da" "(store_step {})\<^sup>*\<^sup>* d1 db'" by blast
    have "(store_step {})\<^sup>*\<^sup>* db da" by (rule rtranclp_trans [OF run y(3)])
    with y Suc ps show ?thesis by (intro exI [of _ y] exI [of _ da] exI [of _ d1]) simp
  qed
  with ih ps show ?case by simp
qed simp

lemma targets_loop_nth:
  "targets_loop h ms = Inr ts \<Longrightarrow> length ts = length ms \<and> (\<forall>k < length ms. msidToTarget (ms ! k) = Inr (ts ! k))"
proof (induction ms arbitrary: ts)
  case (Cons m ms)
  then obtain t ts' where "msidToTarget m = Inr t" "targets_loop h ms = Inr ts'" "ts = t # ts'"
    by (auto split: sum.splits)
  with Cons.IH [of ts'] show ?case by (auto simp: nth_Cons split: nat.splits)
qed simp

lemma buildPos_shape: "po_Msid (buildPos m x t) = m \<and> (po_Pd (buildPos m x t) = None) \<noteq> (po_PosErr (buildPos m x t) = None)"
  by (auto simp: buildPos_def Let_def split: option.splits)

lemma buildPos_Pd:
  "po_Pd (buildPos m x t) = Some d \<Longrightarrow> \<exists>r v lat lon. x = Some (r, v) \<and> rq_State r = StateCompleted
     \<and> rs_Latitude v = Some lat \<and> rs_Longitude v = Some lon \<and> d = fix_pd (rs_CreatedAt v) lat lon (rs_UncertaintyMeters v)"
  by (auto simp: buildPos_def Let_def split: option.splits if_splits)

text \<open>The position data \<open>d\<close> is the stored result of the client's completed request for the target of \<open>m\<close>.\<close>

definition reports_result :: "db \<Rightarrow> string \<Rightarrow> msid \<Rightarrow> pd \<Rightarrow> bool" where
  "reports_result db cid m d \<longleftrightarrow> (\<exists>t q v lat lon. msidToTarget m = Inr t \<and> q \<in> set (location_requests db)
     \<and> row_client_id q = cid \<and> row_state q = StateCompleted \<and> row_target_kind q = Kind t \<and> row_target_value q = Value t
     \<and> GetResult False (row_id q) db = Inr v \<and> rs_Latitude v = Some lat \<and> rs_Longitude v = Some lon
     \<and> d = fix_pd (rs_CreatedAt v) lat lon (rs_UncertaintyMeters v))"

lemma wait_reports:
  assumes "visit_ok V" and "store_inv db" and "own_row db cid key t r" and "msidToTarget m = Inr t"
    and a: "awaitTerminal h (vi_poll V i) cid token (rq_ID r) deadline 0 da = Some (x, db1)"
    and "(store_step {})\<^sup>*\<^sup>* db da" and "(store_step {})\<^sup>*\<^sup>* db1 db'" and "po_Pd (buildPos m x now) = Some d"
  shows "reports_result db' cid m d"
proof -
  from buildPos_Pd [OF assms(8)] obtain r' v lat lon where x: "x = Some (r', v)" "rq_State r' = StateCompleted"
    and v: "rs_Latitude v = Some lat" "rs_Longitude v = Some lon" "d = fix_pd (rs_CreatedAt v) lat lon (rs_UncertaintyMeters v)"
    by blast
  have envs: "\<forall>j. env_ok (pl_env (vi_poll V i j))" using assms(1) by (simp add: visit_within_def)
  have run1: "(store_step {})\<^sup>*\<^sup>* da db1" by (rule awaitTerminal_runs [OF a envs])
  have inva: "store_inv da" by (rule run_inv [OF assms(6,2)])
  have inv1: "store_inv db1" by (rule run_inv [OF run1 inva])
  from awaitTerminal_final [OF a [unfolded x] envs inva x(2)]
  obtain q where q: "q \<in> set (location_requests db1)" "row_id q = rq_ID r" "row_client_id q = cid"
    "row_state q = StateCompleted" "GetResult False (rq_ID r) db1 = Inr v" by blast
  from run_row [OF assms(7) inv1 q(1)] obtain q' where q': "q' \<in> set (location_requests db')" "row_reaches q q'"
    and inv': "store_inv db'" by blast
  have s': "row_id q' = rq_ID r" "row_client_id q' = cid" "row_state q' = StateCompleted"
    using q'(2) q(2,3,4) request_lifecycle.terminal_final [of StateCompleted] by (auto simp: row_reaches_def client_key_def)
  have "own_row db' cid key t r"
    by (rule own_row_run [OF assms(3) _ assms(2)]) (meson assms(6,7) run1 rtranclp_trans)
  then obtain p where p: "p \<in> set (location_requests db')" "row_id p = rq_ID r" "row_target_kind p = Kind t"
    "row_target_value p = Value t" unfolding own_row_def by blast
  have "key_unique row_id (location_requests db')" using inv' by (simp add: store_inv_def requests_inv_def)
  then have "p = q'" using row_by_unique p(1,2) q'(1) s'(1) by (metis option.inject)
  with p q'(1) s' v assms(4) run_result [OF assms(7) inv1 q(5)] show ?thesis
    unfolding reports_result_def by (intro exI [of _ t] exI [of _ p] exI [of _ v] exI [of _ lat] exI [of _ lon]) simp
qed

text \<open>
  C7: An immediate location request that is answered with positions is answered with one per
  \<open>msid\<close>, in order, each either a position or an error; and a position is the stored result of this
  client's own completed request for that very target, never another's and never made up, whatever store
  operations other than purges run meanwhile.
\<close>

theorem mlp_position_sound:
  assumes "store_inv db" and "visit_ok V" and "fresh_key V cid db"
    and "resolveImmediate h V cid token (Some ms) lt gi prio e db = Some (Inr ps, db', hs)"
  shows "length ps = length ms \<and> (\<forall>k < length ms. po_Msid (ps ! k) = ms ! k
    \<and> (po_Pd (ps ! k) = None) \<noteq> (po_PosErr (ps ! k) = None)
    \<and> (\<forall>d. po_Pd (ps ! k) = Some d \<longrightarrow> reports_result db' cid (ms ! k) d))"
proof -
  from assms(4) obtain ts l qos timer reqs db1 where t: "extractTargetsFrom h (Some ms) = Inr ts"
    and s: "submit_targets h V cid token ts l prio qos db = (Inr reqs, db1, hs)"
    and a: "await_all h V cid token ms (waitDeadline h (vi_start V) timer) 0 reqs db1 = Some (ps, db')"
    unfolding resolveImmediate_def by (auto split: sum.splits option.splits prod.splits)
  from t have ms: "length ts = length ms" "\<And>k. k < length ms \<Longrightarrow> msidToTarget (ms ! k) = Inr (ts ! k)"
    using targets_loop_nth [of h ms ts] by (auto simp: extractTargetsFrom_def split: if_splits)
  from submit_targets_own [OF assms(2,1,3) s] have own: "length reqs = length ts"
    "\<And>k. k < length ts \<Longrightarrow> own_row db1 cid (key_at V ts k) (ts ! k) (reqs ! k)" by blast+
  have inv1: "store_inv db1"
    using run_inv [OF submit_targets_runs [OF _ s] assms(1), of "{}"] assms(2) by (simp add: visit_within_def)
  from await_all_nth [OF assms(2) a] have len: "length ps = length reqs"
    and nth: "\<And>k. k < length reqs \<Longrightarrow> \<exists>x da d1. awaitTerminal h (vi_poll V k) cid token (rq_ID (reqs ! k))
        (waitDeadline h (vi_start V) timer) 0 da = Some (x, d1)
      \<and> ps ! k = buildPos (ms ! k) x (vi_end V k) \<and> (store_step {})\<^sup>*\<^sup>* db1 da \<and> (store_step {})\<^sup>*\<^sup>* d1 db'"
    by simp_all
  have "po_Msid (ps ! k) = ms ! k \<and> (po_Pd (ps ! k) = None) \<noteq> (po_PosErr (ps ! k) = None)
    \<and> (\<forall>d. po_Pd (ps ! k) = Some d \<longrightarrow> reports_result db' cid (ms ! k) d)" if k: "k < length ms" for k
  proof -
    from nth own(1) ms(1) k obtain x da d1 where
      w: "awaitTerminal h (vi_poll V k) cid token (rq_ID (reqs ! k)) (waitDeadline h (vi_start V) timer) 0 da = Some (x, d1)"
      and p: "ps ! k = buildPos (ms ! k) x (vi_end V k)" and r: "(store_step {})\<^sup>*\<^sup>* db1 da" "(store_step {})\<^sup>*\<^sup>* d1 db'" by metis
    have o: "own_row db1 cid (key_at V ts k) (ts ! k) (reqs ! k)" using own(2) ms(1) k by simp
    show ?thesis
      using wait_reports [OF assms(2) inv1 o ms(2) [OF k] w r] buildPos_shape [of "ms ! k" x "vi_end V k"] by (simp add: p)
  qed
  with len own(1) ms(1) show ?thesis by simp
qed

text \<open>The clock of the samples is at the deadline after the first poll.\<close>

definition sample_handler :: mlp_handler where
  "sample_handler = \<lparr>mh_svc = sample_service, mh_syncWaitDefault = 10, mh_syncWaitMax = 20,
     mh_unmarshal = (\<lambda>_. None), mh_ParseFloat = (\<lambda>_. None), mh_Quote = (\<lambda>s. s)\<rparr>"

definition sample_visit :: visit where
  "sample_visit = \<lparr>vi_key = ''7'', vi_submit = calm 5, vi_start = 5,
     vi_poll = (\<lambda>i j. \<lparr>pl_env = calm 6, pl_now = 25, pl_done = False\<rparr>), vi_end = (\<lambda>i. 26)\<rparr>"

definition sample_msid :: msid where "sample_msid = \<lparr>ms_Type = [], ms_Value = ''155''\<rparr>"

lemma sample_visit_ok: "visit_ok sample_visit"
  by (simp add: visit_within_def sample_visit_def alone_ok)

lemma sample_clock: "clock_passes sample_handler sample_visit (\<lambda>i. 0)"
  by (simp add: clock_passes_def sample_handler_def sample_visit_def)

lemma sample_fresh: "fresh_key sample_visit c sample_clients"
  by (simp add: fresh_key_def key_free_def sample_visit_def calm_def sample_clients_def sample_db_def empty_db_def)

lemma sample_targets: "extractTargetsFrom h (Some [sample_msid]) = Inr [\<lparr>IMSI = [], MSISDN = ''155''\<rparr>]"
proof -
  have "TrimSpace ''155'' = ''155''" by (rule TrimSpace_digits) (simp add: is_digit_alt)
  then show ?thesis by (simp add: extractTargetsFrom_def sample_msid_def msidToTarget_def)
qed

lemma prepare_immediate: "prepare s E k c token key ServiceImmediate lt db = prepare s E k c token key [] lt db"
  by (simp add: prepare_def)

lemma sample_resolve:
  "\<exists>ps db' hs. resolveImmediate sample_handler sample_visit ''c'' ''t'' (Some [sample_msid]) None None None None sample_clients
     = Some (Inr ps, db', hs)"
proof -
  have "\<exists>r db1 hs. submit_targets sample_handler sample_visit ''c'' ''t'' [\<lparr>IMSI = [], MSISDN = ''155''\<rparr>] 0 None None sample_clients
      = (Inr [r], db1, hs)"
    by (simp add: submit_targets_def Submit_def sample_valid validateCallback_def sample_handler_def sample_visit_def
        Authorize_def Value_def prepare_immediate sample_prepare)
      (simp add: submit_one_def CreateRequest_def Let_def calm_def insert_violates_def new_request_def insert_row_def
        sample_clients_def sample_db_def empty_db_def row_by_def sample_client_def attach_callback_def)
  then obtain r db1 hs where s: "submit_targets sample_handler sample_visit ''c'' ''t'' [\<lparr>IMSI = [], MSISDN = ''155''\<rparr>] 0 None None
      sample_clients = (Inr [r], db1, hs)" by blast
  obtain y where "resolveImmediate sample_handler sample_visit ''c'' ''t'' (Some [sample_msid]) None None None None sample_clients = Some y"
    using resolveImmediate_returns [OF sample_clock] by blast
  then show ?thesis
    using s by (auto simp: resolveImmediate_def sample_targets parseLocType_def LocationCurrent_def validateGeoInfo_def parseEQoP_def
        split: option.splits)
qed

theorem mlp_position_sound_witness:
  "\<exists>ps db' hs. resolveImmediate sample_handler sample_visit ''c'' ''t'' (Some [sample_msid]) None None None None sample_clients
     = Some (Inr ps, db', hs) \<and> length ps = 1 \<and> po_Msid (ps ! 0) = sample_msid"
proof -
  from sample_resolve obtain ps db' hs where r: "resolveImmediate sample_handler sample_visit ''c'' ''t'' (Some [sample_msid])
      None None None None sample_clients = Some (Inr ps, db', hs)" by blast
  from mlp_position_sound [OF sample_clients_inv sample_visit_ok sample_fresh r] r show ?thesis by simp
qed

text \<open>
  C16: The handler always answers: once the clock has moved by the configured maximum, whatever
  \<open>resp_timer\<close> the client asked for, no further poll is made and the answer is complete; what would be
  read later has no influence on it.
\<close>

theorem mlp_answers_in_time:
  assumes "clock_passes h V n"
  shows "\<exists>resp db' hs. ServeHTTP h V r db = Some (resp, db', hs)
    \<and> (\<forall>later. ServeHTTP h (V\<lparr>vi_poll := (\<lambda>i k. if k \<le> n i then vi_poll V i k else later i k)\<rparr>) r db
         = Some (resp, db', hs))"
proof -
  let ?V = "\<lambda>later. V\<lparr>vi_poll := (\<lambda>i k. if k \<le> n i then vi_poll V i k else later i k)\<rparr>"
  have r: "resolveImmediate h (?V later) cid token ms lt gi prio e db = resolveImmediate h V cid token ms lt gi prio e db"
    for later cid token ms lt gi prio e
    by (rule resolveImmediate_local [OF assms]) simp_all
  have l: "handleHLIR h (?V later) c q db = handleHLIR h V c q db" for later c q
  proof -
    have "vi_submit (?V later) = vi_submit V" "vi_start (?V later) = vi_start V" by simp_all
    then show ?thesis by (simp only: handleHLIR_def)
  qed
  have "ServeHTTP h (?V later) r db = ServeHTTP h V r db" for later
    by (simp only: ServeHTTP_def handleSLIR_def handleEMELIR_def r l)
  moreover have "handleSLIR h V c q db \<noteq> None" "handleEMELIR h V c q' db \<noteq> None" for c q q'
    by (auto simp: handleSLIR_def handleEMELIR_def Let_def resolveImmediate_returns [OF assms]
        split: option.splits prod.splits sum.splits)
  then have "ServeHTTP h V r db \<noteq> None"
    by (auto simp: ServeHTTP_def Let_def split: option.splits prod.splits)
  ultimately show ?thesis by auto
qed

theorem mlp_answers_in_time_witness:
  "\<exists>resp db' hs. ServeHTTP (sample_handler\<lparr>mh_unmarshal := (\<lambda>_. Some \<lparr>si_Client = None,
       si_Slir = Some \<lparr>sl_Msids = Some [sample_msid], sl_EQoP = None, sl_GeoInfo = None, sl_LocType = None, sl_Prio = None\<rparr>,
       si_EmeLir = None, si_Hlir = None\<rparr>)\<rparr>) sample_visit \<lparr>ht_Method = ''POST'', ht_Body = [], ht_ReadError = False\<rparr> sample_clients
     = Some (resp, db', hs)"
proof -
  have "clock_passes (sample_handler\<lparr>mh_unmarshal := u\<rparr>) sample_visit (\<lambda>i. 0)" for u
    using sample_clock by (simp add: clock_passes_def)
  from mlp_answers_in_time [OF this] show ?thesis by blast
qed

text \<open>An answer that discloses no position.\<close>

definition discloses :: "mlp_response \<Rightarrow> bool" where
  "discloses resp \<longleftrightarrow> (case rp_body resp of
     Gem _ \<Rightarrow> False
   | Svc s \<Rightarrow> \<exists>a \<in> set_option (sr_Slia s) \<union> set_option (sr_EmeLia s) \<union> set_option (sr_Hlia s). an_Pos a \<noteq> [])"

lemma result_silent:
  "\<not> discloses (writeTopLevelResult rc d)" "\<not> discloses (writeTopLevelResultEme rc d)"
  "\<not> discloses (writeTopLevelResultHlia rc d)" "\<not> discloses (writeGEM rc d)"
  by (simp_all add: discloses_def writeTopLevelResult_def writeTopLevelResultEme_def writeTopLevelResultHlia_def writeGEM_def
      writeXML_def no_svc_def result_answer_def)

lemma submit_targets_rejected:
  assumes "alone (vi_submit V)"
    and "\<And>c d. Authenticate (sv_sha256 (mh_svc h)) (vi_submit V) 0 cid token db = (Inr c, d) \<Longrightarrow> \<exists>t \<in> set ts. Authorize c ServiceImmediate t \<noteq> None"
  shows "\<exists>e. submit_targets h V cid token ts lt prio qos db = (Inl e, db, [])"
proof -
  let ?s = "mh_svc h" and ?E = "vi_submit V"
  have p: "prepare ?s ?E 0 cid token key svc lt db = (x, d) \<Longrightarrow> d = db" for key svc lt x d
    using prepare_alone [OF assms(1), of ?s 0 cid token key svc lt db] by simp
  have f: "first_forbidden c svc ts \<noteq> None" if "prepare ?s ?E 0 cid token key svc0 lt db = (Inr (c, svc), d)" for key svc0 lt c svc d
  proof -
    from that have "svc = ServiceImmediate" "Authenticate (sv_sha256 ?s) ?E 0 cid token db = (Inr c, d)"
      by (auto simp: prepare_def split: if_splits prod.splits sum.splits)
    with assms(2) have "find (\<lambda>t. Authorize c svc t \<noteq> None) ts \<noteq> None" by (auto simp: find_None_iff)
    then obtain t where t: "find (\<lambda>t. Authorize c svc t \<noteq> None) ts = Some t" by blast
    then have "Authorize c svc t \<noteq> None" unfolding find_Some_iff by metis
    with t show ?thesis by (simp add: first_forbidden_def)
  qed
  obtain x d where x: "prepare ?s ?E 0 cid token (vi_key V) ServiceImmediate lt db = (x, d)" by force
  show ?thesis
  proof (cases "length ts = 1")
    case True
    then obtain t where t: "ts = [t]" by (cases ts) auto
    from f have "Authorize c svc t \<noteq> None" if "x = Inr (c, svc)" for c svc
      using x that by (force simp: t first_forbidden_def split: if_splits)
    with x p [OF x] show ?thesis
      by (cases x) (auto simp: submit_targets_def t Submit_def validateCallback_def split: option.split)
  next
    case False
    from f have "first_forbidden c svc ts \<noteq> None" if "x = Inr (c, svc)" for c svc using x that by blast
    with False x p [OF x] show ?thesis
      by (cases x) (auto simp: submit_targets_def SubmitBatch_def validateCallback_def split: option.split)
  qed
qed

definition asked_msids :: "svcInit \<Rightarrow> msid list" where
  "asked_msids init =
     (case (si_Slir init, si_EmeLir init, si_Hlir init) of
        (Some q, _, _) \<Rightarrow> (case sl_Msids q of None \<Rightarrow> [] | Some ms \<Rightarrow> ms)
      | (None, Some q, _) \<Rightarrow> (case el_Msids q of None \<Rightarrow> [] | Some ms \<Rightarrow> ms)
      | (None, None, Some q) \<Rightarrow> [hl_Msid q]
      | (None, None, None) \<Rightarrow> [])"

text \<open>The credentials are not accepted, or one of the targets is not granted to the client they belong to.\<close>

definition refused :: "mlp_handler \<Rightarrow> visit \<Rightarrow> svcInit \<Rightarrow> db \<Rightarrow> bool" where
  "refused h V init db \<longleftrightarrow> (case credentialsFromHdr (si_Client init) of (cid, token) \<Rightarrow>
     \<forall>c d. Authenticate (sv_sha256 (mh_svc h)) (vi_submit V) 0 cid token db = (Inr c, d) \<longrightarrow>
       (\<exists>m \<in> set (asked_msids init). \<exists>t. msidToTarget m = Inr t \<and> Authorize c ServiceImmediate t \<noteq> None))"

lemma resolveImmediate_refused:
  assumes "alone (vi_submit V)"
    and "\<And>c d. Authenticate (sv_sha256 (mh_svc h)) (vi_submit V) 0 cid token db = (Inr c, d) \<Longrightarrow>
      \<exists>m \<in> set (case ms of None \<Rightarrow> [] | Some ms \<Rightarrow> ms). \<exists>t. msidToTarget m = Inr t \<and> Authorize c ServiceImmediate t \<noteq> None"
  shows "\<exists>e. resolveImmediate h V cid token ms lt gi prio q db = Some (Inl e, db, [])"
proof (cases "extractTargetsFrom h ms")
  case (Inr ts)
  then obtain ms' where ms: "ms = Some ms'" and n: "length ts = length ms'" "\<forall>k < length ms'. msidToTarget (ms' ! k) = Inr (ts ! k)"
    using targets_loop_nth by (auto simp: extractTargetsFrom_def split: option.splits if_splits)
  have "\<exists>t \<in> set ts. Authorize c ServiceImmediate t \<noteq> None"
    if "Authenticate (sv_sha256 (mh_svc h)) (vi_submit V) 0 cid token db = (Inr c, d)" for c d
    using assms(2) [OF that] n by (auto simp: ms in_set_conv_nth) (metis nth_mem sum.inject(2))
  then have rej: "\<exists>e. submit_targets h V cid token ts l prio qos db = (Inl e, db, [])" for l qos
    by (rule submit_targets_rejected [OF assms(1)])
  have "\<exists>e. (case submit_targets h V cid token ts l prio qos db of
       (Inl err, db, hs) \<Rightarrow> Some (Inl (errorToResultCode err, []), db, hs)
     | (Inr reqs, db, hs) \<Rightarrow> X reqs db hs) = Some (Inl e, db, [])" for l qos X
    using rej [of l qos] by auto
  then show ?thesis by (auto simp: resolveImmediate_def Inr split: sum.split option.split)
qed (simp add: resolveImmediate_def)

lemma handleHLIR_refused:
  assumes "alone (vi_submit V)" and "credentialsFromHdr cl = (cid, token)"
    and "\<And>c d. Authenticate (sv_sha256 (mh_svc h)) (vi_submit V) 0 cid token db = (Inr c, d) \<Longrightarrow>
      \<exists>t. msidToTarget (hl_Msid q) = Inr t \<and> Authorize c ServiceImmediate t \<noteq> None"
  shows "\<exists>resp. handleHLIR h V cl q db = (resp, db) \<and> \<not> discloses resp"
proof -
  obtain x d where x: "Authenticate (sv_sha256 (mh_svc h)) (vi_submit V) 0 cid token db = (x, d)" by force
  have d: "d = db" using Authenticate_alone [OF assms(1), of "sv_sha256 (mh_svc h)" 0 cid token db] x by simp
  have rej: "\<exists>e. Service_QueryHistory (mh_svc h) (vi_submit V) cid token t start stop mi n db = (Inl e, db)"
    if "msidToTarget (hl_Msid q) = Inr t" for t start stop mi n
    using assms(3) x d that by (cases x) (auto simp: Service_QueryHistory_def split: option.split)
  then have "\<exists>resp. (case Service_QueryHistory (mh_svc h) (vi_submit V) cid token t start stop mi n db of
       (Inl err, db) \<Rightarrow> (writeTopLevelResultHlia (errorToResultCode err) [], db)
     | (Inr points, db) \<Rightarrow> X points db) = (resp, db) \<and> \<not> discloses resp"
    if "msidToTarget (hl_Msid q) = Inr t" for t start stop mi n X
  proof -
    from that obtain e where "Service_QueryHistory (mh_svc h) (vi_submit V) cid token t start stop mi n db = (Inl e, db)"
      using rej by blast
    then show ?thesis by (simp add: result_silent)
  qed
  then show ?thesis
    by (auto simp: handleHLIR_def assms(2) result_silent split: option.split sum.split)
qed

text \<open>
  C17: A request whose body carries credentials that are not accepted, or a target that is not granted to the client,
  is answered without any position and changes nothing, on all three services; a batch is refused as a
  whole.
\<close>

theorem mlp_refused:
  assumes "alone (vi_submit V)" and "\<And>init. mh_unmarshal h (ht_Body r) = Some init \<Longrightarrow> refused h V init db"
  shows "\<exists>resp. ServeHTTP h V r db = Some (resp, db, []) \<and> \<not> discloses resp"
proof -
  have s: "\<exists>resp. handleSLIR h V (si_Client init) q db = Some (resp, db, []) \<and> \<not> discloses resp"
    if "refused h V init db" "si_Slir init = Some q" for init q
  proof -
    obtain cid token where c: "credentialsFromHdr (si_Client init) = (cid, token)" by force
    with that obtain e where "resolveImmediate h V cid token (sl_Msids q) (sl_LocType q) (sl_GeoInfo q) (parsePrio (sl_Prio q))
        (sl_EQoP q) db = Some (Inl e, db, [])"
      using resolveImmediate_refused [OF assms(1), of h cid token db "sl_Msids q"] by (fastforce simp: refused_def asked_msids_def)
    with c show ?thesis by (cases e) (simp add: handleSLIR_def result_silent)
  qed
  have m: "\<exists>resp. handleEMELIR h V (si_Client init) q db = Some (resp, db, []) \<and> \<not> discloses resp"
    if "refused h V init db" "si_Slir init = None" "si_EmeLir init = Some q" for init q
  proof -
    obtain cid token where c: "credentialsFromHdr (si_Client init) = (cid, token)" by force
    with that obtain e where "resolveImmediate h V cid token (el_Msids q) (el_LocType q) (el_GeoInfo q) None
        (el_EQoP q) db = Some (Inl e, db, [])"
      using resolveImmediate_refused [OF assms(1), of h cid token db "el_Msids q"] by (fastforce simp: refused_def asked_msids_def)
    with c show ?thesis by (cases e) (simp add: handleEMELIR_def result_silent)
  qed
  have l: "\<exists>resp. handleHLIR h V (si_Client init) q db = (resp, db) \<and> \<not> discloses resp"
    if "refused h V init db" "si_Slir init = None" "si_EmeLir init = None" "si_Hlir init = Some q" for init q
  proof -
    obtain cid token where c: "credentialsFromHdr (si_Client init) = (cid, token)" by force
    with that show ?thesis
      by (intro handleHLIR_refused [OF assms(1) c]) (fastforce simp: refused_def asked_msids_def)
  qed
  have body: "take (maxBodyBytes + 1) (ht_Body r) = ht_Body r" if "length (take (maxBodyBytes + 1) (ht_Body r)) \<le> maxBodyBytes"
    using that by simp
  show ?thesis
  proof (cases "ht_Method r \<noteq> ''POST'' \<or> ht_ReadError r \<or> length (take (maxBodyBytes + 1) (ht_Body r)) > maxBodyBytes
      \<or> mh_unmarshal h (ht_Body r) = None")
    case True
    then show ?thesis using body by (cases "mh_unmarshal h (ht_Body r)") (auto simp: ServeHTTP_def Let_def result_silent)
  next
    case False
    then obtain init where init: "mh_unmarshal h (ht_Body r) = Some init" by auto
    have "refused h V init db" by (rule assms(2) [OF init])
    with False init body s m l show ?thesis
      by (cases "si_Slir init"; cases "si_EmeLir init"; cases "si_Hlir init") (fastforce simp: ServeHTTP_def Let_def result_silent)+
  qed
qed

text \<open>A handler whose decoder reads a document with the right password, and from an empty body one with a wrong one.\<close>

definition sample_document :: "string \<Rightarrow> svcInit" where
  "sample_document pwd = \<lparr>si_Client = Some \<lparr>mc_ID = ''c'', mc_Pwd = pwd\<rparr>,
     si_Slir = Some \<lparr>sl_Msids = Some [sample_msid], sl_EQoP = None, sl_GeoInfo = None, sl_LocType = None, sl_Prio = None\<rparr>,
     si_EmeLir = None, si_Hlir = None\<rparr>"

definition sample_decoding :: mlp_handler where
  "sample_decoding = sample_handler\<lparr>mh_unmarshal := (\<lambda>body. Some (sample_document (if body = [] then ''2'' else ''t'')))\<rparr>"

theorem mlp_refused_witness:
  "\<exists>resp. ServeHTTP sample_decoding sample_visit \<lparr>ht_Method = ''POST'', ht_Body = [], ht_ReadError = False\<rparr> sample_clients
     = Some (resp, sample_clients, []) \<and> \<not> discloses resp"
proof (rule mlp_refused)
  show "alone (vi_submit sample_visit)" by (simp add: sample_visit_def)
  have t: "TrimSpace ''c'' = ''c''" "TrimSpace ''2'' = ''2''"
    using TrimSpace_plain [of "''c''"] TrimSpace_plain [of "''2''"] by (simp_all add: white_space_def)
  show "refused sample_decoding sample_visit init sample_clients"
    if "mh_unmarshal sample_decoding (ht_Body \<lparr>ht_Method = ''POST'', ht_Body = [], ht_ReadError = False\<rparr>) = Some init" for init
    using that
    by (auto simp: refused_def sample_decoding_def sample_document_def credentialsFromHdr_def t Authenticate_def sample_visit_def calm_def
        sample_handler_def sample_service_def GetClientCredential_def row_by_def sample_clients_def sample_db_def sample_client_def
        empty_db_def Let_def HashToken_def byte_string_def ConstantTimeCompare_eq dummyCredentialHash_def
        split: sum.splits if_splits)
qed

definition recognised :: "mlp_handler \<Rightarrow> http_request \<Rightarrow> bool" where
  "recognised h r \<longleftrightarrow> ht_Method r = ''POST'' \<and> \<not> ht_ReadError r \<and> length (ht_Body r) \<le> maxBodyBytes
     \<and> (\<exists>init. mh_unmarshal h (ht_Body r) = Some init \<and> (si_Slir init \<noteq> None \<or> si_EmeLir init \<noteq> None \<or> si_Hlir init \<noteq> None))"

lemma handlers_status:
  "handleSLIR h V c q db = Some (resp, db', hs) \<Longrightarrow> rp_status resp = 200"
  "handleEMELIR h V c q' db = Some (resp, db', hs) \<Longrightarrow> rp_status resp = 200"
  "handleHLIR h V c q'' db = (resp, db') \<Longrightarrow> rp_status resp = 200"
  by (auto simp: handleSLIR_def handleEMELIR_def handleHLIR_def Let_def writeTopLevelResult_def writeTopLevelResultEme_def
      writeTopLevelResultHlia_def writeXML_def split: prod.splits option.splits sum.splits if_splits)

text \<open>
  The general error message with status 404 is the answer exactly to what is not an MLP request for one
  of the three services: another method, an unreadable body or one above the limit, a document the
  decoder rejects or that holds none of them; the store is then untouched.  Everything else has status
  200.
\<close>

theorem ServeHTTP_status:
  assumes "ServeHTTP h V r db = Some (resp, db', hs)"
  shows "if recognised h r then rp_status resp = 200
    else rp_status resp = 404 \<and> (\<exists>d. rp_body resp = Gem \<lparr>ge_Result = result_of_code resultServiceNotSupported, ge_AddInfo = d\<rparr>)
      \<and> db' = db \<and> hs = []"
proof (cases "ht_Method r = ''POST'' \<and> \<not> ht_ReadError r \<and> length (ht_Body r) \<le> maxBodyBytes")
  case False
  with assms show ?thesis
    by (auto simp: ServeHTTP_def recognised_def writeGEM_def writeXML_def Let_def split: if_splits)
next
  case True
  with assms show ?thesis
    by (auto simp: ServeHTTP_def recognised_def writeGEM_def writeXML_def Let_def
        dest: handlers_status split: option.splits prod.splits)
qed

theorem ServeHTTP_status_witness:
  "\<exists>resp. ServeHTTP sample_handler sample_visit \<lparr>ht_Method = ''GET'', ht_Body = [], ht_ReadError = False\<rparr> empty_db = Some (resp, empty_db, [])
     \<and> rp_status resp = 404"
proof -
  obtain resp db' hs where s: "ServeHTTP sample_handler sample_visit \<lparr>ht_Method = ''GET'', ht_Body = [], ht_ReadError = False\<rparr> empty_db
    = Some (resp, db', hs)" by (simp add: ServeHTTP_def)
  from ServeHTTP_status [OF s] s show ?thesis by (simp add: recognised_def)
qed

section \<open>History\<close>

lemma parseHistoryWindow_Inr:
  assumes "parseHistoryWindow req now = Inr (start, stop, mi, n)"
  shows "parseMLPTime (hl_StartTime req) = Some start \<and> start \<le> stop \<and> stop \<le> now \<and> 0 \<le> n
    \<and> (case hl_StopTime req of None \<Rightarrow> stop = now | Some s \<Rightarrow> \<exists>e. parseMLPTime s = Some e \<and> stop = min e now)"
  using assms unfolding parseHistoryWindow_def
  by (auto simp: Let_def split: if_splits option.splits)

lemma QueryHistory_rows:
  assumes "QueryHistory fault kind val start stop mi n db = Inr ps" and "p \<in> set ps"
  shows "\<exists>row \<in> set (location_history db). of_target kind val row \<and> utc start \<le> hr_recorded_at row \<and> hr_recorded_at row \<le> utc stop
    \<and> p = point_of_row row"
proof -
  have thin: "set (thin_after mi t xs) \<subseteq> set xs" for mi t xs
    by (induction mi t xs rule: thin_after.induct) (auto split: if_splits)
  have sub: "set (thin mi xs) \<subseteq> set xs" for xs using thin by (cases xs) (auto simp: thin_def)
  define xs where "xs = map point_of_row (take maxScan (sort_key hr_recorded_at (filter (\<lambda>h. of_target kind val h
      \<and> utc start \<le> hr_recorded_at h \<and> hr_recorded_at h \<le> utc stop) (location_history db))))"
  have "set ps \<subseteq> set xs"
    using assms(1) sub [of xs] unfolding QueryHistory_def Let_def xs_def [symmetric]
    by (auto split: if_splits dest!: in_set_takeD)
  with assms(2) have "p \<in> set xs" by blast
  then show ?thesis by (auto simp: xs_def dest!: in_set_takeD)
qed

lemma Service_QueryHistory_Inr:
  assumes "Service_QueryHistory s E cid token t start stop mi n db = (Inr ps, db')"
  shows "valid_target t \<and> entitled s E cid token t db \<and> QueryHistory False (Kind t) (Value t) start stop mi n db' = Inr ps"
proof -
  from assms obtain c db1 where v: "Validate t = None"
    and a: "Authenticate (sv_sha256 s) E 0 cid token db = (Inr c, db1)" "Authorize c ServiceImmediate t = None"
    and q: "QueryHistory (e_fault E 2) (Kind t) (Value t) start stop mi n db' = Inr ps"
    by (auto simp: Service_QueryHistory_def Let_def split: option.splits prod.splits sum.splits)
  have "db1 = e_gap E 1 (e_gap E 0 db)"
    using a by (auto simp: Authenticate_def Let_def split: sum.splits prod.splits if_splits)
  with Authenticate_Inr [OF a(1)] a(2) have "entitled s E cid token t db"
    by (fastforce simp: entitled_def Authorize_def split: if_splits)
  with v q show ?thesis by (simp add: Validate_None QueryHistory_def split: if_splits)
qed

text \<open>The entry \<open>p\<close> of an answer shows the fix that was recorded in \<open>row\<close>: its time, its coordinates and its uncertainty.\<close>

definition shows_fix :: "msid \<Rightarrow> history_row \<Rightarrow> pos \<Rightarrow> bool" where
  "shows_fix m row p \<longleftrightarrow> po_Msid p = m \<and> (po_Pd p = None \<longleftrightarrow> hr_latitude row = None \<or> hr_longitude row = None)
     \<and> (\<forall>d. po_Pd p = Some d \<longrightarrow> (\<exists>lat lon. hr_latitude row = Some lat \<and> hr_longitude row = Some lon
          \<and> d = fix_pd (parseTime (hr_recorded_at row)) lat lon (hr_uncertainty_meters row)))"

lemma buildHistoryPos_shows: "shows_fix m row (buildHistoryPos m (point_of_row row))"
  by (auto simp: shows_fix_def buildHistoryPos_def point_of_row_def split: option.split)


text \<open>
  A \<open>resp_timer\<close> or \<open>interval\<close> that passes the check for a positive number of seconds can become a negative
  duration: 9223372037 seconds do not fit 64 bits of nanoseconds, and the wait is then the default one.
\<close>

theorem resp_timer_wraps:
  "parse_seconds ''9223372037'' = Some (- 9223372036709551616)
   \<and> waitDeadline h now (- 9223372036709551616) = waitDeadline h now 0"
proof -
  have "TrimSpace ''9223372037'' = ''9223372037''" by (rule TrimSpace_digits) (simp add: is_digit_alt)
  moreover have "Atoi ''9223372037'' = Some 9223372037"
    by (simp add: Atoi_def is_digit_alt digits_val_def digit_val_def)
  ultimately show ?thesis by (simp add: parse_seconds_def swrap64_def waitDeadline_def)
qed

definition sample_hlir :: hlir where
  "sample_hlir = \<lparr>hl_Msid = sample_msid, hl_StartTime = ''19700101000000'', hl_StopTime = None, hl_Interval = None,
     hl_NoOfReports = None, hl_GeoInfo = None\<rparr>"

definition sample_fixes :: db where
  "sample_fixes = sample_clients\<lparr>location_history := [\<lparr>hr_id = ''1'', hr_target_kind = ''msisdn'', hr_target_value = ''155'',
     hr_shape = ''p'', hr_latitude = Some 1, hr_longitude = Some 2, hr_uncertainty_meters = None, hr_recorded_at = utc 0\<rparr>]\<rparr>"

lemma sample_start: "parseMLPTime ''19700101000000'' = Some 0"
proof -
  have "TrimSpace ''19700101000000'' = ''19700101000000''" by (rule TrimSpace_digits) (simp add: is_digit_alt)
  then show ?thesis
    by (simp add: parseMLPTime_def take_field_def is_digit_alt digits_val_def digit_val_def parse_fraction_def month_lengths_def
        leap_def days_before_year_def unix_day_def)
qed

lemma sample_credentials: "credentialsFromHdr (Some \<lparr>mc_ID = ''c'', mc_Pwd = ''t''\<rparr>) = (''c'', ''t'')"
  using TrimSpace_plain [of "''c''"] TrimSpace_plain [of "''t''"] by (simp add: credentialsFromHdr_def white_space_def)


end
