(* ===== verification/GMLC_Lrr.thy ===== *)
theory GMLC_Lrr
  imports GMLC_Mlp GMLC_Slg
begin

text \<open>
  \<open>internal/mlp/push.go\<close> and \<open>internal/lrr/lrr.go\<close>: a Location-Report-Request that arrives over Diameter is
  correlated with a pending deferred subscription, stored, forwarded as an unsolicited MLP report to a
  configured destination, and answered.  The XML codec and the HTTP client are arguments.
\<close>

section \<open>The pusher\<close>

record pusher =
  pu_standardURL :: string
  pu_standardID :: string
  pu_emergencyURL :: string
  pu_emergencyID :: string

text \<open>
  What the pusher calls: the encoder, the HTTP client (a status and a body, or an error), and the decoder
  of an answer, of which only the result of the \<open>slra\<close> is read.
\<close>

record push_net =
  pn_Encode :: "svcResult \<Rightarrow> bytes option"
  pn_Do :: "string \<Rightarrow> bytes \<Rightarrow> (nat \<times> bytes) option"
  pn_Unmarshal :: "bytes \<Rightarrow> mlp_result option option"

text \<open>How a push ends; all but the first and the last two are logged.\<close>

datatype push_outcome =
    PushDisabled | PushUnmappedEvent | PushNoIdentity | PushFailed | PushAckUndecodable | PushAckMissing
  | PushRejected string | PushSent

definition NewPusher :: "string \<Rightarrow> string \<Rightarrow> string \<Rightarrow> string \<Rightarrow> pusher" where
  "NewPusher standardURL standardClientID emergencyURL emergencyClientID =
     \<lparr>pu_standardURL = standardURL, pu_standardID = standardClientID,
      pu_emergencyURL = emergencyURL, pu_emergencyID = emergencyClientID\<rparr>"

definition targetToMsid :: "target \<Rightarrow> msid" where
  "targetToMsid t = (if IMSI t \<noteq> [] then \<lparr>ms_Type = ''IMSI'', ms_Value = IMSI t\<rparr>
     else \<lparr>ms_Type = ''MSISDN'', ms_Value = MSISDN t\<rparr>)"

definition reportPos :: "target \<Rightarrow> geographic_position option \<Rightarrow> time \<Rightarrow> pos" where
  "reportPos target position t =
     \<lparr>po_Msid = targetToMsid target,
      po_Pd = map_option (\<lambda>p. fix_pd t (gp_Latitude p) (gp_Longitude p) (gp_UncertaintyMeters p)) position,
      po_PosErr = None\<rparr>"

definition emeTriggerFor :: "u32 \<Rightarrow> string option" where
  "emeTriggerFor ev =
     (if ev = LocationEventEmergencyCallOrigination then Some ''EME_ORG''
      else if ev = LocationEventEmergencyCallRelease then Some ''EME_REL''
      else if ev = LocationEventEmergencyCallHandover then Some ''EME_HO''
      else None)"

text \<open>\<open>xml.Header\<close>, written before the document.\<close>

definition xml_Header :: string where
  "xml_Header = ''<?xml version='' @ [CHR 0x22] @ ''1.0'' @ [CHR 0x22] @ '' encoding='' @ [CHR 0x22] @ ''UTF-8'' @ [CHR 0x22]
     @ ''?>'' @ [CHR 0x0A]"

text \<open>The result is the body of an answer below 300, and the document handed to the HTTP client, if any.\<close>

definition post :: "push_net \<Rightarrow> string \<Rightarrow> svcResult \<Rightarrow> bytes option \<times> (string \<times> svcResult) list" where
  "post net url v =
     (case pn_Encode net v of
        None \<Rightarrow> (None, [])
      | Some b \<Rightarrow>
          (case pn_Do net url (byte_string xml_Header @ b) of
             None \<Rightarrow> (None, [(url, v)])
           | Some (status, respBody) \<Rightarrow>
               (if status \<ge> 300 then None else Some (take maxBodyBytes respBody), [(url, v)])))"

definition emerep_body :: "pusher \<Rightarrow> string \<Rightarrow> pos \<Rightarrow> svcResult" where
  "emerep_body p trigger ps = no_svc\<lparr>sr_Client := Some \<lparr>mc_ID = pu_emergencyID p, mc_Pwd = []\<rparr>,
     sr_Emerep := Some \<lparr>ee_EmeTrigger = trigger, ee_EmePos = [ps]\<rparr>\<rparr>"

definition slrep_body :: "pusher \<Rightarrow> pos \<Rightarrow> svcResult" where
  "slrep_body p ps = no_svc\<lparr>sr_Client := Some \<lparr>mc_ID = pu_standardID p, mc_Pwd = []\<rparr>, sr_Slrep := Some [ps]\<rparr>"

definition PushEmergencyReport ::
  "push_net \<Rightarrow> pusher option \<Rightarrow> target \<Rightarrow> u32 \<Rightarrow> geographic_position option \<Rightarrow> time
     \<Rightarrow> push_outcome \<times> (string \<times> svcResult) list" where
  "PushEmergencyReport net pu target locationEvent position t =
     (case pu of
        None \<Rightarrow> (PushDisabled, [])
      | Some p \<Rightarrow>
          (if pu_emergencyURL p = [] then (PushDisabled, [])
           else case emeTriggerFor locationEvent of
             None \<Rightarrow> (PushUnmappedEvent, [])
           | Some trigger \<Rightarrow>
               (if IMSI target = [] \<and> MSISDN target = [] then (PushNoIdentity, [])
                else
                  (let (resp, sent) = post net (pu_emergencyURL p) (emerep_body p trigger (reportPos target position t))
                   in (if resp = None then PushFailed else PushSent, sent)))))"

definition PushStandardReport ::
  "push_net \<Rightarrow> pusher option \<Rightarrow> target \<Rightarrow> geographic_position option \<Rightarrow> time \<Rightarrow> push_outcome \<times> (string \<times> svcResult) list" where
  "PushStandardReport net pu target position t =
     (case pu of
        None \<Rightarrow> (PushDisabled, [])
      | Some p \<Rightarrow>
          (if pu_standardURL p = [] then (PushDisabled, [])
           else if IMSI target = [] \<and> MSISDN target = [] then (PushNoIdentity, [])
           else
             (let (resp, sent) = post net (pu_standardURL p) (slrep_body p (reportPos target position t))
              in (case resp of
                    None \<Rightarrow> PushFailed
                  | Some respBody \<Rightarrow>
                      (case pn_Unmarshal net respBody of
                         None \<Rightarrow> PushAckUndecodable
                       | Some None \<Rightarrow> PushAckMissing
                       | Some (Some res) \<Rightarrow> if mr_ResID res \<noteq> ''0'' then PushRejected (mr_ResID res) else PushSent), sent))))"

section \<open>Location reports\<close>

record lrr_handler =
  lh_codec :: slg_config
  lh_lib :: diam_lib
  lh_pusher :: "pusher option"
  lh_net :: push_net

definition SetPusher :: "pusher option \<Rightarrow> lrr_handler \<Rightarrow> lrr_handler" where
  "SetPusher p h = h\<lparr>lh_pusher := p\<rparr>"

definition push :: "lrr_handler \<Rightarrow> location_report \<Rightarrow> time \<Rightarrow> (string \<times> svcResult) list" where
  "push h r now =
     (if rep_LocationEvent r = LocationEventMOLR
      then snd (PushStandardReport (lh_net h) (lh_pusher h) (rep_Target r) (rep_Position r) now)
      else if rep_LocationEvent r = LocationEventEmergencyCallOrigination
        \<or> rep_LocationEvent r = LocationEventEmergencyCallRelease \<or> rep_LocationEvent r = LocationEventEmergencyCallHandover
      then snd (PushEmergencyReport (lh_net h) (lh_pusher h) (rep_Target r) (rep_LocationEvent r) (rep_Position r) now)
      else [])"

text \<open>The lookup and the transition are store operations 0 and 1.\<close>

definition correlate :: "env \<Rightarrow> u8 option \<Rightarrow> db \<Rightarrow> u8 option \<times> db" where
  "correlate E ref db =
     (case ref of
        None \<Rightarrow> (None, db)
      | Some ref \<Rightarrow>
          (let db = e_gap E 0 db in
           case FindPendingDeferredLocationSubscription (e_fault E 0) ref db of
             Inl _ \<Rightarrow> (None, db)
           | Inr _ \<Rightarrow> (Some ref, snd (MarkDeferredLocationSubscriptionReported (e_fault E 1) (e_now E 1) ref (e_gap E 1 db)))))"

definition stored_of :: "location_report \<Rightarrow> u8 option \<Rightarrow> time \<Rightarrow> stored_report" where
  "stored_of r correlated now =
     (let known = IMSI (rep_Target r) \<noteq> [] \<or> MSISDN (rep_Target r) \<noteq> [] in
      \<lparr>sr_ID = [], sr_LCSReferenceNumber = correlated, sr_LocationEvent = rep_LocationEvent r,
       sr_TargetKind = (if known then Kind (rep_Target r) else []), sr_TargetValue = (if known then Value (rep_Target r) else []),
       sr_RawGAD = rep_RawLocationEstimate r, sr_ECGI = rep_ECGI r, sr_AccuracyFulfilment = rep_AccuracyFulfilment r,
       sr_AgeOfLocationEstimate = rep_AgeOfLocationEstimate r, sr_RawVelocityEstimate = rep_RawVelocityEstimate r,
       sr_EUTRANPositioningData = rep_EUTRANPositioningData r, sr_ReceivedAt = Some now\<rparr>)"

definition lrr_process :: "lrr_handler \<Rightarrow> env \<Rightarrow> time \<Rightarrow> location_report \<Rightarrow> db \<Rightarrow> db \<times> (string \<times> svcResult) list" where
  "lrr_process h E now r db =
     (let (correlated, db) = correlate E (rep_LCSReferenceNumber r) db;
          db = snd (CreateLocationReport (e_fault E 2) (e_now E 2) (e_uuid E 2) (stored_of r correlated now) (e_gap E 2 db))
      in (db, push h r now))"

definition ServeDIAM ::
  "lrr_handler \<Rightarrow> env \<Rightarrow> time \<Rightarrow> message option \<Rightarrow> db \<Rightarrow> message option \<times> db \<times> (string \<times> svcResult) list" where
  "ServeDIAM h E now m db =
     (let (resultCode, db, sent) = (case DecodeLRR m of
            Inl _ \<Rightarrow> (UnableToComply, db, [])
          | Inr report \<Rightarrow> (case lrr_process h E now report db of (db, sent) \<Rightarrow> (Success, db, sent)))
      in case BuildLRA (lh_lib h) (lh_codec h) m resultCode of
           Inl _ \<Rightarrow> (None, db, sent)
         | Inr a \<Rightarrow> (Some a, db, sent))"

section \<open>The handler is a store program\<close>

lemma correlate_runs: "env_within C E \<Longrightarrow> (store_step C)\<^sup>*\<^sup>* db (snd (correlate E ref db))"
proof -
  assume e: "env_within C E"
  have g: "(store_step C)\<^sup>*\<^sup>* db (e_gap E 0 db)" by (rule gap_run [OF e rtranclp.rtrancl_refl])
  from op_run [OF e store_step.reported [OF prod.collapse [symmetric]] g] g show ?thesis
    by (auto simp: correlate_def Let_def split: option.split sum.split)
qed

lemma lrr_process_runs: "env_within C E \<Longrightarrow> (store_step C)\<^sup>*\<^sup>* db (fst (lrr_process h E now r db))"
proof -
  assume e: "env_within C E"
  obtain c db1 where c: "correlate E (rep_LCSReferenceNumber r) db = (c, db1)" by force
  with correlate_runs [OF e, of db "rep_LCSReferenceNumber r"] have "(store_step C)\<^sup>*\<^sup>* db db1" by simp
  from op_run [OF e store_step.report [OF prod.collapse [symmetric]] this] c show ?thesis
    by (simp add: lrr_process_def)
qed

lemma ServeDIAM_runs: "env_within C E \<Longrightarrow> (store_step C)\<^sup>*\<^sup>* db (fst (snd (ServeDIAM h E now m db)))"
  using lrr_process_runs [of C E db h now]
  by (auto simp: ServeDIAM_def Let_def split: sum.splits prod.splits)

interpretation lrr: store_program "\<lambda>(h, E, now, m) db. fst (snd (ServeDIAM h E now m db))" "\<lambda>C (h, E, now, m). env_within C E"
  by unfold_locales (auto intro: ServeDIAM_runs)

section \<open>Properties\<close>

text \<open>What becomes of the deferred subscriptions: the pending one of the report is reported, the others stay.\<close>

definition correlated_with :: "u8 option \<Rightarrow> db \<Rightarrow> u8 option" where
  "correlated_with ref db =
     (case ref of None \<Rightarrow> None
      | Some n \<Rightarrow> if \<exists>s \<in> set (deferred_location_subscriptions db). pending_ref n s then Some n else None)"

lemma refs_kept: "dfr_ref ` set (update_where P (set_reported t) xs) = dfr_ref ` set xs"
proof -
  have "map dfr_ref (update_where P (set_reported t) xs) = map dfr_ref xs"
    by (simp add: update_where_def set_reported_def)
  then show ?thesis by (metis list.set_map)
qed

lemma correlate_alone:
  assumes "alone E" and "\<forall>k. \<not> e_fault E k"
  shows "correlate E ref db = (correlated_with ref db,
    db\<lparr>deferred_location_subscriptions := (case correlated_with ref db of None \<Rightarrow> deferred_location_subscriptions db
       | Some n \<Rightarrow> update_where (pending_ref n) (set_reported (utc (e_now E 1))) (deferred_location_subscriptions db))\<rparr>)"
proof (cases ref)
  case (Some n)
  have "find (\<lambda>r. dfr_ref r = n \<and> dfr_state r = DeferredSubscriptionPending) (deferred_location_subscriptions db) = None
      \<longleftrightarrow> \<not> (\<exists>s \<in> set (deferred_location_subscriptions db). pending_ref n s)"
    by (auto simp: find_None_iff pending_ref_def)
  then show ?thesis
    using assms
    by (cases "find (\<lambda>r. dfr_ref r = n \<and> dfr_state r = DeferredSubscriptionPending) (deferred_location_subscriptions db)")
      (auto simp: Some correlate_def correlated_with_def FindPendingDeferredLocationSubscription_def
        MarkDeferredLocationSubscriptionReported_def Let_def)
qed (simp add: correlate_def correlated_with_def)

text \<open>What the stored row \<open>v\<close> says of the report \<open>r\<close>: every field of it, and the identity of the target if it names one.\<close>

definition carries_report :: "stored_report \<Rightarrow> location_report \<Rightarrow> bool" where
  "carries_report v r \<longleftrightarrow> sr_LocationEvent v = rep_LocationEvent r \<and> sr_RawGAD v = rep_RawLocationEstimate r
     \<and> sr_ECGI v = rep_ECGI r \<and> sr_AccuracyFulfilment v = rep_AccuracyFulfilment r
     \<and> sr_AgeOfLocationEstimate v = rep_AgeOfLocationEstimate r \<and> sr_RawVelocityEstimate v = rep_RawVelocityEstimate r
     \<and> sr_EUTRANPositioningData v = rep_EUTRANPositioningData r
     \<and> (sr_TargetKind v, sr_TargetValue v) =
         (if IMSI (rep_Target r) \<noteq> [] then (''imsi'', IMSI (rep_Target r))
          else if MSISDN (rep_Target r) \<noteq> [] then (''msisdn'', MSISDN (rep_Target r))
          else ([], []))"

lemma stored_of_carries: "carries_report ((stored_of r c now)\<lparr>sr_ID := i\<rparr>) r"
  by (simp add: carries_report_def stored_of_def Let_def Kind_def Value_def)

text \<open>
  C19: A location report that decodes is stored once: one new row, received now, with the event, the estimates, the
  cell, the accuracy, the age, the velocity, the positioning data and the identity of the target as the
  report has them.  It is correlated with a deferred subscription exactly when one is pending under its
  reference number; that subscription is then reported, every other one and every request stays as it
  is.  (With no database failure and no other goroutine in between.)
\<close>

theorem lrr_recorded:
  assumes "alone E" and "\<forall>k. \<not> e_fault E k" and "DecodeLRR m = Inr r"
    and "row_by (sr_ID \<circ> rpt_value) (e_uuid E 2) (location_reports db) = None"
    and "ServeDIAM h E now m db = (a, db', sent)"
  shows "let c = correlated_with (rep_LCSReferenceNumber r) db in
    (\<exists>v. location_reports db' = location_reports db @ [\<lparr>rpt_received_at = utc now, rpt_value = v\<rparr>]
       \<and> carries_report v r \<and> sr_ID v = e_uuid E 2 \<and> sr_LCSReferenceNumber v = c \<and> sr_ReceivedAt v = Some now)
    \<and> deferred_location_subscriptions db' = (case c of None \<Rightarrow> deferred_location_subscriptions db
        | Some n \<Rightarrow> update_where (pending_ref n) (set_reported (utc (e_now E 1))) (deferred_location_subscriptions db))
    \<and> requests_same db db'"
proof -
  let ?c = "correlated_with (rep_LCSReferenceNumber r) db"
  define db1 where "db1 = db\<lparr>deferred_location_subscriptions := (case ?c of None \<Rightarrow> deferred_location_subscriptions db
       | Some n \<Rightarrow> update_where (pending_ref n) (set_reported (utc (e_now E 1))) (deferred_location_subscriptions db))\<rparr>"
  have db': "db' = snd (CreateLocationReport False (e_now E 2) (e_uuid E 2) (stored_of r ?c now) db1)"
    using assms(1,2,3,5) correlate_alone [OF assms(1,2), of "rep_LCSReferenceNumber r" db]
    by (auto simp: ServeDIAM_def lrr_process_def db1_def Let_def split: sum.splits)
  have refs: "row_by dfr_ref n (deferred_location_subscriptions db1) \<noteq> None" if "?c = Some n" for n
  proof -
    from that have "\<exists>s \<in> set (deferred_location_subscriptions db). dfr_ref s = n"
      by (auto simp: correlated_with_def pending_ref_def split: option.splits if_splits)
    then show ?thesis
      using that refs_kept [of "pending_ref n" "utc (e_now E 1)" "deferred_location_subscriptions db"]
      by (auto simp: db1_def row_by_None)
  qed
  have s: "sr_LCSReferenceNumber (stored_of r ?c now) = ?c" "sr_ReceivedAt (stored_of r ?c now) = Some now"
    by (simp_all add: stored_of_def Let_def)
  have "db' = db1\<lparr>location_reports := location_reports db1
      @ [\<lparr>rpt_received_at = utc now, rpt_value = (stored_of r ?c now)\<lparr>sr_ID := e_uuid E 2, sr_ReceivedAt := Some now\<rparr>\<rparr>]\<rparr>"
    using refs assms(4) unfolding db'
    by (simp add: CreateLocationReport_def Let_def s db1_def split: option.split)
  moreover have "(stored_of r ?c now)\<lparr>sr_ID := e_uuid E 2, sr_ReceivedAt := Some now\<rparr> = (stored_of r ?c now)\<lparr>sr_ID := e_uuid E 2\<rparr>"
    by (simp add: stored_of_def Let_def)
  ultimately have "location_reports db' = location_reports db
      @ [\<lparr>rpt_received_at = utc now, rpt_value = (stored_of r ?c now)\<lparr>sr_ID := e_uuid E 2\<rparr>\<rparr>]"
    and "deferred_location_subscriptions db' = deferred_location_subscriptions db1" and "requests_same db db'"
    by (simp_all add: db1_def requests_same_def)
  with s stored_of_carries [of "e_uuid E 2" r ?c now] show ?thesis
    by (simp add: db1_def Let_def)
qed

lemma not_request: "diam_lib_ok lib \<Longrightarrow> \<not> is_request (Answer lib q rc)"
proof -
  have "(x AND NOT RequestFlag) AND RequestFlag = 0" for x :: u8
    by (rule bit_word_eqI) (simp add: bit_simps)
  then show "diam_lib_ok lib \<Longrightarrow> ?thesis" by (simp add: diam_lib_ok_def is_request_def)
qed

text \<open>
  A request that is answered at all is answered in the same session with success exactly when it
  decoded; one that does not decode changes nothing and is not forwarded.
\<close>

theorem lrr_answered:
  assumes "diam_lib_ok (lh_lib h)" and "ServeDIAM h E now m db = (a, db', sent)"
  shows "(case DecodeLRR m of Inl _ \<Rightarrow> db' = db \<and> sent = [] | Inr r \<Rightarrow> sent = push h r now)
    \<and> (\<forall>ans. a = Some ans \<longrightarrow> \<not> is_request ans
        \<and> find_avps ans avp_ResultCode 0 = [AVP avp_ResultCode Mbit 0 (Unsigned32 (if isl (DecodeLRR m) then UnableToComply else Success))]
        \<and> (\<exists>q s. m = Some q \<and> find_avps q avp_SessionID 0 = [s] \<and> find_avps ans avp_SessionID 0 = [AVP avp_SessionID Mbit 0 (avp_data s)]))"
proof -
  obtain rc where rc: "rc = (if isl (DecodeLRR m) then UnableToComply else Success)" by blast
  have a: "a = (case BuildLRA (lh_lib h) (lh_codec h) m rc of Inl _ \<Rightarrow> None | Inr x \<Rightarrow> Some x)"
    and first: "case DecodeLRR m of Inl _ \<Rightarrow> db' = db \<and> sent = [] | Inr r \<Rightarrow> sent = push h r now"
    using assms(2) by (auto simp: ServeDIAM_def rc lrr_process_def Let_def split: sum.splits prod.splits)
  have "\<not> is_request ans \<and> find_avps ans avp_ResultCode 0 = [AVP avp_ResultCode Mbit 0 (Unsigned32 rc)]
      \<and> (\<exists>q s. m = Some q \<and> find_avps q avp_SessionID 0 = [s] \<and> find_avps ans avp_SessionID 0 = [AVP avp_SessionID Mbit 0 (avp_data s)])"
    if "a = Some ans" for ans
  proof -
    from that a have b: "BuildLRA (lh_lib h) (lh_codec h) m rc = Inr ans" by (simp split: sum.splits)
    then obtain q where q: "m = Some q" by (auto simp: BuildLRA_def split: option.splits)
    with b obtain s where s: "find_avps q avp_SessionID 0 = [s]"
      by (auto simp: BuildLRA_def Let_def length_Suc_conv split: if_splits)
    have "ans = add_avps (lh_lib h) (Answer (lh_lib h) q rc)
                [AVP avp_SessionID Mbit 0 (avp_data s),
                 AVP avp_AuthSessionState Mbit 0 (Enumerated 1),
                 AVP avp_OriginHost Mbit 0 (DiameterIdentity (gc_OriginHost (lh_codec h))),
                 AVP avp_OriginRealm Mbit 0 (DiameterIdentity (gc_OriginRealm (lh_codec h)))]"
      using b q s by (auto simp: BuildLRA_def Let_def split: if_splits)
    then show ?thesis
      using assms(1) q s not_request [OF assms(1), of q rc]
      by (simp add: add_avps_AVPs find_avps_def diam_consts)
        (simp add: diam_lib_ok_def diam_consts)
  qed
  with first rc show ?thesis by blast
qed

definition sample_LRR :: message where
  "sample_LRR = \<lparr>Header = \<lparr>CommandFlags = RequestFlag, CommandCode = CommandLocationReport, ApplicationID = slg_ApplicationID,
       HopByHopID = 0, EndToEndID = 0\<rparr>,
     AVPs = [AVP avp_SessionID Mbit 0 (UTF8String ''s''), AVP AVPLocationEvent VM Vendor3GPP (Enumerated LocationEventMOLR),
       AVP avp_UserName Mbit 0 (UTF8String ''00101''), AVP AVPLCSReferenceNumber VM Vendor3GPP (OctetString [7])]\<rparr>"

definition sample_lrr :: lrr_handler where
  "sample_lrr = \<lparr>lh_codec = \<lparr>gc_OriginHost = ''h'', gc_OriginRealm = ''r'', gc_RequestTimeout = 1\<rparr>, lh_lib = sample_lib,
     lh_pusher = Some (NewPusher ''u'' ''g'' [] []),
     lh_net = \<lparr>pn_Encode = (\<lambda>_. Some []), pn_Do = (\<lambda>_ _. Some (200, [])), pn_Unmarshal = (\<lambda>_. None)\<rparr>\<rparr>"

lemma sample_LRR_decodes:
  "\<exists>r. DecodeLRR (Some sample_LRR) = Inr r \<and> rep_LCSReferenceNumber r = Some 7 \<and> rep_LocationEvent r = LocationEventMOLR
     \<and> rep_Target r = \<lparr>IMSI = ''00101'', MSISDN = []\<rparr> \<and> rep_Position r = None"
  by (simp add: DecodeLRR_def sample_LRR_def location_report_header_def is_request_def find_avps_def diam_consts slg_consts slh_consts
      domain_consts decodePositioningPayload_def)

definition sample_pending :: db where
  "sample_pending = empty_db\<lparr>deferred_location_subscriptions := [\<lparr>dfr_ref = 7, dfr_client_id = ''c'', dfr_target_kind = ''imsi'',
     dfr_target_value = ''00101'', dfr_state = DeferredSubscriptionPending, dfr_created_at = utc 0, dfr_updated_at = utc 0\<rparr>]\<rparr>"

theorem lrr_recorded_witness:
  "\<exists>a db' sent. ServeDIAM sample_lrr (calm 5) 6 (Some sample_LRR) sample_pending = (a, db', sent)
     \<and> length (location_reports db') = 1 \<and> map dfr_state (deferred_location_subscriptions db') = [DeferredSubscriptionReported]"
proof -
  from sample_LRR_decodes obtain r where r: "DecodeLRR (Some sample_LRR) = Inr r" "rep_LCSReferenceNumber r = Some 7" by blast
  obtain a db' sent where s: "ServeDIAM sample_lrr (calm 5) 6 (Some sample_LRR) sample_pending = (a, db', sent)"
    by (rule prod_cases3)
  have f: "\<forall>k. \<not> e_fault (calm 5) k" by (simp add: calm_def)
  have u: "row_by (sr_ID \<circ> rpt_value) (e_uuid (calm 5) 2) (location_reports sample_pending) = None"
    by (simp add: sample_pending_def empty_db_def row_by_def)
  from lrr_recorded [OF calm_alone f r(1) u s] have "length (location_reports db') = 1
      \<and> map dfr_state (deferred_location_subscriptions db') = [DeferredSubscriptionReported]"
    by (auto simp: r(2) Let_def correlated_with_def sample_pending_def pending_ref_def update_where_def set_reported_def empty_db_def)
  with s show ?thesis by (intro exI [of _ a] exI [of _ db'] exI [of _ sent]) simp
qed

theorem lrr_answered_witness:
  "\<exists>ans db' sent. ServeDIAM sample_lrr (calm 5) 6 (Some sample_LRR) sample_pending = (Some ans, db', sent)
     \<and> find_avps ans avp_ResultCode 0 = [AVP avp_ResultCode Mbit 0 (Unsigned32 Success)]"
proof -
  obtain a db' sent where s: "ServeDIAM sample_lrr (calm 5) 6 (Some sample_LRR) sample_pending = (a, db', sent)"
    by (rule prod_cases3)
  have lib: "diam_lib_ok (lh_lib sample_lrr)" by (simp add: sample_lrr_def sample_lib_ok)
  have "BuildLRA l c (Some sample_LRR) rc \<noteq> Inl e" for l c rc e
    by (simp add: BuildLRA_def sample_LRR_def location_report_header_def is_request_def find_avps_def diam_consts slg_consts)
  with s have "a \<noteq> None" by (auto simp: ServeDIAM_def Let_def split: sum.splits prod.splits)
  then obtain ans where "a = Some ans" by blast
  moreover have "\<not> isl (DecodeLRR (Some sample_LRR))" using sample_LRR_decodes by auto
  ultimately show ?thesis using lrr_answered [OF lib s] s by auto
qed

text \<open>
  A location report is forwarded at most once, and only as what it is: a mobile-originated report as a
  standard report to the standard destination, an emergency event as an emergency report with its own
  trigger to the emergency destination; never without an identity, never to an unset destination, and
  with the target and position of that very report.  Every other event is not forwarded.
\<close>

theorem lrr_pushes:
  assumes "(url, v) \<in> set (push h r now)"
  shows "push h r now = [(url, v)] \<and> url \<noteq> [] \<and> (IMSI (rep_Target r) \<noteq> [] \<or> MSISDN (rep_Target r) \<noteq> [])
    \<and> (\<exists>p. lh_pusher h = Some p
      \<and> (rep_LocationEvent r = LocationEventMOLR \<and> url = pu_standardURL p
           \<and> v = slrep_body p (reportPos (rep_Target r) (rep_Position r) now)
         \<or> (\<exists>trigger. emeTriggerFor (rep_LocationEvent r) = Some trigger \<and> url = pu_emergencyURL p
           \<and> v = emerep_body p trigger (reportPos (rep_Target r) (rep_Position r) now))))"
proof -
  have post: "x = (u, b) \<and> snd (post net u b) = [x]" if "x \<in> set (snd (post net u b))" for x net u b
    using that by (auto simp: post_def split: option.splits prod.splits)
  show ?thesis
  proof (cases "rep_LocationEvent r = LocationEventMOLR")
    case True
    with assms have p: "(url, v) \<in> set (snd (PushStandardReport (lh_net h) (lh_pusher h) (rep_Target r) (rep_Position r) now))"
      "push h r now = snd (PushStandardReport (lh_net h) (lh_pusher h) (rep_Target r) (rep_Position r) now)"
      by (simp_all add: push_def)
    then obtain p where "lh_pusher h = Some p" "pu_standardURL p \<noteq> []" "IMSI (rep_Target r) \<noteq> [] \<or> MSISDN (rep_Target r) \<noteq> []"
      "push h r now = snd (post (lh_net h) (pu_standardURL p) (slrep_body p (reportPos (rep_Target r) (rep_Position r) now)))"
      by (auto simp: PushStandardReport_def Let_def case_prod_beta split: option.splits if_splits)
    note c = this
    from assms have "(url, v) = (pu_standardURL p, slrep_body p (reportPos (rep_Target r) (rep_Position r) now))
        \<and> push h r now = [(url, v)]" unfolding c(4) by (rule post)
    with True c show ?thesis by simp
  next
    case False
    with assms have p: "(url, v) \<in> set (snd (PushEmergencyReport (lh_net h) (lh_pusher h) (rep_Target r) (rep_LocationEvent r) (rep_Position r) now))"
      "push h r now = snd (PushEmergencyReport (lh_net h) (lh_pusher h) (rep_Target r) (rep_LocationEvent r) (rep_Position r) now)"
      by (auto simp: push_def split: if_splits)
    then obtain p trigger where "lh_pusher h = Some p" "pu_emergencyURL p \<noteq> []" "IMSI (rep_Target r) \<noteq> [] \<or> MSISDN (rep_Target r) \<noteq> []"
      "emeTriggerFor (rep_LocationEvent r) = Some trigger"
      "push h r now = snd (post (lh_net h) (pu_emergencyURL p) (emerep_body p trigger (reportPos (rep_Target r) (rep_Position r) now)))"
      by (auto simp: PushEmergencyReport_def Let_def case_prod_beta split: option.splits if_splits)
    note c = this
    from assms have "(url, v) = (pu_emergencyURL p, emerep_body p trigger (reportPos (rep_Target r) (rep_Position r) now))
        \<and> push h r now = [(url, v)]" unfolding c(5) by (rule post)
    with c show ?thesis by simp
  qed
qed

theorem lrr_pushes_witness:
  "\<exists>r v. DecodeLRR (Some sample_LRR) = Inr r \<and> push sample_lrr r 6 = [(''u'', v)]"
proof -
  from sample_LRR_decodes obtain r where r: "DecodeLRR (Some sample_LRR) = Inr r" "rep_LocationEvent r = LocationEventMOLR"
    "rep_Target r = \<lparr>IMSI = ''00101'', MSISDN = []\<rparr>" by blast
  obtain v where "(''u'', v) \<in> set (push sample_lrr r 6)"
    using r by (simp add: push_def PushStandardReport_def sample_lrr_def NewPusher_def post_def)
  from lrr_pushes [OF this] r(1) show ?thesis by blast
qed

text \<open>
  The \<open>msid\<close> a report carries reads back as the target it was made of: its IMSI when it has one, else its
  MSISDN.
\<close>

theorem targetToMsid_roundtrip:
  assumes "list_all is_digit (IMSI t)" and "list_all is_digit (MSISDN t)"
  shows "\<exists>t'. msidToTarget (targetToMsid t) = Inr t' \<and> Kind t' = Kind t \<and> Value t' = Value t
    \<and> (IMSI t = [] \<or> MSISDN t = [] \<longrightarrow> t' = t)"
proof -
  have "TrimSpace (IMSI t) = IMSI t" "TrimSpace (MSISDN t) = MSISDN t" using assms by (simp_all add: TrimSpace_digits)
  then show ?thesis by (cases t) (auto simp: msidToTarget_def targetToMsid_def Kind_def Value_def Let_def)
qed

theorem targetToMsid_roundtrip_witness:
  "msidToTarget (targetToMsid \<lparr>IMSI = [], MSISDN = ''155''\<rparr>) = Inr \<lparr>IMSI = [], MSISDN = ''155''\<rparr>"
proof -
  have "list_all is_digit (IMSI \<lparr>IMSI = [], MSISDN = ''155''\<rparr>)" "list_all is_digit (MSISDN \<lparr>IMSI = [], MSISDN = ''155''\<rparr>)"
    by (simp_all add: is_digit_alt)
  from targetToMsid_roundtrip [OF this] show ?thesis by simp
qed

end
