(* ===== verification/GMLC_Transport.thy ===== *)
theory GMLC_Transport
  imports GMLC_Diam
begin

text \<open>
  \<open>internal/diameter/tcp.go\<close>: the configuration of a transport, what dialling it yields, and the
  correlation of requests and answers over one connection.  The connection is a state machine whose
  steps are the critical sections of the goroutines that use it, so that every interleaving of calls,
  answers, cancellations and the loss of the connection is a run.  Dialling, the capabilities exchange
  and the dispatch of messages belong to go-diameter: what they yield is an argument.
\<close>

section \<open>Configuration\<close>

definition ProductName :: string where "ProductName = ''VectorCore-GMLC''"
definition VendorID :: u32 where "VendorID = 10415"
definition SupportedVendorID :: u32 where "SupportedVendorID = 10415"
definition RelayApplicationID :: u32 where "RelayApplicationID = 0xffffffff"
definition SLhApplicationID :: u32 where "SLhApplicationID = 16777291"
definition SLgApplicationID :: u32 where "SLgApplicationID = 16777255"

definition norm_id :: "string \<Rightarrow> string" where
  "norm_id v = ToLower (TrimSuffix (TrimSpace v) ''.'')"

record application =
  ap_ID :: u32
  ap_Commands :: "u32 list"

text \<open>A request handler is named by its application and command; \<open>nil\<close> is an absent address.\<close>

record transport_config =
  tc_Name :: string
  tc_Address :: string
  tc_Transport :: string
  tc_OriginHost :: string
  tc_OriginRealm :: string
  tc_HostIP :: "bytes option"
  tc_ConnectTimeout :: duration
  tc_WatchdogInterval :: duration
  tc_WatchdogTimeout :: duration
  tc_Applications :: "application list"
  tc_RequestHandlers :: "(u32 \<times> u32) list"
  tc_ExpectedOriginHost :: string
  tc_ExpectedOriginRealm :: string

datatype transport_config_error = IncompleteConfiguration | InvalidTimeout

definition transport_Validate :: "transport_config \<Rightarrow> transport_config_error option" where
  "transport_Validate c =
     (if tc_Address c = [] \<or> (tc_Transport c \<noteq> ''tcp'' \<and> tc_Transport c \<noteq> ''sctp'') \<or> tc_OriginHost c = []
         \<or> tc_OriginRealm c = [] \<or> tc_HostIP c = None
      then Some IncompleteConfiguration
      else if tc_ConnectTimeout c \<le> 0 \<or> tc_WatchdogInterval c \<le> 0 \<or> tc_WatchdogTimeout c \<le> 0
      then Some InvalidTimeout
      else None)"

section \<open>Dialling\<close>

text \<open>The AVP codes of the capabilities exchange.\<close>

definition avp_AuthApplicationID :: u32 where "avp_AuthApplicationID = 258"
definition avp_VendorSpecificApplicationID :: u32 where "avp_VendorSpecificApplicationID = 260"
definition avp_VendorID :: u32 where "avp_VendorID = 266"

definition vendorApp :: "u32 \<Rightarrow> u32 \<Rightarrow> avp" where
  "vendorApp v i = AVP avp_VendorSpecificApplicationID Mbit 0
     (GroupedAVP [AVP avp_VendorID Mbit 0 (Unsigned32 v), AVP avp_AuthApplicationID Mbit 0 (Unsigned32 i)])"

text \<open>
  What is registered with the dispatcher: the catch-all and the answers of the configured applications go
  to \<open>deliver\<close>, the requests to their handlers.
\<close>

datatype command_index = AllCommands | Command u32 u32 bool

datatype message_handler = Deliver | Handle "u32 \<times> u32"

definition registrations :: "transport_config \<Rightarrow> (command_index \<times> message_handler) list" where
  "registrations c = (AllCommands, Deliver)
     # concat (map (\<lambda>app. map (\<lambda>code. (Command (ap_ID app) code False, Deliver)) (ap_Commands app)) (tc_Applications c))
     @ map (\<lambda>(app, code). (Command app code True, Handle (app, code))) (tc_RequestHandlers c)"

definition announced :: "transport_config \<Rightarrow> avp list" where
  "announced c = map (\<lambda>app. vendorApp VendorID (ap_ID app)) (tc_Applications c)"

text \<open>
  The dial of an SCTP peer.  The resolver of addresses, the route of the kernel, the socket and the start of the
  connection are arguments; \<open>udp\<close> is the dial of a UDP socket, which yields its local address, if that has an IP.
\<close>

datatype sctp_error = ResolvePeer string | ResolveLocal string | DialPeer string | ConnFailed

definition routeLocalAddress :: "(string \<Rightarrow> bytes option option) \<Rightarrow> string \<Rightarrow> bytes option" where
  "routeLocalAddress udp remote = (case udp remote of None \<Rightarrow> None | Some None \<Rightarrow> None | Some (Some ip) \<Rightarrow> Some ip)"

definition dialSCTP ::
  "(string \<Rightarrow> 'a option) \<Rightarrow> (string \<Rightarrow> bytes option option) \<Rightarrow> (bytes list \<Rightarrow> 'a \<Rightarrow> 's option) \<Rightarrow> ('s \<Rightarrow> string \<Rightarrow> 'c option)
     \<Rightarrow> transport_config \<Rightarrow> sctp_error + 'c" where
  "dialSCTP resolve udp sctp newConn c =
     (case resolve (tc_Address c) of
        None \<Rightarrow> Inl (ResolvePeer (tc_Address c))
      | Some raddr \<Rightarrow>
     (case routeLocalAddress udp (tc_Address c) of
        None \<Rightarrow> Inl (ResolveLocal (tc_Address c))
      | Some local \<Rightarrow>
     (case sctp [local] raddr of
        None \<Rightarrow> Inl (DialPeer (tc_Address c))
      | Some raw \<Rightarrow> (case newConn raw (tc_Address c) of None \<Rightarrow> Inl ConnFailed | Some conn \<Rightarrow> Inr conn))))"

text \<open>
  An SCTP connection is made from a socket bound to the one address that routing to the peer selects, whatever
  the configured host address is.
\<close>

lemma dialSCTP_bound:
  assumes "dialSCTP resolve udp sctp newConn c = Inr conn"
  shows "\<exists>raddr local raw. resolve (tc_Address c) = Some raddr \<and> udp (tc_Address c) = Some (Some local)
    \<and> sctp [local] raddr = Some raw \<and> newConn raw (tc_Address c) = Some conn
    \<and> dialSCTP resolve udp sctp newConn (c\<lparr>tc_HostIP := ip\<rparr>) = Inr conn"
  using assms by (auto simp: dialSCTP_def routeLocalAddress_def split: option.splits)

text \<open>\<open>Applications\<close> is the set of the keys of the Go map, all of whose values are true.\<close>

record capability =
  cp_Address :: string
  cp_Transport :: string
  cp_OriginHost :: string
  cp_OriginRealm :: string
  cp_Generation :: "64 word"
  cp_Ready :: bool
  cp_Relay :: bool
  cp_Applications :: "u32 set"

record peer_meta =
  pm_OriginHost :: string
  pm_OriginRealm :: string
  pm_Applications :: "u32 list"

text \<open>
  What the dialling goroutine delivers first: an error, or a connection with the metadata of the
  capabilities exchange if there are any; or the context ends before it does.
\<close>

datatype dialled = DialError | Connection "peer_meta option" | ContextDone

datatype dial_error =
  DialConfig transport_config_error | DialFailed | MissingCEA | IdentityMismatch | DialContext

text \<open>The second component says that a connection that was made is closed again.\<close>

definition dialTransport :: "transport_config \<Rightarrow> dialled \<Rightarrow> (dial_error + capability) \<times> bool" where
  "dialTransport c d =
     (case transport_Validate c of
        Some e \<Rightarrow> (Inl (DialConfig e), False)
      | None \<Rightarrow>
     (case d of
        DialError \<Rightarrow> (Inl DialFailed, False)
      | ContextDone \<Rightarrow> (Inl DialContext, True)
      | Connection None \<Rightarrow> (Inl MissingCEA, True)
      | Connection (Some meta) \<Rightarrow>
          (if (tc_ExpectedOriginHost c \<noteq> [] \<and> norm_id (pm_OriginHost meta) \<noteq> norm_id (tc_ExpectedOriginHost c))
              \<or> (tc_ExpectedOriginRealm c \<noteq> [] \<and> norm_id (pm_OriginRealm meta) \<noteq> norm_id (tc_ExpectedOriginRealm c))
           then (Inl IdentityMismatch, True)
           else
             (Inr \<lparr>cp_Address = [], cp_Transport = [], cp_OriginHost = pm_OriginHost meta, cp_OriginRealm = pm_OriginRealm meta,
                cp_Generation = 0, cp_Ready = False, cp_Relay = RelayApplicationID \<in> set (pm_Applications meta),
                cp_Applications = set (pm_Applications meta)\<rparr>, False))))"

definition TCPDialer :: "transport_config \<Rightarrow> dialled \<Rightarrow> (dial_error + capability) \<times> bool" where
  "TCPDialer c = dialTransport (c\<lparr>tc_Transport := ''tcp''\<rparr>)"

section \<open>One connection\<close>

type_synonym rt_result = "transport_error + message"

text \<open>
  A call of \<open>RoundTrip\<close>: it has its hop-by-hop id; it is in \<open>pending\<close> or was; its message is written; it has
  returned.  The option is its channel, which holds at most one result.
\<close>

datatype call =
    Numbered u32
  | Registered u32 "rt_result option"
  | Sent u32 "rt_result option"
  | Returned u32 rt_result

record tcpRT =
  rt_pending :: "u32 \<rightharpoonup> nat"
  rt_closed :: bool
  rt_drained :: bool
  rt_lossErr :: "transport_error option"
  rt_seq :: u32
  rt_calls :: "call list"

definition newRT :: tcpRT where
  "newRT = \<lparr>rt_pending = Map.empty, rt_closed = False, rt_drained = False, rt_lossErr = None, rt_seq = 0, rt_calls = []\<rparr>"

definition rt_number :: "tcpRT \<Rightarrow> tcpRT" where
  "rt_number s = s\<lparr>rt_seq := rt_seq s + 1, rt_calls := rt_calls s @ [Numbered (rt_seq s + 1)]\<rparr>"

definition rt_remove :: "u32 \<Rightarrow> tcpRT \<Rightarrow> tcpRT" where
  "rt_remove i s = s\<lparr>rt_pending := (rt_pending s)(i := None)\<rparr>"

definition set_call :: "nat \<Rightarrow> call \<Rightarrow> tcpRT \<Rightarrow> tcpRT" where
  "set_call k c s = s\<lparr>rt_calls := (rt_calls s)[k := c]\<rparr>"

definition rt_register :: "nat \<Rightarrow> u32 \<Rightarrow> tcpRT \<Rightarrow> tcpRT" where
  "rt_register k i s =
     (if rt_closed s then set_call k (Returned i (Inl ErrUnavailable)) s
      else set_call k (Registered i None) (s\<lparr>rt_pending := (rt_pending s)(i \<mapsto> k)\<rparr>))"

definition rt_written :: "nat \<Rightarrow> u32 \<Rightarrow> rt_result option \<Rightarrow> transport_error option \<Rightarrow> tcpRT \<Rightarrow> tcpRT" where
  "rt_written k i ch err s =
     (case err of
        Some e \<Rightarrow> set_call k (Returned i (Inl e)) (rt_remove i s)
      | None \<Rightarrow> set_call k (Sent i ch) s)"

definition closedError :: "tcpRT \<Rightarrow> transport_error" where
  "closedError s = (case rt_lossErr s of Some e \<Rightarrow> e | None \<Rightarrow> ErrUnavailable)"

text \<open>A result reaches the channel of call \<open>k\<close>.\<close>

definition put_result :: "rt_result \<Rightarrow> call \<Rightarrow> call" where
  "put_result x c = (case c of Registered i None \<Rightarrow> Registered i (Some x) | Sent i None \<Rightarrow> Sent i (Some x) | c \<Rightarrow> c)"

definition deliver :: "message \<Rightarrow> tcpRT \<Rightarrow> tcpRT" where
  "deliver m s =
     (if is_request m then s
      else
        (let i = HopByHopID (Header m) in
         case rt_pending s i of
           None \<Rightarrow> rt_remove i s
         | Some k \<Rightarrow> set_call k (put_result (Inr m) (rt_calls s ! k)) (rt_remove i s)))"

text \<open>\<open>failAll\<close>: the mark, and the sweep over what is pending, which takes the lock again.\<close>

definition rt_mark :: "transport_error \<Rightarrow> tcpRT \<Rightarrow> tcpRT" where
  "rt_mark e s = s\<lparr>rt_lossErr := Some e, rt_closed := True\<rparr>"

definition rt_sweep :: "transport_error \<Rightarrow> tcpRT \<Rightarrow> tcpRT" where
  "rt_sweep e s = s\<lparr>rt_pending := Map.empty, rt_drained := True,
     rt_calls := map (\<lambda>k. if k \<in> ran (rt_pending s) then put_result (Inl e) (rt_calls s ! k) else rt_calls s ! k)
       [0..<length (rt_calls s)]\<rparr>"

text \<open>The error a context ends with, and the two causes for which the connection is failed.\<close>

definition ctx_error :: "transport_error \<Rightarrow> bool" where
  "ctx_error e \<longleftrightarrow> e = DeadlineExceeded \<or> e = Canceled"

definition loss_error :: "transport_error \<Rightarrow> bool" where
  "loss_error e \<longleftrightarrow> e = ErrConnectionLost \<or> e = ErrShutdown"

inductive rt_step :: "tcpRT \<Rightarrow> tcpRT \<Rightarrow> bool" where
  number: "rt_step s (rt_number s)"
| enter: "k < length (rt_calls s) \<Longrightarrow> rt_calls s ! k = Numbered i \<Longrightarrow> rt_step s (rt_register k i s)"
| written: "k < length (rt_calls s) \<Longrightarrow> rt_calls s ! k = Registered i ch \<Longrightarrow> err = None \<or> err = Some OtherTransportError \<Longrightarrow>
    rt_step s (rt_written k i ch err s)"
| receive: "k < length (rt_calls s) \<Longrightarrow> rt_calls s ! k = Sent i (Some x) \<Longrightarrow> rt_step s (set_call k (Returned i x) s)"
| cancel: "k < length (rt_calls s) \<Longrightarrow> rt_calls s ! k = Sent i ch \<Longrightarrow> ctx_error e \<Longrightarrow>
    rt_step s (set_call k (Returned i (Inl e)) (rt_remove i s))"
| lost: "k < length (rt_calls s) \<Longrightarrow> rt_calls s ! k = Sent i ch \<Longrightarrow> rt_closed s \<Longrightarrow>
    rt_step s (set_call k (Returned i (Inl (closedError s))) (rt_remove i s))"
| answer: "rt_step s (deliver m s)"
| mark: "\<not> rt_closed s \<Longrightarrow> loss_error e \<Longrightarrow> rt_step s (rt_mark e s)"
| sweep: "rt_closed s \<Longrightarrow> \<not> rt_drained s \<Longrightarrow> rt_lossErr s = Some e \<Longrightarrow> rt_step s (rt_sweep e s)"

section \<open>The invariant of a connection\<close>

fun call_id :: "call \<Rightarrow> u32" where
  "call_id (Numbered i) = i"
| "call_id (Registered i _) = i"
| "call_id (Sent i _) = i"
| "call_id (Returned i _) = i"

text \<open>A call with an empty channel, and the result a call has.\<close>

fun waiting :: "call \<Rightarrow> bool" where
  "waiting (Registered i None) = True"
| "waiting (Sent i None) = True"
| "waiting _ = False"

fun result_of :: "call \<Rightarrow> rt_result option" where
  "result_of (Registered i x) = x"
| "result_of (Sent i x) = x"
| "result_of (Returned i x) = Some x"
| "result_of (Numbered i) = None"

definition good_result :: "call \<Rightarrow> bool" where
  "good_result c \<longleftrightarrow> (\<forall>m. result_of c = Some (Inr m) \<longrightarrow> HopByHopID (Header m) = call_id c \<and> \<not> is_request m)
     \<and> (\<forall>i e. c = Registered i (Some (Inl e)) \<or> c = Sent i (Some (Inl e)) \<longrightarrow> loss_error e)"

definition rt_inv :: "tcpRT \<Rightarrow> bool" where
  "rt_inv s \<longleftrightarrow>
     rt_seq s = of_nat (length (rt_calls s))
     \<and> (\<forall>k < length (rt_calls s). call_id (rt_calls s ! k) = of_nat (k + 1) \<and> good_result (rt_calls s ! k))
     \<and> (\<forall>i k. rt_pending s i = Some k \<longleftrightarrow> k < length (rt_calls s) \<and> i = of_nat (k + 1) \<and> waiting (rt_calls s ! k))
     \<and> (rt_closed s \<longleftrightarrow> rt_lossErr s \<noteq> None) \<and> (\<forall>e. rt_lossErr s = Some e \<longrightarrow> loss_error e)
     \<and> (rt_drained s \<longrightarrow> rt_closed s \<and> rt_pending s = Map.empty)"

lemma ids_distinct:
  "length xs \<le> 2 ^ 32 \<Longrightarrow> j < length xs \<Longrightarrow> k < length xs \<Longrightarrow> (of_nat (j + 1) :: u32) = of_nat (k + 1) \<Longrightarrow> j = k"
proof -
  assume "length xs \<le> 2 ^ 32" "j < length xs" "k < length xs" and e: "(of_nat (j + 1) :: u32) = of_nat (k + 1)"
  then have b: "j < 2 ^ 32" "k < 2 ^ 32" by simp_all
  from e have "(of_nat j :: u32) = of_nat k" by simp
  then have "unat (of_nat j :: u32) = unat (of_nat k :: u32)" by simp
  with b show "j = k" by (simp add: unat_of_nat)
qed

lemma pending_of:
  assumes "rt_inv s" and "length (rt_calls s) \<le> 2 ^ 32" and "k < length (rt_calls s)"
  shows "rt_pending s (call_id (rt_calls s ! k)) = (if waiting (rt_calls s ! k) then Some k else None)"
proof -
  have i: "call_id (rt_calls s ! k) = of_nat (k + 1)" using assms(1,3) by (simp add: rt_inv_def)
  have p: "rt_pending s j = Some l \<longleftrightarrow> l < length (rt_calls s) \<and> j = of_nat (l + 1) \<and> waiting (rt_calls s ! l)" for j l
    using assms(1) by (simp add: rt_inv_def)
  show ?thesis
  proof (cases "rt_pending s (of_nat (k + 1))")
    case None
    with p [of "of_nat (k + 1)" k] assms(3) i show ?thesis by simp
  next
    case (Some l)
    with p have l: "l < length (rt_calls s)" "(of_nat (k + 1) :: u32) = of_nat (l + 1)" "waiting (rt_calls s ! l)" by blast+
    from ids_distinct [OF assms(2,3) l(1,2)] l Some i show ?thesis by simp
  qed
qed

text \<open>An answer reaches the one call that waits under its id.\<close>

lemma deliver_reaches:
  assumes "rt_inv s" and "length (rt_calls s) \<le> 2 ^ 32" and "\<not> is_request m"
  shows "rt_pending (deliver m s) (HopByHopID (Header m)) = None \<and> length (rt_calls (deliver m s)) = length (rt_calls s)
    \<and> (\<forall>k < length (rt_calls s). if waiting (rt_calls s ! k) \<and> call_id (rt_calls s ! k) = HopByHopID (Header m)
         then result_of (rt_calls (deliver m s) ! k) = Some (Inr m) else rt_calls (deliver m s) ! k = rt_calls s ! k)"
proof -
  let ?i = "HopByHopID (Header m)"
  have p: "rt_pending s (call_id (rt_calls s ! k)) = (if waiting (rt_calls s ! k) then Some k else None)"
    if "k < length (rt_calls s)" for k by (rule pending_of [OF assms(1,2) that])
  have w: "k < length (rt_calls s) \<and> ?i = call_id (rt_calls s ! k) \<and> waiting (rt_calls s ! k)" if "rt_pending s ?i = Some k" for k
    using that assms(1) by (simp add: rt_inv_def)
  have put: "result_of (put_result (Inr m) c) = Some (Inr m)" if "waiting c" for c
    using that by (cases c rule: waiting.cases) (simp_all add: put_result_def)
  show ?thesis
  proof (cases "rt_pending s ?i")
    case None
    with p assms(3) show ?thesis by (force simp: deliver_def rt_remove_def)
  next
    case (Some k)
    have "\<not> (waiting (rt_calls s ! l) \<and> call_id (rt_calls s ! l) = ?i)" if "l < length (rt_calls s)" "l \<noteq> k" for l
      using p [OF that(1)] Some that(2) by auto
    with Some w [OF Some] put assms(3) show ?thesis
      by (auto simp: deliver_def rt_remove_def set_call_def nth_list_update)
  qed
qed

text \<open>
  Replacing call \<open>k\<close> by one with the same id keeps the invariant if the pending entry of that id says
  whether the call waits.
\<close>

lemma set_call_inv:
  assumes "rt_inv s" and "length (rt_calls s) \<le> 2 ^ 32" and "k < length (rt_calls s)"
    and "call_id c = call_id (rt_calls s ! k)" and "good_result c" and "rt_drained s \<Longrightarrow> \<not> waiting c"
    and p: "p = (rt_pending s)(call_id c := (if waiting c then Some k else None))"
  shows "rt_inv (s\<lparr>rt_pending := p, rt_calls := (rt_calls s)[k := c]\<rparr>)"
proof -
  have i: "call_id c = of_nat (k + 1)" using assms(1,3,4) by (simp add: rt_inv_def)
  have old: "rt_pending s j = Some l \<longleftrightarrow> l < length (rt_calls s) \<and> j = of_nat (l + 1) \<and> waiting (rt_calls s ! l)" for j l
    using assms(1) by (simp add: rt_inv_def)
  have "p j = Some l \<longleftrightarrow> l < length (rt_calls s) \<and> j = of_nat (l + 1) \<and> waiting ((rt_calls s)[k := c] ! l)" for j l
  proof (cases "l = k")
    case True
    then show ?thesis using assms(3) i p old [of j k] by (cases "j = call_id c") auto
  next
    case False
    have "l < length (rt_calls s) \<Longrightarrow> (of_nat (l + 1) :: u32) \<noteq> call_id c"
      using ids_distinct [OF assms(2)] assms(3) False i by metis
    then show ?thesis using False p old [of j l] by (cases "j = call_id c") auto
  qed
  moreover have "rt_drained s \<Longrightarrow> p = Map.empty" using assms(1,6) p by (auto simp: rt_inv_def)
  moreover have "call_id ((rt_calls s)[k := c] ! l) = of_nat (l + 1) \<and> good_result ((rt_calls s)[k := c] ! l)"
    if "l < length (rt_calls s)" for l
    using assms(1,5) i that by (cases "l = k") (simp_all add: rt_inv_def)
  ultimately show ?thesis
    using assms(1) unfolding rt_inv_def by (elim conjE) (intro conjI; simp)
qed

lemma put_result_facts [simp]:
  "call_id (put_result x c) = call_id c" "\<not> waiting (put_result x c)"
  "waiting c \<Longrightarrow> result_of (put_result x c) = Some x" "\<not> waiting c \<Longrightarrow> put_result x c = c"
  by (cases c rule: waiting.cases; simp add: put_result_def)+

lemma waiting_good: "waiting c \<Longrightarrow> good_result c" "good_result (Numbered i)" "good_result (Returned i (Inl e))"
  by (cases c rule: waiting.cases; simp add: good_result_def)+

lemma rt_step_length: "rt_step s s' \<Longrightarrow> length (rt_calls s) \<le> length (rt_calls s')"
  by (induction rule: rt_step.induct)
    (auto simp: rt_number_def rt_register_def rt_written_def set_call_def rt_remove_def deliver_def rt_mark_def rt_sweep_def Let_def
      split: option.split)

lemma number_inv:
  assumes "rt_inv s" and "length (rt_calls s) < 2 ^ 32"
  shows "rt_inv (rt_number s)"
proof -
  let ?cs = "rt_calls s @ [Numbered (rt_seq s + 1)]"
  have "rt_pending s i = Some k \<longleftrightarrow> k < length ?cs \<and> i = of_nat (k + 1) \<and> waiting (?cs ! k)" for i k
    using assms(1) by (cases "k < length (rt_calls s)") (auto simp: rt_inv_def nth_append)
  moreover have "call_id (?cs ! k) = of_nat (k + 1) \<and> good_result (?cs ! k)" if "k < length ?cs" for k
    using assms(1) that by (cases "k < length (rt_calls s)")
      (auto simp: rt_inv_def nth_append waiting_good not_less less_Suc_eq)
  ultimately show ?thesis
    using assms(1) unfolding rt_inv_def rt_number_def by (elim conjE) (intro conjI; simp)
qed

lemma sweep_inv:
  assumes "rt_inv s" and "rt_closed s" and "rt_lossErr s = Some e"
  shows "rt_inv (rt_sweep e s)"
proof -
  have "k \<in> ran (rt_pending s) \<longleftrightarrow> waiting (rt_calls s ! k)" if "k < length (rt_calls s)" for k
    using assms(1) that unfolding rt_inv_def ran_def by blast
  then have calls: "rt_calls (rt_sweep e s) = map (\<lambda>k. if waiting (rt_calls s ! k) then put_result (Inl e) (rt_calls s ! k) else rt_calls s ! k)
      [0..<length (rt_calls s)]" by (simp add: rt_sweep_def)
  have "loss_error e" using assms(1,3) by (simp add: rt_inv_def)
  then have "good_result (put_result (Inl e) c)" if "waiting c" for c
    using that by (cases c rule: waiting.cases) (simp_all add: good_result_def put_result_def)
  with calls have nth: "call_id (rt_calls (rt_sweep e s) ! k) = of_nat (k + 1) \<and> good_result (rt_calls (rt_sweep e s) ! k)
      \<and> \<not> waiting (rt_calls (rt_sweep e s) ! k)" if "k < length (rt_calls s)" for k
    using assms(1) that by (simp add: rt_inv_def)
  have "rt_pending (rt_sweep e s) = Map.empty" "length (rt_calls (rt_sweep e s)) = length (rt_calls s)"
    "rt_seq (rt_sweep e s) = rt_seq s" "rt_closed (rt_sweep e s) = rt_closed s" "rt_lossErr (rt_sweep e s) = rt_lossErr s"
    by (simp_all add: rt_sweep_def)
  with nth assms show ?thesis
    unfolding rt_inv_def by (elim conjE) (intro conjI; simp)
qed

lemma rt_step_inv:
  assumes "rt_step s s'" and "rt_inv s" and len: "length (rt_calls s') \<le> 2 ^ 32"
  shows "rt_inv s'"
  using assms(1,2) len
proof (induction rule: rt_step.induct)
  case (number s)
  then show ?case using number_inv by (simp add: rt_number_def)
next
  case (enter k s i)
  then have l: "length (rt_calls s) \<le> 2 ^ 32" by (simp add: rt_register_def set_call_def split: if_splits)
  note p = pending_of [OF enter(3) l enter(1)]
  show ?case
  proof (cases "rt_closed s")
    case True
    from p enter(2) have "(rt_pending s)(i := None) = rt_pending s" by (auto simp: fun_upd_idem)
    with set_call_inv [OF enter(3) l enter(1), of "Returned i (Inl ErrUnavailable)"] enter(2) True show ?thesis
      by (simp add: rt_register_def set_call_def waiting_good)
  next
    case False
    then have "\<not> rt_drained s" using enter(3) by (auto simp: rt_inv_def)
    with set_call_inv [OF enter(3) l enter(1), of "Registered i None"] enter(2) False show ?thesis
      by (simp add: rt_register_def set_call_def waiting_good)
  qed
next
  case (written k s i ch err)
  then have l: "length (rt_calls s) \<le> 2 ^ 32" by (auto simp: rt_written_def set_call_def rt_remove_def split: option.splits)
  note p = pending_of [OF written(4) l written(1)]
  have g: "good_result (Registered i ch)" using written(1,2,4) by (simp add: rt_inv_def) metis
  show ?case
  proof (cases err)
    case None
    have d: "rt_drained s \<Longrightarrow> \<not> waiting (Sent i ch)" 
      using p written(2,4) by (cases ch) (auto simp: rt_inv_def)
    have "(rt_pending s)(i := (if waiting (Sent i ch) then Some k else None)) = rt_pending s"
      using p written(2) by (cases ch) (auto simp: fun_upd_idem)
    with set_call_inv [OF written(4) l written(1), of "Sent i ch"] d written(2) g None show ?thesis
      by (simp add: rt_written_def set_call_def good_result_def)
  next
    case (Some e)
    with set_call_inv [OF written(4) l written(1), of "Returned i (Inl e)"] written(2) show ?thesis
      by (simp add: rt_written_def set_call_def rt_remove_def waiting_good)
  qed
next
  case (receive k s i x)
  then have l: "length (rt_calls s) \<le> 2 ^ 32" by (simp add: set_call_def)
  have g: "good_result (Sent i (Some x))" using receive(1,2,3) by (simp add: rt_inv_def) metis
  from pending_of [OF receive(3) l receive(1)] receive(2) have "(rt_pending s)(i := None) = rt_pending s" by (auto simp: fun_upd_idem)
  with set_call_inv [OF receive(3) l receive(1), of "Returned i x"] receive(2) g show ?case
    by (simp add: set_call_def good_result_def)
next
  case (cancel k s i ch e)
  then have l: "length (rt_calls s) \<le> 2 ^ 32" by (simp add: set_call_def rt_remove_def)
  from set_call_inv [OF cancel(4) l cancel(1), of "Returned i (Inl e)"] cancel(2) show ?case
    by (simp add: set_call_def rt_remove_def waiting_good)
next
  case (lost k s i ch)
  then have l: "length (rt_calls s) \<le> 2 ^ 32" by (simp add: set_call_def rt_remove_def)
  from set_call_inv [OF lost(4) l lost(1), of "Returned i (Inl (closedError s))"] lost(2) show ?case
    by (simp add: set_call_def rt_remove_def waiting_good)
next
  case (answer s m)
  let ?i = "HopByHopID (Header m)"
  show ?case
  proof (cases "is_request m")
    case False
    show ?thesis
    proof (cases "rt_pending s ?i")
      case None
      with answer(1) False show ?thesis by (simp add: deliver_def rt_remove_def fun_upd_idem)
    next
      case (Some k)
      then have k: "k < length (rt_calls s)" "?i = of_nat (k + 1)" "waiting (rt_calls s ! k)"
        using answer(1) unfolding rt_inv_def by blast+
      have l: "length (rt_calls s) \<le> 2 ^ 32" using answer(2) False Some by (simp add: deliver_def set_call_def rt_remove_def)
      have i: "call_id (rt_calls s ! k) = ?i" using answer(1) k by (simp add: rt_inv_def)
      have g: "good_result (put_result (Inr m) (rt_calls s ! k))" using k(3) i False
        by (cases "rt_calls s ! k" rule: waiting.cases) (simp_all add: good_result_def put_result_def)
      from set_call_inv [OF answer(1) l k(1) _ g] i False Some show ?thesis
        by (simp add: deliver_def set_call_def rt_remove_def)
    qed
  qed (use answer in \<open>simp add: deliver_def\<close>)
next
  case (mark s e)
  then show ?case unfolding rt_inv_def rt_mark_def by (elim conjE) (intro conjI; simp)
next
  case (sweep s e)
  then show ?case using sweep_inv by blast
qed

definition rt_reachable :: "tcpRT \<Rightarrow> bool" where
  "rt_reachable = rt_step\<^sup>*\<^sup>* newRT"

lemma newRT_inv: "rt_inv newRT"
  by (simp add: rt_inv_def newRT_def)

lemma rt_reachable_inv: "rt_reachable s \<Longrightarrow> length (rt_calls s) \<le> 2 ^ 32 \<Longrightarrow> rt_inv s"
  unfolding rt_reachable_def
proof (induction rule: rtranclp_induct)
  case base
  show ?case by (rule newRT_inv)
next
  case (step s s')
  then have "rt_inv s" using rt_step_length [OF step(2)] by simp
  with step show ?case using rt_step_inv by blast
qed

section \<open>Properties\<close>

text \<open>
  C12: Whatever calls, answers, cancellations and losses interleave on a connection with at most 2^32 calls: a
  call that returns an answer returns one that carries its own hop-by-hop id and is not a request, and no
  answer is returned by two calls.
\<close>

theorem rt_correlated:
  assumes "rt_reachable s" and "length (rt_calls s) \<le> 2 ^ 32"
    and "k < length (rt_calls s)" and "rt_calls s ! k = Returned i (Inr m)"
  shows "HopByHopID (Header m) = i \<and> \<not> is_request m
    \<and> (\<forall>l < length (rt_calls s). \<forall>j. rt_calls s ! l = Returned j (Inr m) \<longrightarrow> l = k)"
proof -
  have inv: "rt_inv s" by (rule rt_reachable_inv [OF assms(1,2)])
  then have c: "call_id (rt_calls s ! l) = of_nat (l + 1)" "good_result (rt_calls s ! l)" if "l < length (rt_calls s)" for l
    using that by (simp_all add: rt_inv_def)
  have "HopByHopID (Header m) = i" "\<not> is_request m" using c(2) [OF assms(3)] assms(4) by (simp_all add: good_result_def)
  moreover have "l = k" if l: "l < length (rt_calls s)" "rt_calls s ! l = Returned j (Inr m)" for l j
  proof -
    have "HopByHopID (Header m) = j" using c(2) [OF l(1)] l(2) by (simp add: good_result_def)
    with \<open>HopByHopID (Header m) = i\<close> c(1) [OF l(1)] c(1) [OF assms(3)] l(2) assms(4)
    have "(of_nat (l + 1) :: u32) = of_nat (k + 1)" by (metis call_id.simps(4))
    then show ?thesis by (rule ids_distinct [OF assms(2) l(1) assms(3)])
  qed
  ultimately show ?thesis by blast
qed

text \<open>
  C39: When the connection is lost or closed nobody is forgotten: after the sweep every call that had been
  entered into the table has a result, nothing is pending, and nothing becomes pending again.
\<close>

theorem rt_nobody_forgotten:
  assumes "rt_reachable s" and "rt_drained s" and "rt_step\<^sup>*\<^sup>* s s'" and "length (rt_calls s') \<le> 2 ^ 32"
  shows "rt_drained s' \<and> rt_pending s' = Map.empty \<and> (\<forall>k < length (rt_calls s'). \<not> waiting (rt_calls s' ! k))"
proof -
  have "rt_reachable s'" using assms(1,3) unfolding rt_reachable_def by (rule rtranclp_trans)
  then have inv: "rt_inv s'" by (rule rt_reachable_inv [OF _ assms(4)])
  from assms(3,2) have d: "rt_drained s'"
  proof (induction rule: rtranclp_induct)
    case (step s1 s2)
    from step(2) step(3) [OF step(4)] show ?case
      by (induction rule: rt_step.induct)
        (auto simp: rt_number_def rt_register_def rt_written_def set_call_def rt_remove_def deliver_def rt_mark_def rt_sweep_def Let_def
          split: option.split)
  qed
  with inv have p: "rt_pending s' = Map.empty" by (simp add: rt_inv_def)
  have "\<not> waiting (rt_calls s' ! k)" if "k < length (rt_calls s')" for k
  proof
    assume "waiting (rt_calls s' ! k)"
    with inv that have "rt_pending s' (of_nat (k + 1)) = Some k" unfolding rt_inv_def by blast
    with p show False by simp
  qed
  with d p show ?thesis by blast
qed

text \<open>
  A call that returns \<open>ErrUnavailable\<close> was refused before its message was written: retrying it can never
  duplicate a request.  A call whose message may have been written ends with another error.
\<close>

theorem rt_unavailable_unsent:
  assumes "rt_reachable s" and "rt_step s s'" and "length (rt_calls s') \<le> 2 ^ 32"
    and "k < length (rt_calls s)" and "rt_calls s' ! k = Returned i (Inl ErrUnavailable)" and "rt_calls s ! k \<noteq> rt_calls s' ! k"
  shows "rt_calls s ! k = Numbered i \<and> rt_closed s"
proof -
  have inv: "rt_inv s" using rt_reachable_inv [OF assms(1)] rt_step_length [OF assms(2)] assms(3) by simp
  then have g: "good_result (rt_calls s ! l)" if "l < length (rt_calls s)" for l using that by (simp add: rt_inv_def)
  have ce: "rt_closed s \<Longrightarrow> closedError s \<noteq> ErrUnavailable"
    using inv by (auto simp: rt_inv_def closedError_def loss_error_def)
  have put: "put_result x c = Returned j y \<Longrightarrow> c = Returned j y" for x c j y
    by (cases c rule: waiting.cases) (simp_all add: put_result_def)
  from assms(2,4-6) ce g show ?thesis
  proof (induction rule: rt_step.induct)
    case (receive l s j x)
    then show ?case by (cases "l = k") (auto simp: set_call_def good_result_def loss_error_def)
  next
    case (answer s m)
    have "rt_calls (deliver m s) ! k = rt_calls s ! k \<or> (\<exists>x. rt_calls (deliver m s) ! k = put_result x (rt_calls s ! k))"
    proof (cases "rt_pending s (HopByHopID (Header m))")
      case (Some l)
      with answer(1) show ?thesis
        by (cases "l = k") (auto simp: deliver_def set_call_def rt_remove_def)
    qed (simp add: deliver_def rt_remove_def)
    with answer put show ?case by metis
  qed (auto simp: rt_number_def rt_register_def rt_written_def set_call_def rt_remove_def deliver_def rt_mark_def rt_sweep_def
      ctx_error_def nth_append nth_list_update Let_def dest!: put split: option.splits if_splits)
qed

definition sample_answer :: "u32 \<Rightarrow> message" where
  "sample_answer i = \<lparr>Header = \<lparr>CommandFlags = 0, CommandCode = 0, ApplicationID = 0, HopByHopID = i, EndToEndID = 0\<rparr>, AVPs = []\<rparr>"

text \<open>One call that is answered, and one that is cut off by the loss of the connection.\<close>

definition sample_answered :: tcpRT where
  "sample_answered = set_call 0 (Returned 1 (Inr (sample_answer 1)))
     (deliver (sample_answer 1) (rt_written 0 1 None None (rt_register 0 1 (rt_number newRT))))"

lemma sample_answered_reachable: "rt_reachable sample_answered"
proof -
  have "rt_step newRT (rt_number newRT)" by (rule number)
  moreover have "rt_step (rt_number newRT) (rt_register 0 1 (rt_number newRT))"
    by (rule enter) (simp_all add: rt_number_def newRT_def)
  moreover have "rt_step (rt_register 0 1 (rt_number newRT)) (rt_written 0 1 None None (rt_register 0 1 (rt_number newRT)))"
    by (rule written) (simp_all add: rt_register_def rt_number_def newRT_def set_call_def)
  moreover note answer [of "rt_written 0 1 None None (rt_register 0 1 (rt_number newRT))" "sample_answer 1"]
  moreover have "rt_step (deliver (sample_answer 1) (rt_written 0 1 None None (rt_register 0 1 (rt_number newRT)))) sample_answered"
    unfolding sample_answered_def
    by (rule receive) (simp_all add: deliver_def rt_written_def rt_register_def rt_number_def newRT_def set_call_def rt_remove_def
        sample_answer_def is_request_def put_result_def)
  ultimately show ?thesis unfolding rt_reachable_def by (meson converse_rtranclp_into_rtranclp rtranclp.rtrancl_refl)
qed

lemma sample_answered_calls: "rt_calls sample_answered = [Returned 1 (Inr (sample_answer 1))]"
  by (simp add: sample_answered_def deliver_def rt_written_def rt_register_def rt_number_def newRT_def set_call_def rt_remove_def
      sample_answer_def is_request_def put_result_def)

theorem rt_correlated_witness: "HopByHopID (Header (sample_answer 1)) = 1 \<and> \<not> is_request (sample_answer 1)"
  using rt_correlated [OF sample_answered_reachable, of 0 1 "sample_answer 1"] by (simp add: sample_answered_calls)

definition sample_lost :: tcpRT where
  "sample_lost = rt_sweep ErrConnectionLost (rt_mark ErrConnectionLost (rt_register 0 1 (rt_number newRT)))"

lemma sample_lost_reachable: "rt_reachable (rt_mark ErrConnectionLost (rt_number newRT))" "rt_reachable sample_lost"
proof -
  have n: "rt_step newRT (rt_number newRT)" by (rule number)
  moreover have "rt_step (rt_number newRT) (rt_mark ErrConnectionLost (rt_number newRT))"
    by (rule mark) (simp_all add: rt_number_def newRT_def loss_error_def)
  ultimately show "rt_reachable (rt_mark ErrConnectionLost (rt_number newRT))"
    unfolding rt_reachable_def by (meson converse_rtranclp_into_rtranclp rtranclp.rtrancl_refl)
  note n
  moreover have "rt_step (rt_number newRT) (rt_register 0 1 (rt_number newRT))"
    by (rule enter) (simp_all add: rt_number_def newRT_def)
  moreover have "rt_step (rt_register 0 1 (rt_number newRT)) (rt_mark ErrConnectionLost (rt_register 0 1 (rt_number newRT)))"
    by (rule mark) (simp_all add: rt_register_def rt_number_def newRT_def set_call_def loss_error_def)
  moreover have "rt_step (rt_mark ErrConnectionLost (rt_register 0 1 (rt_number newRT))) sample_lost"
    unfolding sample_lost_def by (rule sweep) (simp_all add: rt_mark_def rt_register_def rt_number_def newRT_def set_call_def)
  ultimately show "rt_reachable sample_lost"
    unfolding rt_reachable_def by (meson converse_rtranclp_into_rtranclp rtranclp.rtrancl_refl)
qed

theorem rt_nobody_forgotten_witness: "\<not> waiting (rt_calls sample_lost ! 0) \<and> rt_pending sample_lost = Map.empty"
proof -
  have "rt_drained sample_lost" "length (rt_calls sample_lost) = 1"
    by (simp_all add: sample_lost_def rt_sweep_def rt_mark_def rt_register_def rt_number_def newRT_def set_call_def)
  with rt_nobody_forgotten [OF sample_lost_reachable(2) _ rtranclp.rtrancl_refl] show ?thesis by simp
qed

theorem rt_unavailable_unsent_witness:
  "let s = rt_mark ErrConnectionLost (rt_number newRT) in
     rt_calls (rt_register 0 1 s) ! 0 = Returned 1 (Inl ErrUnavailable) \<and> rt_calls s ! 0 = Numbered 1 \<and> rt_closed s"
proof -
  let ?s = "rt_mark ErrConnectionLost (rt_number newRT)"
  have e: "rt_step ?s (rt_register 0 1 ?s)" by (rule enter) (simp_all add: rt_mark_def rt_number_def newRT_def)
  have r: "rt_calls (rt_register 0 1 ?s) = [Returned 1 (Inl ErrUnavailable)]" "rt_calls ?s = [Numbered 1]"
    by (simp_all add: rt_register_def rt_mark_def rt_number_def newRT_def set_call_def)
  from rt_unavailable_unsent [OF sample_lost_reachable(1) e, of 0 1] r show ?thesis by (simp add: Let_def)
qed

text \<open>
  Dialling yields a usable transport only with a valid configuration, after a capabilities exchange, and
  from the expected host and realm if they are configured; every connection that is not used is closed;
  and the capability is exactly what the peer announced.
\<close>

theorem dialTransport_spec:
  assumes "dialTransport c d = (res, closes)"
  shows "case res of
      Inr cap \<Rightarrow> \<not> closes \<and> transport_Validate c = None
        \<and> (\<exists>meta. d = Connection (Some meta) \<and> cp_OriginHost cap = pm_OriginHost meta \<and> cp_OriginRealm cap = pm_OriginRealm meta
            \<and> cp_Applications cap = set (pm_Applications meta) \<and> (cp_Relay cap \<longleftrightarrow> RelayApplicationID \<in> set (pm_Applications meta)))
        \<and> (tc_ExpectedOriginHost c \<noteq> [] \<longrightarrow> norm_id (cp_OriginHost cap) = norm_id (tc_ExpectedOriginHost c))
        \<and> (tc_ExpectedOriginRealm c \<noteq> [] \<longrightarrow> norm_id (cp_OriginRealm cap) = norm_id (tc_ExpectedOriginRealm c))
    | Inl e \<Rightarrow> closes \<longleftrightarrow> transport_Validate c = None \<and> d \<noteq> DialError"
  using assms by (auto simp: dialTransport_def split: option.splits dialled.splits if_splits)

theorem dialTransport_spec_witness:
  "let c = \<lparr>tc_Name = ''p'', tc_Address = ''a'', tc_Transport = ''tcp'', tc_OriginHost = ''h'', tc_OriginRealm = ''r'',
       tc_HostIP = Some [127, 0, 0, 1], tc_ConnectTimeout = 1, tc_WatchdogInterval = 1, tc_WatchdogTimeout = 1,
       tc_Applications = [], tc_RequestHandlers = [], tc_ExpectedOriginHost = [], tc_ExpectedOriginRealm = []\<rparr>;
       d = Connection (Some \<lparr>pm_OriginHost = ''dra'', pm_OriginRealm = ''r'', pm_Applications = [RelayApplicationID]\<rparr>)
   in \<exists>cap. dialTransport c d = (Inr cap, False) \<and> cp_Relay cap"
proof -
  let ?c = "\<lparr>tc_Name = ''p'', tc_Address = ''a'', tc_Transport = ''tcp'', tc_OriginHost = ''h'', tc_OriginRealm = ''r'',
       tc_HostIP = Some [127, 0, 0, 1], tc_ConnectTimeout = 1, tc_WatchdogInterval = 1, tc_WatchdogTimeout = 1,
       tc_Applications = [], tc_RequestHandlers = [], tc_ExpectedOriginHost = [], tc_ExpectedOriginRealm = []\<rparr>"
  let ?d = "Connection (Some \<lparr>pm_OriginHost = ''dra'', pm_OriginRealm = ''r'', pm_Applications = [RelayApplicationID]\<rparr>)"
  obtain cap where c: "dialTransport ?c ?d = (Inr cap, False)" by (simp add: dialTransport_def transport_Validate_def)
  from dialTransport_spec [OF c] c show ?thesis by (auto simp: Let_def)
qed

end
