(* ===== verification/GMLC_Peers.thy ===== *)
theory GMLC_Peers
  imports GMLC_Transport
begin

text \<open>
  \<open>internal/diameter/peertable.go\<close>, \<open>manager.go\<close> and \<open>registry.go\<close>: the table of peers and the choice of a route,
  the manager that keeps one peer connected, and the registry of both.  A manager is a state machine
  whose steps are the sections of its loop between two points at which another goroutine can act;
  managers, the closing of the service and the callbacks into the table interleave freely.
\<close>

section \<open>The peer table\<close>

text \<open>A manager is named by its position in the registry.\<close>

type_synonym peer_table = "(nat \<times> capability) list"

record route_request =
  rr_ApplicationID :: u32
  rr_DestinationHost :: string
  rr_DestinationRealm :: string

fun Upsert :: "nat \<Rightarrow> capability \<Rightarrow> peer_table \<Rightarrow> peer_table" where
  "Upsert m c [] = [(m, c)]"
| "Upsert m c ((k, d) # ps) =
     (if k = m then (if cp_Generation d > cp_Generation c then (k, d) # ps else (k, c) # ps)
      else (k, d) # Upsert m c ps)"

fun Remove :: "nat \<Rightarrow> 64 word \<Rightarrow> peer_table \<Rightarrow> peer_table" where
  "Remove m generation [] = []"
| "Remove m generation ((k, d) # ps) =
     (if k = m then
        (if cp_Generation d \<noteq> generation then (k, d) # ps
         else (k, d\<lparr>cp_Ready := False, cp_Applications := {}\<rparr>) # Remove m generation ps)
      else (k, d) # Remove m generation ps)"

definition same_host :: "route_request \<Rightarrow> capability \<Rightarrow> bool" where
  "same_host r c \<longleftrightarrow> rr_DestinationHost r \<noteq> [] \<and> norm_id (cp_OriginHost c) = norm_id (rr_DestinationHost r)"

definition same_realm :: "route_request \<Rightarrow> capability \<Rightarrow> bool" where
  "same_realm r c \<longleftrightarrow> rr_DestinationRealm r \<noteq> [] \<and> norm_id (cp_OriginRealm c) = norm_id (rr_DestinationRealm r)"

text \<open>The loop over the peers; \<open>live\<close> is \<open>Ready\<close> of a manager.  The lists are those it appends to.\<close>

fun select_loop ::
  "(nat \<Rightarrow> bool) \<Rightarrow> route_request \<Rightarrow> peer_table \<Rightarrow> nat list \<Rightarrow> nat list \<Rightarrow> nat list \<Rightarrow> nat list
     \<Rightarrow> nat list \<times> nat list \<times> nat list \<times> nat list" where
  "select_loop live r [] exactHost realmDirect anyDirect relay = (exactHost, realmDirect, anyDirect, relay)"
| "select_loop live r ((m, c) # ps) exactHost realmDirect anyDirect relay =
     (if \<not> cp_Ready c \<or> \<not> live m then select_loop live r ps exactHost realmDirect anyDirect relay
      else if cp_Relay c then select_loop live r ps exactHost realmDirect anyDirect (relay @ [m])
      else if rr_ApplicationID r \<notin> cp_Applications c then select_loop live r ps exactHost realmDirect anyDirect relay
      else select_loop live r ps
        (if same_host r c then exactHost @ [m] else exactHost)
        (if same_realm r c then realmDirect @ [m] else realmDirect)
        (anyDirect @ [m]) relay)"

definition Select :: "(nat \<Rightarrow> bool) \<Rightarrow> route_request \<Rightarrow> peer_table \<Rightarrow> transport_error + nat" where
  "Select live r ps =
     (case select_loop live r ps [] [] [] [] of (exactHost, realmDirect, anyDirect, relay) \<Rightarrow>
        (if exactHost \<noteq> [] then Inr (exactHost ! 0)
         else if realmDirect \<noteq> [] then Inr (realmDirect ! 0)
         else if rr_DestinationHost r = [] \<and> rr_DestinationRealm r = [] \<and> anyDirect \<noteq> [] then Inr (anyDirect ! 0)
         else if relay \<noteq> [] then Inr (relay ! 0)
         else Inl (RouteUnavailable (rr_ApplicationID r))))"

definition zero_capability :: capability where
  "zero_capability = \<lparr>cp_Address = [], cp_Transport = [], cp_OriginHost = [], cp_OriginRealm = [], cp_Generation = 0,
     cp_Ready = False, cp_Relay = False, cp_Applications = {}\<rparr>"

definition Capability :: "nat \<Rightarrow> peer_table \<Rightarrow> capability \<times> bool" where
  "Capability m ps = (case map_of ps m of Some c \<Rightarrow> (c, cp_Ready c) | None \<Rightarrow> (zero_capability, False))"

definition ReadyFor :: "(nat \<Rightarrow> bool) \<Rightarrow> u32 \<Rightarrow> peer_table \<Rightarrow> bool" where
  "ReadyFor live app ps \<longleftrightarrow>
     \<not> isl (Select live \<lparr>rr_ApplicationID = app, rr_DestinationHost = [], rr_DestinationRealm = []\<rparr> ps)"

section \<open>A manager\<close>

datatype peer_state = StateDown | StateConnecting | StateReady | StateStopping

record peer_manager_config =
  pc_ReconnectMin :: duration
  pc_ReconnectMax :: duration

text \<open>
  Where the loop of a manager is.  A connection is represented by the capability its capabilities exchange
  yielded; \<open>g\<close> is the generation the loop gave it.
\<close>

datatype phase =
    AtTop | Checked | Dialing | Dialled capability | Counted capability "64 word" | Announcing capability "64 word"
  | Up capability "64 word" | Closing capability "64 word" | Dropped capability "64 word" | Backoff | Done

record manager =
  mg_cfg :: peer_manager_config
  mg_name :: string
  mg_address :: string
  mg_transport :: string
  mg_state :: peer_state
  mg_rt :: "capability option"
  mg_closing :: bool
  mg_stop :: bool
  mg_generation :: "64 word"
  mg_delay :: duration
  mg_phase :: phase

definition manager_New :: "peer_manager_config \<Rightarrow> manager" where
  "manager_New cfg =
     (let mn = (if pc_ReconnectMin cfg \<le> 0 then second else pc_ReconnectMin cfg);
          mx = (if pc_ReconnectMax cfg < mn then 30 * second else pc_ReconnectMax cfg)
      in \<lparr>mg_cfg = \<lparr>pc_ReconnectMin = mn, pc_ReconnectMax = mx\<rparr>, mg_name = [], mg_address = [], mg_transport = [],
          mg_state = StateDown, mg_rt = None, mg_closing = False, mg_stop = False, mg_generation = 0,
          mg_delay = mn, mg_phase = AtTop\<rparr>)"

definition SetName :: "string \<Rightarrow> manager \<Rightarrow> manager" where
  "SetName name m = m\<lparr>mg_name := name\<rparr>"

definition SetCapabilityCallback :: "string \<Rightarrow> string \<Rightarrow> manager \<Rightarrow> manager" where
  "SetCapabilityCallback address transport m = m\<lparr>mg_address := address, mg_transport := transport\<rparr>"

definition mg_set :: "peer_state \<Rightarrow> capability option \<Rightarrow> manager \<Rightarrow> manager" where
  "mg_set st rt m = m\<lparr>mg_state := st, mg_rt := rt\<rparr>"

text \<open>What \<open>publish\<close> hands to the callback.\<close>

definition publish :: "manager \<Rightarrow> capability \<Rightarrow> 64 word \<Rightarrow> bool \<Rightarrow> capability" where
  "publish m c generation ready =
     (if ready then c\<lparr>cp_Address := mg_address m, cp_Transport := mg_transport m, cp_Generation := generation, cp_Ready := True\<rparr>
      else zero_capability\<lparr>cp_Address := mg_address m, cp_Transport := mg_transport m, cp_Generation := generation\<rparr>)"

definition next_delay :: "manager \<Rightarrow> duration" where
  "next_delay m =
     (let mx = pc_ReconnectMax (mg_cfg m) in
      if mg_delay m < mx then (let d = swrap64 (mg_delay m * 2) in if d > mx then mx else d) else mg_delay m)"

text \<open>One step of the loop, with what it publishes.\<close>

inductive loop_step :: "manager \<Rightarrow> capability option \<Rightarrow> manager \<Rightarrow> bool" where
  seen_stop: "mg_phase m = AtTop \<Longrightarrow> mg_stop m \<Longrightarrow> loop_step m None (m\<lparr>mg_phase := Done\<rparr>)"
| go_on: "mg_phase m = AtTop \<Longrightarrow> \<not> mg_stop m \<Longrightarrow> loop_step m None (m\<lparr>mg_phase := Checked\<rparr>)"
| connecting: "mg_phase m = Checked \<Longrightarrow> loop_step m None ((mg_set StateConnecting None m)\<lparr>mg_phase := Dialing\<rparr>)"
| dial_ok: "mg_phase m = Dialing \<Longrightarrow> loop_step m None (m\<lparr>mg_phase := Dialled c\<rparr>)"
| dial_failed: "mg_phase m = Dialing \<Longrightarrow> loop_step m None (m\<lparr>mg_phase := Backoff\<rparr>)"
| counted: "mg_phase m = Dialled c \<Longrightarrow>
    loop_step m None (m\<lparr>mg_generation := mg_generation m + 1, mg_phase := Counted c (mg_generation m + 1)\<rparr>)"
| ready: "mg_phase m = Counted c g \<Longrightarrow> loop_step m None ((mg_set StateReady (Some c) m)\<lparr>mg_phase := Announcing c g\<rparr>)"
| announce: "mg_phase m = Announcing c g \<Longrightarrow>
    loop_step m (Some (publish m c g True)) (m\<lparr>mg_delay := pc_ReconnectMin (mg_cfg m), mg_phase := Up c g\<rparr>)"
| stop_up: "mg_phase m = Up c g \<Longrightarrow> mg_stop m \<Longrightarrow> loop_step m None (m\<lparr>mg_phase := Closing c g\<rparr>)"
| withdraw_stop: "mg_phase m = Closing c g \<Longrightarrow> loop_step m (Some (publish m c g False)) (m\<lparr>mg_phase := Done\<rparr>)"
| lost_up: "mg_phase m = Up c g \<Longrightarrow> loop_step m None ((mg_set StateDown None m)\<lparr>mg_phase := Dropped c g\<rparr>)"
| withdraw_lost: "mg_phase m = Dropped c g \<Longrightarrow> loop_step m (Some (publish m c g False)) (m\<lparr>mg_phase := AtTop\<rparr>)"
| backoff_stop: "mg_phase m = Backoff \<Longrightarrow> mg_stop m \<Longrightarrow> loop_step m None (m\<lparr>mg_phase := Done\<rparr>)"
| backoff_over: "mg_phase m = Backoff \<Longrightarrow> loop_step m None (m\<lparr>mg_delay := next_delay m, mg_phase := AtTop\<rparr>)"

text \<open>\<open>Close\<close>: its once-only part sets the state and then closes the stop channel.\<close>

inductive close_step :: "manager \<Rightarrow> manager \<Rightarrow> bool" where
  close_set: "\<not> mg_closing m \<Longrightarrow> close_step m ((mg_set StateStopping None m)\<lparr>mg_closing := True\<rparr>)"
| close_stop: "mg_closing m \<Longrightarrow> \<not> mg_stop m \<Longrightarrow> close_step m (m\<lparr>mg_stop := True\<rparr>)"

definition manager_Ready :: "manager \<Rightarrow> bool" where
  "manager_Ready m \<longleftrightarrow> mg_state m = StateReady"

text \<open>\<open>RoundTrip\<close> refuses, or hands the request to the connection.\<close>

definition manager_RoundTrip :: "manager \<Rightarrow> transport_error + capability" where
  "manager_RoundTrip m =
     (if mg_state m = StateStopping then Inl ErrShutdown
      else case mg_rt m of
        None \<Rightarrow> Inl ErrUnavailable
      | Some c \<Rightarrow> if mg_state m \<noteq> StateReady then Inl ErrUnavailable else Inr c)"

section \<open>The registry\<close>

record peer_config =
  pe_Name :: string
  pe_Address :: string
  pe_Transport :: string
  pe_ExpectedOriginHost :: string
  pe_ExpectedOriginRealm :: string

record registry_config =
  rc_OriginHost :: string
  rc_OriginRealm :: string
  rc_HostIP :: "bytes option"
  rc_ConnectTimeout :: duration
  rc_ReconnectMin :: duration
  rc_ReconnectMax :: duration
  rc_WatchdogInterval :: duration
  rc_WatchdogTimeout :: duration
  rc_Peers :: "peer_config list"
  rc_RequestHandlers :: "(u32 \<times> u32) list"

record registry =
  rg_table :: peer_table
  rg_managers :: "manager list"

definition transport_of :: "registry_config \<Rightarrow> peer_config \<Rightarrow> transport_config" where
  "transport_of c p = \<lparr>tc_Name = pe_Name p, tc_Address = pe_Address p, tc_Transport = pe_Transport p,
     tc_OriginHost = rc_OriginHost c, tc_OriginRealm = rc_OriginRealm c, tc_HostIP = rc_HostIP c,
     tc_ConnectTimeout = rc_ConnectTimeout c, tc_WatchdogInterval = rc_WatchdogInterval c,
     tc_WatchdogTimeout = rc_WatchdogTimeout c,
     tc_Applications = [\<lparr>ap_ID = SLhApplicationID, ap_Commands = [8388622]\<rparr>, \<lparr>ap_ID = SLgApplicationID, ap_Commands = [8388620]\<rparr>],
     tc_RequestHandlers = rc_RequestHandlers c, tc_ExpectedOriginHost = pe_ExpectedOriginHost p,
     tc_ExpectedOriginRealm = pe_ExpectedOriginRealm p\<rparr>"

definition BuildRegistry :: "registry_config \<Rightarrow> registry" where
  "BuildRegistry c = \<lparr>rg_table = [],
     rg_managers = map (\<lambda>p. SetCapabilityCallback (pe_Address p) (pe_Transport p) (SetName (pe_Name p)
       (manager_New \<lparr>pc_ReconnectMin = rc_ReconnectMin c, pc_ReconnectMax = rc_ReconnectMax c\<rparr>))) (rc_Peers c)\<rparr>"

text \<open>The callback the registry installs on manager \<open>i\<close>.\<close>

definition callback :: "nat \<Rightarrow> capability \<Rightarrow> peer_table \<Rightarrow> peer_table" where
  "callback i cap ps = (if cp_Ready cap then Upsert i cap ps else Remove i (cp_Generation cap) ps)"

definition live_manager :: "registry \<Rightarrow> nat \<Rightarrow> bool" where
  "live_manager st i \<longleftrightarrow> i < length (rg_managers st) \<and> manager_Ready (rg_managers st ! i)"

definition RoundTripperFor :: "registry \<Rightarrow> route_request \<Rightarrow> transport_error + nat" where
  "RoundTripperFor st r = Select (live_manager st) r (rg_table st)"

definition OverallReady :: "registry \<Rightarrow> bool" where
  "OverallReady st \<longleftrightarrow> ReadyFor (live_manager st) SLhApplicationID (rg_table st) \<and> ReadyFor (live_manager st) SLgApplicationID (rg_table st)"

text \<open>
  Runs of the registry: any manager takes a step of its loop, or is being closed.  The number counts the
  connections that were made; a generation is a 64-bit counter of them.
\<close>

inductive registry_run :: "registry_config \<Rightarrow> nat \<Rightarrow> registry \<Rightarrow> bool" for c where
  built: "registry_run c 0 (BuildRegistry c)"
| looped: "registry_run c n st \<Longrightarrow> i < length (rg_managers st) \<Longrightarrow> loop_step (rg_managers st ! i) p m \<Longrightarrow>
    tc = transport_of c (rc_Peers c ! i) \<Longrightarrow>
    (\<forall>cap. mg_phase m = Dialled cap \<longrightarrow> (\<exists>d. dialTransport tc d = (Inr cap, False))) \<Longrightarrow>
    registry_run c (if \<exists>cap g. mg_phase m = Counted cap g then n + 1 else n)
      (st\<lparr>rg_table := (case p of None \<Rightarrow> rg_table st | Some cap \<Rightarrow> callback i cap (rg_table st)),
         rg_managers := (rg_managers st)[i := m]\<rparr>)"
| closed: "registry_run c n st \<Longrightarrow> i < length (rg_managers st) \<Longrightarrow> close_step (rg_managers st ! i) m \<Longrightarrow>
    registry_run c n (st\<lparr>rg_managers := (rg_managers st)[i := m]\<rparr>)"

section \<open>The choice of a route\<close>

definition usable :: "(nat \<Rightarrow> bool) \<Rightarrow> nat \<times> capability \<Rightarrow> bool" where
  "usable live p \<longleftrightarrow> cp_Ready (snd p) \<and> live (fst p)"

definition direct :: "(nat \<Rightarrow> bool) \<Rightarrow> route_request \<Rightarrow> nat \<times> capability \<Rightarrow> bool" where
  "direct live r p \<longleftrightarrow> usable live p \<and> \<not> cp_Relay (snd p) \<and> rr_ApplicationID r \<in> cp_Applications (snd p)"

text \<open>The rule: the first peer in table order, by host, else by realm, else any if no destination is named, else a relay.\<close>

definition route :: "(nat \<Rightarrow> bool) \<Rightarrow> route_request \<Rightarrow> peer_table \<Rightarrow> (nat \<times> capability) option" where
  "route live r ps =
     (case find (\<lambda>p. direct live r p \<and> same_host r (snd p)) ps of Some p \<Rightarrow> Some p
      | None \<Rightarrow>
     (case find (\<lambda>p. direct live r p \<and> same_realm r (snd p)) ps of Some p \<Rightarrow> Some p
      | None \<Rightarrow>
     (case (if rr_DestinationHost r = [] \<and> rr_DestinationRealm r = [] then find (direct live r) ps else None) of Some p \<Rightarrow> Some p
      | None \<Rightarrow> find (\<lambda>p. usable live p \<and> cp_Relay (snd p)) ps)))"

lemma select_loop_filter:
  "select_loop live r ps eh rd ad rl =
     (eh @ map fst (filter (\<lambda>p. direct live r p \<and> same_host r (snd p)) ps),
      rd @ map fst (filter (\<lambda>p. direct live r p \<and> same_realm r (snd p)) ps),
      ad @ map fst (filter (direct live r) ps),
      rl @ map fst (filter (\<lambda>p. usable live p \<and> cp_Relay (snd p)) ps))"
  by (induction live r ps eh rd ad rl rule: select_loop.induct) (auto simp: direct_def usable_def)

lemma find_filter: "find P xs = (case filter P xs of [] \<Rightarrow> None | x # _ \<Rightarrow> Some x)"
  by (induction xs) auto

lemma Select_route:
  "Select live r ps = (case route live r ps of Some p \<Rightarrow> Inr (fst p) | None \<Rightarrow> Inl (RouteUnavailable (rr_ApplicationID r)))"
  unfolding Select_def select_loop_filter route_def find_filter [of _ ps]
  by (auto split: list.split)

lemma route_Some:
  assumes "route live r ps = Some p"
  shows "p \<in> set ps \<and> usable live p \<and> (cp_Relay (snd p) \<or> rr_ApplicationID r \<in> cp_Applications (snd p))"
  using assms unfolding route_def
  by (auto simp: direct_def usable_def find_Some_iff split: option.splits if_splits)

text \<open>
  C15: The loop of \<open>Select\<close>, with its four lists, chooses by the rule \<open>route\<close>: first peer of the destination host,
  else of the destination realm, else, if neither is named, any that speaks the application, else a
  relay; and it fails exactly when the rule finds none.
\<close>

theorem Select_equiv:
  "Select live r ps = (case route live r ps of Some p \<Rightarrow> Inr (fst p) | None \<Rightarrow> Inl (RouteUnavailable (rr_ApplicationID r)))"
  by (rule Select_route)

section \<open>The invariant of the registry\<close>

fun connection :: "phase \<Rightarrow> capability option" where
  "connection (Dialled c) = Some c"
| "connection (Counted c g) = Some c"
| "connection (Announcing c g) = Some c"
| "connection (Up c g) = Some c"
| "connection (Closing c g) = Some c"
| "connection (Dropped c g) = Some c"
| "connection _ = None"

text \<open>A connection that has been counted but not announced, and one that has been announced and not yet withdrawn.\<close>

fun unannounced :: "phase \<Rightarrow> (capability \<times> 64 word) option" where
  "unannounced (Counted c g) = Some (c, g)"
| "unannounced (Announcing c g) = Some (c, g)"
| "unannounced _ = None"

fun announced_conn :: "phase \<Rightarrow> (capability \<times> 64 word) option" where
  "announced_conn (Up c g) = Some (c, g)"
| "announced_conn (Closing c g) = Some (c, g)"
| "announced_conn (Dropped c g) = Some (c, g)"
| "announced_conn _ = None"

definition manager_inv :: "nat \<Rightarrow> transport_config \<Rightarrow> manager \<Rightarrow> capability option \<Rightarrow> bool" where
  "manager_inv n tc m entry \<longleftrightarrow>
     unat (mg_generation m) \<le> n
     \<and> (mg_state m = StateReady \<longleftrightarrow> mg_rt m \<noteq> None)
     \<and> (\<forall>c. mg_rt m = Some c \<longrightarrow> mg_phase m = Done \<or> (\<exists>g. mg_phase m = Announcing c g \<or> mg_phase m = Up c g \<or> mg_phase m = Closing c g))
     \<and> (\<forall>c. connection (mg_phase m) = Some c \<longrightarrow> (\<exists>d. dialTransport tc d = (Inr c, False)))
     \<and> (\<forall>c g. unannounced (mg_phase m) = Some (c, g) \<longrightarrow> g = mg_generation m \<and> (\<forall>d. entry = Some d \<longrightarrow> cp_Generation d < g))
     \<and> (\<forall>c g. announced_conn (mg_phase m) = Some (c, g) \<longrightarrow> g = mg_generation m \<and> entry = Some (publish m c g True))
     \<and> (\<forall>d. entry = Some d \<longrightarrow> cp_Generation d \<le> mg_generation m \<and> (cp_Ready d \<longrightarrow> announced_conn (mg_phase m) \<noteq> None))"

definition registry_inv :: "registry_config \<Rightarrow> nat \<Rightarrow> registry \<Rightarrow> bool" where
  "registry_inv c n st \<longleftrightarrow>
     distinct (map fst (rg_table st)) \<and> fst ` set (rg_table st) \<subseteq> {..<length (rg_managers st)}
     \<and> length (rg_managers st) = length (rc_Peers c)
     \<and> (\<forall>i < length (rg_managers st).
          manager_inv n (transport_of c (rc_Peers c ! i)) (rg_managers st ! i) (map_of (rg_table st) i))"

lemma Upsert_keys: "fst ` set (Upsert m c ps) = insert m (fst ` set ps)"
  by (induction m c ps rule: Upsert.induct) auto

lemma Upsert_distinct: "distinct (map fst ps) \<Longrightarrow> distinct (map fst (Upsert m c ps))"
proof (induction m c ps rule: Upsert.induct)
  case (2 m c k d ps)
  have "fst ` set (Upsert m c ps) = insert m (fst ` set ps)" by (rule Upsert_keys)
  with 2 show ?case by auto
qed simp

lemma Upsert_other: "k \<noteq> m \<Longrightarrow> map_of (Upsert m c ps) k = map_of ps k"
  by (induction m c ps rule: Upsert.induct) auto

lemma Upsert_own:
  "map_of (Upsert m c ps) m = (case map_of ps m of None \<Rightarrow> Some c | Some d \<Rightarrow> Some (if cp_Generation d > cp_Generation c then d else c))"
  by (induction m c ps rule: Upsert.induct) auto

lemma Remove_keys: "map fst (Remove m g ps) = map fst ps"
  by (induction m g ps rule: Remove.induct) auto

lemma Remove_other: "k \<noteq> m \<Longrightarrow> map_of (Remove m g ps) k = map_of ps k"
  by (induction m g ps rule: Remove.induct) auto

lemma Remove_own:
  "map_of (Remove m g ps) m = map_option (\<lambda>d. if cp_Generation d = g then d\<lparr>cp_Ready := False, cp_Applications := {}\<rparr> else d) (map_of ps m)"
  by (induction m g ps rule: Remove.induct) auto

lemma callback_keys:
  "distinct (map fst ps) \<Longrightarrow> distinct (map fst (callback i cap ps))"
  "i < n \<Longrightarrow> fst ` set ps \<subseteq> {..<n} \<Longrightarrow> fst ` set (callback i cap ps) \<subseteq> {..<n}"
  "k \<noteq> i \<Longrightarrow> map_of (callback i cap ps) k = map_of ps k"
  subgoal by (simp add: callback_def Upsert_distinct Remove_keys)
  subgoal using Remove_keys [of i "cp_Generation cap" ps, THEN arg_cong, of set]
    by (auto simp: callback_def Upsert_keys)
  subgoal by (simp add: callback_def Upsert_other Remove_other)
  done

definition callback_entry :: "capability \<Rightarrow> capability option \<Rightarrow> capability option" where
  "callback_entry cap entry =
     (if cp_Ready cap then
        (case entry of None \<Rightarrow> Some cap | Some d \<Rightarrow> Some (if cp_Generation d > cp_Generation cap then d else cap))
      else map_option (\<lambda>d. if cp_Generation d = cp_Generation cap then d\<lparr>cp_Ready := False, cp_Applications := {}\<rparr> else d) entry)"

lemma callback_own: "map_of (callback i cap ps) i = callback_entry cap (map_of ps i)"
  by (simp add: callback_def callback_entry_def Upsert_own Remove_own)

lemma generation_suc: "unat g + 1 < 2 ^ 64 \<Longrightarrow> unat (g + 1 :: 64 word) = unat g + 1"
  by (simp add: unat_word_ariths(1))

lemma generation_less: "unat g + 1 < 2 ^ 64 \<Longrightarrow> h \<le> g \<Longrightarrow> h < (g + 1 :: 64 word)"
  using generation_suc [of g] by (simp add: word_less_nat_alt word_le_nat_alt)

lemma publish_frame [simp]:
  "publish (m\<lparr>mg_phase := x\<rparr>) = publish m" "publish (m\<lparr>mg_delay := d\<rparr>) = publish m"
  "publish (m\<lparr>mg_generation := y\<rparr>) = publish m" "publish (m\<lparr>mg_state := st\<rparr>) = publish m"
  "publish (m\<lparr>mg_rt := rt\<rparr>) = publish m" "publish (m\<lparr>mg_closing := a\<rparr>) = publish m" "publish (m\<lparr>mg_stop := a\<rparr>) = publish m"
  by (simp_all add: publish_def fun_eq_iff)

lemma publish_facts [simp]:
  "cp_Ready (publish m c g b) = b" "cp_Generation (publish m c g b) = g"
  by (simp_all add: publish_def zero_capability_def)

lemma loop_step_inv:
  assumes "loop_step m p m'" and "manager_inv n tc m entry"
    and "n' = (if \<exists>cap g. mg_phase m' = Counted cap g then n + 1 else n)" and "n' < 2 ^ 64"
    and "\<forall>cap. mg_phase m' = Dialled cap \<longrightarrow> (\<exists>d. dialTransport tc d = (Inr cap, False))"
  shows "manager_inv n' tc m' (case p of None \<Rightarrow> entry | Some cap \<Rightarrow> callback_entry cap entry)"
  using assms
proof (induction rule: loop_step.induct)
  case (counted m c)
  then have n: "unat (mg_generation m) + 1 < 2 ^ 64" by (simp add: manager_inv_def)
  have g: "cp_Generation d < mg_generation m + 1" if "entry = Some d" for d
    using generation_less [OF n] counted(2) that by (simp add: manager_inv_def)
  have le: "x < y \<Longrightarrow> x \<le> y" for x y :: "64 word" by simp
  from counted generation_suc [OF n] g show ?case
    by (auto simp: manager_inv_def intro: le)
next
  case (announce m c g)
  then have "entry = Some d \<Longrightarrow> cp_Generation d < g" for d unfolding manager_inv_def by auto
  then have "callback_entry (publish m c g True) entry = Some (publish m c g True)"
    by (auto simp: callback_entry_def split: option.split)
  with announce show ?case by (simp add: manager_inv_def)
next
  case (withdraw_stop m c g)
  then have "entry = Some (publish m c g True)" by (simp add: manager_inv_def)
  with withdraw_stop show ?case by (auto simp: manager_inv_def callback_entry_def)
next
  case (withdraw_lost m c g)
  then have "entry = Some (publish m c g True)" by (simp add: manager_inv_def)
  with withdraw_lost show ?case by (auto simp: manager_inv_def callback_entry_def)
qed (auto simp: manager_inv_def mg_set_def)

lemma close_step_inv: "close_step m m' \<Longrightarrow> manager_inv n tc m entry \<Longrightarrow> manager_inv n tc m' entry"
  by (induction rule: close_step.induct) (simp_all add: manager_inv_def mg_set_def)

lemma manager_inv_mono: "manager_inv n tc m e \<Longrightarrow> n \<le> n' \<Longrightarrow> manager_inv n' tc m e"
  by (simp add: manager_inv_def)

lemma registry_run_inv: "registry_run c n st \<Longrightarrow> n < 2 ^ 64 \<Longrightarrow> registry_inv c n st"
proof (induction rule: registry_run.induct)
  case built
  show ?case
    by (simp add: registry_inv_def BuildRegistry_def manager_inv_def SetCapabilityCallback_def SetName_def manager_New_def Let_def)
next
  case (looped n st i p m tc)
  let ?n = "if \<exists>cap g. mg_phase m = Counted cap g then n + 1 else n"
  have le: "n \<le> ?n" by simp
  then have "n < 2 ^ 64" using looped.prems by (rule le_less_trans)
  with looped.IH have inv: "registry_inv c n st" .
  let ?ps = "case p of None \<Rightarrow> rg_table st | Some cap \<Rightarrow> callback i cap (rg_table st)"
  have own: "map_of ?ps i = (case p of None \<Rightarrow> map_of (rg_table st) i | Some cap \<Rightarrow> callback_entry cap (map_of (rg_table st) i))"
    by (simp add: callback_own split: option.split)
  have other: "k \<noteq> i \<Longrightarrow> map_of ?ps k = map_of (rg_table st) k" for k
    by (simp add: callback_keys(3) split: option.split)
  have keys: "distinct (map fst ?ps)" "fst ` set ?ps \<subseteq> {..<length (rg_managers st)}"
  proof -
    have "distinct (map fst (rg_table st))" "fst ` set (rg_table st) \<subseteq> {..<length (rg_managers st)}"
      using inv unfolding registry_inv_def by blast+
    then show "distinct (map fst ?ps)" "fst ` set ?ps \<subseteq> {..<length (rg_managers st)}"
      using callback_keys(1) [of "rg_table st" i] callback_keys(2) [OF looped.hyps(2), of "rg_table st"]
      by (cases p; simp)+
  qed
  have i: "manager_inv ?n (transport_of c (rc_Peers c ! i)) m (map_of ?ps i)"
    unfolding own
    by (rule loop_step_inv [OF looped.hyps(3) _ refl looped.prems])
      (use inv looped.hyps in \<open>simp_all add: registry_inv_def\<close>)
  have "manager_inv ?n (transport_of c (rc_Peers c ! k)) ((rg_managers st)[i := m] ! k) (map_of ?ps k)"
    if "k < length (rg_managers st)" for k
  proof (cases "k = i")
    case True
    with i that show ?thesis by simp
  next
    case False
    have "manager_inv n (transport_of c (rc_Peers c ! k)) (rg_managers st ! k) (map_of (rg_table st) k)"
      using inv that by (simp add: registry_inv_def)
    from manager_inv_mono [OF this le] False other [of k] show ?thesis by simp
  qed
  with keys inv show ?case by (simp add: registry_inv_def)
next
  case (closed n st i m)
  then have inv: "registry_inv c n st" by simp
  have "manager_inv n (transport_of c (rc_Peers c ! k)) ((rg_managers st)[i := m] ! k) (map_of (rg_table st) k)"
    if "k < length (rg_managers st)" for k
    using inv closed.hyps that close_step_inv by (cases "k = i") (auto simp: registry_inv_def)
  with inv show ?case unfolding registry_inv_def by auto
qed

text \<open>Only a manager that \<open>Close\<close> was called on ever closes its connection of its own accord.\<close>

definition stop_ok :: "manager \<Rightarrow> bool" where
  "stop_ok m \<longleftrightarrow> (mg_stop m \<longrightarrow> mg_closing m) \<and> (\<forall>cap g. mg_phase m = Closing cap g \<longrightarrow> mg_stop m)"

lemma loop_stop_ok: "loop_step m p m' \<Longrightarrow> stop_ok m \<Longrightarrow> stop_ok m'"
  by (induction rule: loop_step.induct) (simp_all add: stop_ok_def mg_set_def)

lemma close_stop_ok: "close_step m m' \<Longrightarrow> stop_ok m \<Longrightarrow> stop_ok m'"
  by (induction rule: close_step.induct) (auto simp: stop_ok_def mg_set_def)

lemma registry_run_stop: "registry_run c n st \<Longrightarrow> \<forall>m \<in> set (rg_managers st). stop_ok m"
proof (induction rule: registry_run.induct)
  case built
  show ?case
    by (auto simp: BuildRegistry_def stop_ok_def Let_def SetCapabilityCallback_def SetName_def manager_New_def)
next
  case (looped n st i p m tc)
  then have "stop_ok m" using loop_stop_ok by simp
  with looped.IH show ?case using set_update_subset_insert by fastforce
next
  case (closed n st i m)
  then have "stop_ok m" using close_stop_ok by simp
  with closed.IH show ?case using set_update_subset_insert by fastforce
qed


section \<open>Sample runs\<close>

definition sample_registry :: registry_config where
  "sample_registry = \<lparr>rc_OriginHost = ''g'', rc_OriginRealm = ''r'', rc_HostIP = Some [127, 0, 0, 1], rc_ConnectTimeout = 1,
     rc_ReconnectMin = second, rc_ReconnectMax = 30 * second, rc_WatchdogInterval = 1, rc_WatchdogTimeout = 1,
     rc_Peers = [\<lparr>pe_Name = ''d'', pe_Address = ''a'', pe_Transport = ''tcp'', pe_ExpectedOriginHost = [], pe_ExpectedOriginRealm = []\<rparr>],
     rc_RequestHandlers = []\<rparr>"

definition sample_relay :: capability where
  "sample_relay = zero_capability\<lparr>cp_OriginHost := ''dra'', cp_OriginRealm := ''r'', cp_Relay := True, cp_Applications := {RelayApplicationID}\<rparr>"

lemma sample_relay_dialled: "\<exists>d. dialTransport (transport_of sample_registry (rc_Peers sample_registry ! 0)) d = (Inr sample_relay, False)"
  by (rule exI [of _ "Connection (Some \<lparr>pm_OriginHost = ''dra'', pm_OriginRealm = ''r'', pm_Applications = [RelayApplicationID]\<rparr>)"])
    (simp add: dialTransport_def transport_Validate_def transport_of_def sample_registry_def sample_relay_def zero_capability_def)

lemma run_one:
  assumes "registry_run sample_registry n \<lparr>rg_table = ps, rg_managers = [m]\<rparr>" and "loop_step m p m'"
    and "\<forall>cap. mg_phase m' = Dialled cap \<longrightarrow> cap = sample_relay"
  shows "registry_run sample_registry (if \<exists>cap g. mg_phase m' = Counted cap g then n + 1 else n)
    \<lparr>rg_table = (case p of None \<Rightarrow> ps | Some cap \<Rightarrow> callback 0 cap ps), rg_managers = [m']\<rparr>"
proof -
  have d: "\<forall>cap. mg_phase m' = Dialled cap \<longrightarrow>
      (\<exists>d. dialTransport (transport_of sample_registry (rc_Peers sample_registry ! 0)) d = (Inr cap, False))"
    using assms(3) sample_relay_dialled by blast
  have "loop_step (rg_managers \<lparr>rg_table = ps, rg_managers = [m]\<rparr> ! 0) p m'" using assms(2) by simp
  note l = looped [OF assms(1) _ this refl d]
  show ?thesis
    by (cases "\<exists>cap g. mg_phase m' = Counted cap g"; cases p) (use l in simp_all)
qed

lemma run_close:
  assumes "registry_run sample_registry n \<lparr>rg_table = ps, rg_managers = [m]\<rparr>" and "close_step m m'"
  shows "registry_run sample_registry n \<lparr>rg_table = ps, rg_managers = [m']\<rparr>"
  using closed [OF assms(1), of 0 m'] assms(2) by simp

definition sample_manager :: manager where
  "sample_manager = \<lparr>mg_cfg = \<lparr>pc_ReconnectMin = second, pc_ReconnectMax = 30 * second\<rparr>, mg_name = ''d'', mg_address = ''a'',
     mg_transport = ''tcp'', mg_state = StateDown, mg_rt = None, mg_closing = False, mg_stop = False, mg_generation = 0,
     mg_delay = second, mg_phase = AtTop\<rparr>"

lemma sample_built: "registry_run sample_registry 0 \<lparr>rg_table = [], rg_managers = [sample_manager]\<rparr>"
  using built [of sample_registry]
  by (simp add: BuildRegistry_def sample_registry_def manager_New_def SetName_def SetCapabilityCallback_def sample_manager_def)

text \<open>The first connection is being dialled, and has been announced.\<close>

lemma sample_dialing:
  "registry_run sample_registry 0 \<lparr>rg_table = [], rg_managers = [sample_manager\<lparr>mg_state := StateConnecting, mg_phase := Dialing\<rparr>]\<rparr>"
proof -
  have "registry_run sample_registry 0 \<lparr>rg_table = [], rg_managers = [sample_manager\<lparr>mg_phase := Checked\<rparr>]\<rparr>"
    using run_one [OF sample_built go_on] by (simp add: sample_manager_def)
  from run_one [OF this connecting] show ?thesis by (simp add: mg_set_def sample_manager_def)
qed

lemma run_up:
  assumes "registry_run sample_registry 0 \<lparr>rg_table = [], rg_managers = [m]\<rparr>" and "mg_phase m = Dialing" and "mg_generation m = 0"
  shows "registry_run sample_registry 1 \<lparr>rg_table = [(0, publish m sample_relay 1 True)],
    rg_managers = [m\<lparr>mg_generation := 1, mg_state := StateReady, mg_rt := Some sample_relay,
      mg_delay := pc_ReconnectMin (mg_cfg m), mg_phase := Up sample_relay 1\<rparr>]\<rparr>"
proof -
  have "registry_run sample_registry 0 \<lparr>rg_table = [], rg_managers = [m\<lparr>mg_phase := Dialled sample_relay\<rparr>]\<rparr>"
    using run_one [OF assms(1) dial_ok [OF assms(2)], of sample_relay] by simp
  from run_one [OF this counted [of _ sample_relay]] have "registry_run sample_registry 1 \<lparr>rg_table = [],
      rg_managers = [m\<lparr>mg_generation := 1, mg_phase := Counted sample_relay 1\<rparr>]\<rparr>" by (simp add: assms(3))
  from run_one [OF this ready [of _ sample_relay 1]] have "registry_run sample_registry 1 \<lparr>rg_table = [],
      rg_managers = [m\<lparr>mg_generation := 1, mg_state := StateReady, mg_rt := Some sample_relay, mg_phase := Announcing sample_relay 1\<rparr>]\<rparr>"
    by (simp add: mg_set_def)
  from run_one [OF this announce [of _ sample_relay 1]] show ?thesis by (simp add: callback_def)
qed


section \<open>Reconnection\<close>

definition delay_ok :: "manager \<Rightarrow> bool" where
  "delay_ok m \<longleftrightarrow> (let mn = pc_ReconnectMin (mg_cfg m); mx = pc_ReconnectMax (mg_cfg m) in
     0 < mn \<and> (mx < 2 ^ 62 \<longrightarrow> mn \<le> mg_delay m \<and> mg_delay m \<le> max mn mx))"

lemma next_delay_ok: "delay_ok m \<Longrightarrow> delay_ok (m\<lparr>mg_delay := next_delay m, mg_phase := p\<rparr>)"
proof -
  assume d: "delay_ok m"
  have "swrap64 (mg_delay m * 2) = mg_delay m * 2" if "pc_ReconnectMax (mg_cfg m) < 2 ^ 62" "mg_delay m < pc_ReconnectMax (mg_cfg m)"
    using d that by (intro swrap64_id) (simp_all add: delay_ok_def Let_def)
  then show ?thesis using d by (auto simp: delay_ok_def next_delay_def Let_def)
qed

lemma registry_run_delay: "registry_run c n st \<Longrightarrow> \<forall>m \<in> set (rg_managers st). delay_ok m"
proof (induction rule: registry_run.induct)
  case built
  show ?case
    by (auto simp: BuildRegistry_def delay_ok_def Let_def SetCapabilityCallback_def SetName_def manager_New_def)
next
  case (looped n st i p m tc)
  then have o: "delay_ok (rg_managers st ! i)" by simp
  have "delay_ok m" using looped.hyps(3) o
    by (induction rule: loop_step.induct) (auto simp: next_delay_ok, auto simp: delay_ok_def mg_set_def Let_def)
  with looped.IH show ?case using set_update_subset_insert by fastforce
next
  case (closed n st i m)
  then have o: "delay_ok (rg_managers st ! i)" by simp
  have "delay_ok m" using closed.hyps(3) o
    by (induction rule: close_step.induct) (simp_all add: delay_ok_def mg_set_def)
  with closed.IH show ?case using set_update_subset_insert by fastforce
qed

text \<open>
  The pause before a reconnection is always between the configured bounds, in every reachable state of
  every manager, for maxima below 2^62 nanoseconds.
\<close>

theorem reconnect_delay_bounds:
  assumes "registry_run c n st" and "m \<in> set (rg_managers st)" and "pc_ReconnectMax (mg_cfg m) < 2 ^ 62"
  shows "0 < pc_ReconnectMin (mg_cfg m) \<and> pc_ReconnectMin (mg_cfg m) \<le> mg_delay m
    \<and> mg_delay m \<le> max (pc_ReconnectMin (mg_cfg m)) (pc_ReconnectMax (mg_cfg m))"
  using registry_run_delay [OF assms(1)] assms(2,3) by (auto simp: delay_ok_def Let_def)

theorem reconnect_delay_bounds_witness: "0 < mg_delay sample_manager"
  using reconnect_delay_bounds [OF sample_built, of sample_manager] by (simp add: sample_manager_def)

text \<open>
  Closing a manager while it dials leaves it in the state \<open>ready\<close> after its loop has ended: the loop sets that
  state after \<open>Close\<close> has set \<open>stopping\<close>, and nothing resets it, so that a later \<open>RoundTrip\<close> goes to the closed
  connection instead of being refused with \<open>ErrShutdown\<close>.
\<close>

theorem closed_manager_ready:
  "\<exists>st. registry_run sample_registry 1 st \<and> mg_phase (rg_managers st ! 0) = Done \<and> mg_stop (rg_managers st ! 0)
     \<and> manager_Ready (rg_managers st ! 0) \<and> manager_RoundTrip (rg_managers st ! 0) = Inr sample_relay"
proof -
  let ?m = "sample_manager\<lparr>mg_state := StateStopping, mg_phase := Dialing, mg_closing := True, mg_stop := True\<rparr>"
  have "registry_run sample_registry 0 \<lparr>rg_table = [], rg_managers = [sample_manager\<lparr>mg_state := StateStopping, mg_phase := Dialing, mg_closing := True\<rparr>]\<rparr>"
    using run_close [OF sample_dialing close_set] by (simp add: sample_manager_def mg_set_def)
  from run_close [OF this close_stop] have "registry_run sample_registry 0 \<lparr>rg_table = [], rg_managers = [?m]\<rparr>"
    by (simp add: sample_manager_def)
  from run_up [OF this] have up: "registry_run sample_registry 1 \<lparr>rg_table = [(0, publish ?m sample_relay 1 True)],
    rg_managers = [?m\<lparr>mg_generation := 1, mg_state := StateReady, mg_rt := Some sample_relay, mg_phase := Up sample_relay 1\<rparr>]\<rparr>"
    by (simp add: sample_manager_def)
  from run_one [OF up stop_up [of _ sample_relay 1]] have cl: "registry_run sample_registry 1 \<lparr>rg_table = [(0, publish ?m sample_relay 1 True)],
    rg_managers = [?m\<lparr>mg_generation := 1, mg_state := StateReady, mg_rt := Some sample_relay, mg_phase := Closing sample_relay 1\<rparr>]\<rparr>"
    by (simp add: sample_manager_def)
  let ?d = "?m\<lparr>mg_generation := 1, mg_state := StateReady, mg_rt := Some sample_relay, mg_phase := Done\<rparr>"
  from run_one [OF cl withdraw_stop [of _ sample_relay 1]] obtain ps where
    "registry_run sample_registry 1 \<lparr>rg_table = ps, rg_managers = [?d]\<rparr>" by (auto simp: sample_manager_def)
  then show ?thesis
    by (intro exI [of _ "\<lparr>rg_table = ps, rg_managers = [?d]\<rparr>"])
      (simp add: manager_Ready_def manager_RoundTrip_def)
qed

end
