(* ===== verification/GMLC_Main.thy ===== *)
theory GMLC_Main
  imports GMLC_Config GMLC_Workers GMLC_Lrr GMLC_Peers
begin

text \<open>
  \<open>cmd/gmlc/main.go\<close>: what a start does to the store, how the components are built from the
  configuration, and the recurring purge.  The exits before that and the shutdown are in \<open>GMLC_Process\<close>.
  SHA-256, AES-GCM and the parsers of addresses and URLs are arguments.
\<close>

section \<open>Start\<close>

datatype exit_reason =
    ClientBootstrapFailed string | RecoveryFailed | PurgeFailed | LRRSetupFailed | DeliveryConfigurationFailed
  | SLhSetupFailed | SLgSetupFailed | DeliveryPanic

definition storage_client :: "(bytes \<Rightarrow> bytes) \<Rightarrow> cfg_client \<Rightarrow> client" where
  "storage_client sha256 c = \<lparr>c_ID = cc_ID c, c_CredentialHash = HashToken sha256 (cc_BearerToken c), c_Services = cc_Services c,
     c_TargetPrefixes = cc_TargetPrefixes c, c_Enabled = True, c_LCSClientType = ClientTypeValue c,
     c_LCSPrivacyCheck = PrivacyCheckValue c\<rparr>"

fun boot_clients :: "(bytes \<Rightarrow> bytes) \<Rightarrow> env \<Rightarrow> nat \<Rightarrow> cfg_client list \<Rightarrow> db \<Rightarrow> exit_reason option \<times> db" where
  "boot_clients sha256 E k [] db = (None, db)"
| "boot_clients sha256 E k (c # cs) db =
     (case UpsertClient (e_fault E k) (e_now E k) (storage_client sha256 c) (e_gap E k db) of
        (Inl _, db) \<Rightarrow> (Some (ClientBootstrapFailed (cc_ID c)), db)
      | (Inr _, db) \<Rightarrow> boot_clients sha256 E (k + 1) cs db)"

definition boot :: "(bytes \<Rightarrow> bytes) \<Rightarrow> config \<Rightarrow> env \<Rightarrow> db \<Rightarrow> exit_reason option \<times> db" where
  "boot sha256 cfg E db =
     (case boot_clients sha256 E 0 (cf_Clients cfg) db of
        (Some e, db) \<Rightarrow> (Some e, db)
      | (None, db) \<Rightarrow>
     (let k = length (cf_Clients cfg) in
      case Recover (e_fault E k) (e_now E k) (e_gap E k db) of
        (Inl _, db) \<Rightarrow> (Some RecoveryFailed, db)
      | (Inr _, db) \<Rightarrow>
          (case Purge (e_fault E (k + 1)) (e_now E (k + 1) - re_Request (cf_Retention cfg))
                  (e_now E (k + 2) - re_Result (cf_Retention cfg)) (e_gap E (k + 1) db) of
             (Inl _, db) \<Rightarrow> (Some PurgeFailed, db)
           | (Inr _, db) \<Rightarrow> (None, db))))"

section \<open>Building the components\<close>

text \<open>The code outside the repository that the components are built with; \<open>sy_nonce\<close> is the random source.\<close>

record system =
  sy_sha256 :: "bytes \<Rightarrow> bytes"
  sy_aead :: aead
  sy_nonce :: "bytes option"
  sy_ParseIP :: "string \<Rightarrow> bytes option"
  sy_parse_url :: "string \<Rightarrow> (string \<times> string) option"

definition registry_of :: "system \<Rightarrow> config \<Rightarrow> registry_config" where
  "registry_of sys cfg = (let d = cf_Diameter cfg in
     \<lparr>rc_OriginHost = di_OriginHost d, rc_OriginRealm = di_OriginRealm d, rc_HostIP = sy_ParseIP sys (di_HostIPAddress d),
      rc_ConnectTimeout = di_ConnectionTimeout d, rc_ReconnectMin = di_ReconnectMin d, rc_ReconnectMax = di_ReconnectMax d,
      rc_WatchdogInterval = di_WatchdogInterval d, rc_WatchdogTimeout = di_WatchdogTimeout d,
      rc_Peers = map (\<lambda>p. \<lparr>pe_Name = dp_Name p, pe_Address = dp_Address p, pe_Transport = dp_Transport p,
        pe_ExpectedOriginHost = dp_ExpectedOriginHost p, pe_ExpectedOriginRealm = dp_ExpectedOriginRealm p\<rparr>) (di_Peers d),
      rc_RequestHandlers = (if cf_LRR_Enabled cfg then [(slg_ApplicationID, CommandLocationReport)] else [])\<rparr>)"

text \<open>The report handler's codec and pusher, when reports are enabled.\<close>

definition lrr_of :: "config \<Rightarrow> exit_reason + (slg_config \<times> pusher option) option" where
  "lrr_of cfg =
     (if \<not> cf_LRR_Enabled cfg then Inr None
      else case slg_New \<lparr>gc_OriginHost = di_OriginHost (cf_Diameter cfg), gc_OriginRealm = di_OriginRealm (cf_Diameter cfg),
             gc_RequestTimeout = 0\<rparr> of
        None \<Rightarrow> Inl LRRSetupFailed
      | Some enc \<Rightarrow>
          (let r = cf_MLPReporting cfg in
           Inr (Some (enc, if mre_Enabled r then Some (NewPusher (mre_StandardReportURL r) (mre_StandardReportClientID r)
             (mre_EmergencyReportURL r) (mre_EmergencyReportClientID r)) else None))))"

text \<open>The key is resolved once, for the service and for the delivery worker.\<close>

definition deliveryKey :: "config \<Rightarrow> exit_reason + bytes option" where
  "deliveryKey cfg =
     (if \<not> cd_Enabled (cf_Delivery cfg) then Inr None
      else case EncryptionKeyBytes (cf_Delivery cfg) of
        Inl _ \<Rightarrow> Inl DeliveryConfigurationFailed
      | Inr key \<Rightarrow> Inr (Some key))"

definition encryptor :: "system \<Rightarrow> bytes \<Rightarrow> bytes \<Rightarrow> bytes option" where
  "encryptor sys key secret = (case EncryptSecret (sy_aead sys) (sy_nonce sys) key secret of Inl _ \<Rightarrow> None | Inr c \<Rightarrow> Some c)"

text \<open>The service, with its encryptor when there is a key, and the two hooks of the worker.\<close>

definition service_of :: "system \<Rightarrow> bytes option \<Rightarrow> service" where
  "service_of sys key =
     SetCancelHook (SetQueuedHook (case key of
        None \<Rightarrow> service_New (sy_sha256 sys) (sy_parse_url sys)
      | Some k \<Rightarrow> SetSecretEncryptor (encryptor sys k) (service_New (sy_sha256 sys) (sy_parse_url sys))))"

definition delivery_of :: "config \<Rightarrow> bytes option \<Rightarrow> exit_reason + delivery_config option" where
  "delivery_of cfg key = (let d = cf_Delivery cfg in
     if \<not> cd_Enabled d then Inr None
     else case delivery_New \<lparr>dc_MaxAttempts = cd_MaxAttempts d, dc_RetryBackoffMin = cd_RetryBackoffMin d,
            dc_RetryBackoffMax = cd_RetryBackoffMax d, dc_RequestTimeout = cd_RequestTimeout d,
            dc_EncryptionKey = (case key of None \<Rightarrow> [] | Some k \<Rightarrow> k)\<rparr> of
        None \<Rightarrow> Inl DeliveryPanic
      | Some w \<Rightarrow> Inr (Some w))"

record gmlc =
  gm_registry :: registry_config
  gm_lrr :: "(slg_config \<times> pusher option) option"
  gm_service :: service
  gm_resolver :: slh_config
  gm_provider :: slg_config
  gm_delivery :: "delivery_config option"
  gm_syncWaitDefault :: duration
  gm_syncWaitMax :: duration

definition build :: "system \<Rightarrow> config \<Rightarrow> exit_reason + gmlc" where
  "build sys cfg = (let d = cf_Diameter cfg in
     case lrr_of cfg of
       Inl e \<Rightarrow> Inl e
     | Inr reports \<Rightarrow>
     (case deliveryKey cfg of
        Inl e \<Rightarrow> Inl e
      | Inr key \<Rightarrow>
     (case slh_NewWithRegistry \<lparr>sc_OriginHost = di_OriginHost d, sc_OriginRealm = di_OriginRealm d, sc_DestinationRealm = di_HSSRealm d,
             sc_DestinationHost = di_HSSHost d, sc_RequestTimeout = di_RequestTimeout d, sc_Source = []\<rparr> True of
        None \<Rightarrow> Inl SLhSetupFailed
      | Some resolver \<Rightarrow>
     (case slg_NewWithRegistry \<lparr>gc_OriginHost = di_OriginHost d, gc_OriginRealm = di_OriginRealm d,
             gc_RequestTimeout = di_RequestTimeout d\<rparr> True of
        None \<Rightarrow> Inl SLgSetupFailed
      | Some provider \<Rightarrow>
     (case delivery_of cfg key of
        Inl e \<Rightarrow> Inl e
      | Inr deliveryWorker \<Rightarrow>
          Inr \<lparr>gm_registry = registry_of sys cfg, gm_lrr = reports, gm_service = service_of sys key, gm_resolver = resolver,
            gm_provider = provider, gm_delivery = deliveryWorker, gm_syncWaitDefault = ml_SyncWaitTimeout (cf_MLP cfg),
            gm_syncWaitMax = ml_MaxSyncWaitTimeout (cf_MLP cfg)\<rparr>)))))"

section \<open>The recurring purge\<close>

text \<open>Each tick: the clock, whether the purge fails, and what the others did before it; the end of the list is the stop.\<close>

fun runRetentionPurge :: "retention \<Rightarrow> (time \<times> bool \<times> (db \<Rightarrow> db)) list \<Rightarrow> db \<Rightarrow> db" where
  "runRetentionPurge r [] db = db"
| "runRetentionPurge r ((now, fault, gap) # ticks) db =
     runRetentionPurge r ticks (snd (Purge fault (now - re_Request r) (now - re_Result r) (gap db)))"

section \<open>The clients of the store\<close>

text \<open>What authentication reads of a client: its row, and its services and prefixes.\<close>

definition grants :: "db \<Rightarrow> string \<Rightarrow> (store_error + client) \<times> (store_error + string list \<times> string list)" where
  "grants db i = (GetClientCredential False i db, GetClientAuthzData False i db)"

lemma Authenticate_grants:
  assumes "undisturbed E" and "grants db i = grants db0 i"
  shows "fst (Authenticate sha256 E k i token db) = fst (Authenticate sha256 E k i token db0)"
  using assms by (auto simp: Authenticate_def grants_def Let_def split: sum.splits prod.splits)

lemma insert_values_distinct:
  "insert_values c vs tbl = (if distinct vs \<and> (\<forall>v \<in> set vs. (c, v) \<notin> set tbl) then Some (tbl @ map (Pair c) vs) else None)"
  by (induction vs arbitrary: tbl) auto

lemma filter_Pair: "filter (\<lambda>p. fst p = i) (map (Pair c) vs) = (if c = i then map (Pair c) vs else [])"
  by (induction vs) auto

lemma filter_other: "i \<noteq> c \<Longrightarrow> filter (\<lambda>p. fst p = i) (filter (\<lambda>p. fst p \<noteq> c) ps) = filter (\<lambda>p. fst p = i) ps"
  by (induction ps) auto

lemma filter_own: "filter (\<lambda>p. fst p = c) (filter (\<lambda>p. fst p \<noteq> c) ps) = []"
  by (induction ps) auto

lemma upsert_row_own:
  "\<exists>r. row_by cl_id (c_ID c) (upsert_client_row c now rows) = Some r \<and> cl_id r = c_ID c \<and> cl_credential_hash r = c_CredentialHash c
     \<and> cl_enabled r = boolInt (c_Enabled c) \<and> cl_lcs_client_type r = c_LCSClientType c
     \<and> cl_lcs_privacy_check r = c_LCSPrivacyCheck c"
proof (cases "row_by cl_id (c_ID c) rows")
  case None
  then show ?thesis by (simp add: upsert_client_row_def row_by_append)
next
  case (Some r)
  then have "cl_id r = c_ID c" by (rule row_by_Some [THEN conjunct2])
  with Some show ?thesis by (simp add: upsert_client_row_def set_client.row_after) (simp add: set_client_def)
qed

lemma upsert_row_other:
  assumes "i \<noteq> c_ID c"
  shows "row_by cl_id i (upsert_client_row c now rows) = row_by cl_id i rows"
proof (cases "row_by cl_id (c_ID c) rows")
  case None
  then show ?thesis using assms by (simp add: upsert_client_row_def row_by_append split: option.splits)
next
  case (Some r)
  then show ?thesis using assms row_by_Some [of cl_id i rows]
    by (cases "row_by cl_id i rows") (auto simp: upsert_client_row_def set_client.row_after)
qed

text \<open>A client whose grants are distinct is stored as given, and nobody else's grants change; otherwise nothing is stored.\<close>

lemma UpsertClient_grants:
  assumes "distinct (c_Services c)" and "distinct (c_TargetPrefixes c)" and "UpsertClient False now c db = (r, db')"
  shows "r = Inr ()"
    and "grants db' (c_ID c) = (Inr (c\<lparr>c_Services := [], c_TargetPrefixes := []\<rparr>), Inr (c_Services c, c_TargetPrefixes c))"
    and "i \<noteq> c_ID c \<Longrightarrow> grants db' i = grants db i"
proof -
  define svc where "svc = filter (\<lambda>p. fst p \<noteq> c_ID c) (client_services db) @ map (Pair (c_ID c)) (c_Services c)"
  define pre where "pre = filter (\<lambda>p. fst p \<noteq> c_ID c) (client_target_prefixes db) @ map (Pair (c_ID c)) (c_TargetPrefixes c)"
  define rows where "rows = upsert_client_row c (utc now) (lcs_clients db)"
  have e: "(r, db') = (Inr (), db\<lparr>lcs_clients := rows, client_services := svc, client_target_prefixes := pre\<rparr>)"
    using assms unfolding UpsertClient_def svc_def pre_def rows_def
    by (simp add: transact_def Let_def insert_values_distinct)
  then show "r = Inr ()" by simp
  obtain q where q: "row_by cl_id (c_ID c) rows = Some q" "cl_id q = c_ID c" "cl_credential_hash q = c_CredentialHash c"
    "cl_enabled q = boolInt (c_Enabled c)" "cl_lcs_client_type q = c_LCSClientType c"
    "cl_lcs_privacy_check q = c_LCSPrivacyCheck c"
    using upsert_row_own unfolding rows_def by metis
  show "grants db' (c_ID c) = (Inr (c\<lparr>c_Services := [], c_TargetPrefixes := []\<rparr>), Inr (c_Services c, c_TargetPrefixes c))"
    using e q by (simp add: grants_def GetClientCredential_def GetClientAuthzData_def svc_def pre_def filter_own filter_Pair
        comp_def boolInt_def)
  show "grants db' i = grants db i" if "i \<noteq> c_ID c"
  proof -
    have "row_by cl_id i rows = row_by cl_id i (lcs_clients db)" unfolding rows_def by (rule upsert_row_other [OF that])
    moreover have "filter (\<lambda>p. fst p = i) svc = filter (\<lambda>p. fst p = i) (client_services db)"
      "filter (\<lambda>p. fst p = i) pre = filter (\<lambda>p. fst p = i) (client_target_prefixes db)"
      using that by (simp_all add: svc_def pre_def filter_other filter_Pair del: filter_filter)
    ultimately show ?thesis using e by (simp add: grants_def GetClientCredential_def GetClientAuthzData_def)
  qed
qed

section \<open>A start\<close>

lemma sample_config_clients:
  "cf_Clients (applyDefaults sample_config) = [\<lparr>cc_ID = ''c'', cc_BearerToken = ''t'', cc_Services = [''location.immediate''],
     cc_TargetPrefixes = [''1''], cc_LCSClientType = ''value_added_services'', cc_LCSPrivacyCheck = ''allowed_without_notification''\<rparr>]"
  by (simp add: applyDefaults_def sample_config_def client_defaults_def)

definition stored :: "(bytes \<Rightarrow> bytes) \<Rightarrow> cfg_client \<Rightarrow> (store_error + client) \<times> (store_error + string list \<times> string list)" where
  "stored sha256 c = (Inr ((storage_client sha256 c)\<lparr>c_Services := [], c_TargetPrefixes := []\<rparr>), Inr (cc_Services c, cc_TargetPrefixes c))"

definition distinct_grants :: "cfg_client \<Rightarrow> bool" where
  "distinct_grants c \<longleftrightarrow> distinct (cc_Services c) \<and> distinct (cc_TargetPrefixes c)"

lemma boot_clients_grants:
  assumes "undisturbed E" and "distinct (map cc_ID cs)" and "\<forall>c \<in> set cs. distinct_grants c"
  shows "\<exists>db'. boot_clients sha256 E k cs db = (None, db') \<and> (\<forall>c \<in> set cs. grants db' (cc_ID c) = stored sha256 c)
    \<and> (\<forall>i. i \<notin> cc_ID ` set cs \<longrightarrow> grants db' i = grants db i)"
  using assms(2,3)
proof (induction cs arbitrary: k db)
  case (Cons c cs)
  obtain r db1 where u: "UpsertClient False (e_now E k) (storage_client sha256 c) db = (r, db1)" by force
  have g: "distinct (c_Services (storage_client sha256 c))" "distinct (c_TargetPrefixes (storage_client sha256 c))"
    using Cons.prems by (simp_all add: storage_client_def distinct_grants_def)
  have r: "r = Inr ()" by (rule UpsertClient_grants(1) [OF g u])
  have own: "grants db1 (cc_ID c) = stored sha256 c"
    using UpsertClient_grants(2) [OF g u] by (simp add: stored_def storage_client_def)
  have other: "grants db1 i = grants db i" if "i \<noteq> cc_ID c" for i
    using UpsertClient_grants(3) [OF g u] that by (simp add: storage_client_def)
  from Cons.IH [of "k + 1" db1] Cons.prems obtain db' where
    db': "boot_clients sha256 E (k + 1) cs db1 = (None, db')" "\<forall>c \<in> set cs. grants db' (cc_ID c) = stored sha256 c"
    "\<forall>i. i \<notin> cc_ID ` set cs \<longrightarrow> grants db' i = grants db1 i" by auto
  have "boot_clients sha256 E k (c # cs) db = (None, db')" using u r db'(1) assms(1) by simp
  with db' own other Cons.prems(1) show ?case by auto
qed simp

lemma Recover_grants: "Recover fault now db = (r, db') \<Longrightarrow> grants db' i = grants db i"
  by (cases fault) (auto simp: Recover_def update_requests_def grants_def GetClientCredential_def GetClientAuthzData_def)

lemma Purge_grants: "Purge fault b rb db = (r, db') \<Longrightarrow> grants db' i = grants db i"
  by (cases fault) (auto simp: Purge_def Let_def grants_def GetClientCredential_def GetClientAuthzData_def)

text \<open>
  What authentication answers for a configured client: with a token of the configured hash, a client that has
  what the configuration says of it, and with any other token nothing.
\<close>

definition as_configured :: "cfg_client \<Rightarrow> client \<Rightarrow> bool" where
  "as_configured c cl \<longleftrightarrow> c_ID cl = cc_ID c \<and> c_Enabled cl \<and> c_Services cl = cc_Services c \<and> c_TargetPrefixes cl = cc_TargetPrefixes c
     \<and> map_of clientTypeValues (cc_LCSClientType c) = Some (c_LCSClientType cl)
     \<and> map_of privacyCheckValues (cc_LCSPrivacyCheck c) = Some (c_LCSPrivacyCheck cl)"

definition admitted :: "(bytes \<Rightarrow> bytes) \<Rightarrow> cfg_client \<Rightarrow> db \<Rightarrow> bool" where
  "admitted sha256 c db \<longleftrightarrow> (\<forall>E k token. undisturbed E \<longrightarrow>
     (if HashToken sha256 token = HashToken sha256 (cc_BearerToken c)
      then \<exists>cl. Authenticate sha256 E k (cc_ID c) token db = (Inr cl, db) \<and> as_configured c cl
      else Authenticate sha256 E k (cc_ID c) token db = (Inl ErrUnauthenticated, db)))"

lemma storage_client_as_configured:
  assumes "client_ok c"
  shows "as_configured c (storage_client sha256 c)"
proof -
  from assms have "map_of clientTypeValues (cc_LCSClientType c) \<noteq> None" "map_of privacyCheckValues (cc_LCSPrivacyCheck c) \<noteq> None"
    by (simp_all add: client_ok_def map_of_eq_None_iff)
  then show ?thesis by (auto simp: as_configured_def storage_client_def ClientTypeValue_def PrivacyCheckValue_def)
qed

lemma stored_admitted:
  assumes "client_ok c" and "grants db (cc_ID c) = stored sha256 c"
  shows "admitted sha256 c db"
proof -
  have "Authenticate sha256 E k (cc_ID c) token db = (if HashToken sha256 token = HashToken sha256 (cc_BearerToken c)
      then (Inr (storage_client sha256 c), db) else (Inl ErrUnauthenticated, db))" if "undisturbed E" for E k token
    using that assms(2)
    by (simp add: Authenticate_def grants_def stored_def Let_def ConstantTimeCompare_eq) (auto simp: storage_client_def)
  with storage_client_as_configured [OF assms(1), of sha256] show ?thesis by (simp add: admitted_def)
qed

lemma admittedD:
  assumes "admitted sha256 c db" and "undisturbed E"
  shows "\<exists>cl. Authenticate sha256 E k (cc_ID c) (cc_BearerToken c) db = (Inr cl, db) \<and> as_configured c cl"
    and "HashToken sha256 token \<noteq> HashToken sha256 (cc_BearerToken c) \<Longrightarrow>
      Authenticate sha256 E k (cc_ID c) token db = (Inl ErrUnauthenticated, db)"
  using assms unfolding admitted_def by (metis (full_types))+

lemma not_before_seconds: "\<not> s < utc t \<Longrightarrow> t div second \<le> stamp_sec s"
  using stamp_le_seconds [of "utc t" s] by (simp add: stamp_sec_utc not_less)

lemma later_second: "t div second < stamp_sec s \<Longrightarrow> \<not> s < utc t"
  using stamp_le_seconds [of s "utc t"] order_less_imp_le [of s "utc t"] by (auto simp: stamp_sec_utc)

lemma boot_grants:
  assumes "undisturbed E" and "distinct (map cc_ID (cf_Clients cfg))" and "\<forall>c \<in> set (cf_Clients cfg). distinct_grants c"
  shows "\<exists>db'. boot sha256 cfg E db = (None, db') \<and> (\<forall>c \<in> set (cf_Clients cfg). grants db' (cc_ID c) = stored sha256 c)
    \<and> (\<forall>i. i \<notin> cc_ID ` set (cf_Clients cfg) \<longrightarrow> grants db' i = grants db i)
    \<and> (\<forall>q \<in> set (location_requests db'). \<not> interrupted q
         \<and> \<not> purgeable (utc (e_now E (length (cf_Clients cfg) + 1) - re_Request (cf_Retention cfg))) q)"
proof -
  define k where "k = length (cf_Clients cfg)"
  from boot_clients_grants [OF assms, of sha256 0 db] obtain db1 where
    db1: "boot_clients sha256 E 0 (cf_Clients cfg) db = (None, db1)"
    "\<forall>c \<in> set (cf_Clients cfg). grants db1 (cc_ID c) = stored sha256 c"
    "\<forall>i. i \<notin> cc_ID ` set (cf_Clients cfg) \<longrightarrow> grants db1 i = grants db i" by blast
  obtain r2 db2 where rec: "Recover False (e_now E k) db1 = (r2, db2)" by force
  obtain r3 db3 where pur: "Purge False (e_now E (k + 1) - re_Request (cf_Retention cfg))
      (e_now E (k + 2) - re_Result (cf_Retention cfg)) db2 = (r3, db3)" by force
  have r: "r2 = Inr ()" "r3 = Inr ()" using rec pur by (auto simp: Recover_def Purge_def Let_def)
  have "boot sha256 cfg E db = (None, db3)"
    using db1(1) rec pur r assms(1) by (simp add: boot_def Let_def k_def [symmetric])
  moreover have g: "grants db3 i = grants db1 i" for i
    using Recover_grants [OF rec] Purge_grants [OF pur] by simp
  moreover have "\<forall>q \<in> set (location_requests db2). \<not> interrupted q"
    using rec by (auto simp: Recover_def update_requests_def update_where_def interrupted_def set_recovered_def)
  then have "\<forall>q \<in> set (location_requests db3). \<not> interrupted q
      \<and> \<not> purgeable (utc (e_now E (k + 1) - re_Request (cf_Retention cfg))) q"
    using pur by (auto simp: Purge_def Let_def)
  ultimately show ?thesis using db1(2,3) unfolding k_def by auto
qed

lemma reachable_upsert: "reachable db \<Longrightarrow> UpsertClient f n c db = (r, db') \<Longrightarrow> reachable db'"
  by (rule reachable.step [OF _ store_step.upsert_client])

lemma reachable_recover: "reachable db \<Longrightarrow> Recover f n db = (r, db') \<Longrightarrow> reachable db'"
  by (rule reachable.step [OF _ store_step.recover])

lemma boot_clients_reachable:
  "alone E \<Longrightarrow> reachable db \<Longrightarrow> boot_clients sha256 E k cs db = (res, db') \<Longrightarrow> reachable db'"
proof (induction sha256 E k cs db arbitrary: res db' rule: boot_clients.induct)
  case (2 sha256 E k c cs db)
  obtain r db1 where u: "UpsertClient (e_fault E k) (e_now E k) (storage_client sha256 c) db = (r, db1)" by force
  have r1: "reachable db1" by (rule reachable_upsert [OF "2.prems"(2) u])
  show ?case
  proof (cases r)
    case (Inl e)
    with u "2.prems" have "db' = db1" by simp
    with r1 show ?thesis by simp
  next
    case (Inr x)
    with u "2.prems" have "boot_clients sha256 E (k + 1) cs db1 = (res, db')" by simp
    moreover have "UpsertClient (e_fault E k) (e_now E k) (storage_client sha256 c) (e_gap E k db) = (Inr x, db1)"
      using u Inr "2.prems"(1) by simp
    ultimately show ?thesis using "2.IH" [of "Inr x" db1 x, OF _ refl "2.prems"(1) r1] by simp
  qed
qed simp

text \<open>Whatever fails during a start, the store it leaves is one the operations reach.\<close>

lemma boot_reachable:
  assumes "alone E" and "reachable db" and "boot sha256 cfg E db = (res, db')"
  shows "reachable db'"
proof -
  define k where "k = length (cf_Clients cfg)"
  obtain r1 db1 where b: "boot_clients sha256 E 0 (cf_Clients cfg) db = (r1, db1)" by force
  have r1: "reachable db1" by (rule boot_clients_reachable [OF assms(1,2) b])
  obtain r2 db2 where rec: "Recover (e_fault E k) (e_now E k) db1 = (r2, db2)" by force
  have r2: "reachable db2" by (rule reachable_recover [OF r1 rec])
  obtain r3 db3 where pur: "Purge (e_fault E (k + 1)) (e_now E (k + 1) - re_Request (cf_Retention cfg))
      (e_now E (k + 2) - re_Result (cf_Retention cfg)) db2 = (r3, db3)" by force
  have r3: "reachable db3" by (rule reachable.step [OF r2 store_step.purge [OF UNIV_I pur]])
  have "(res, db') = (case r1 of Some e \<Rightarrow> (Some e, db1) | None \<Rightarrow>
      (case r2 of Inl _ \<Rightarrow> (Some RecoveryFailed, db2) | Inr _ \<Rightarrow>
         (case r3 of Inl _ \<Rightarrow> (Some PurgeFailed, db3) | Inr _ \<Rightarrow> (None, db3))))"
    unfolding assms(3) [symmetric] boot_def Let_def k_def [symmetric] b alone_gap [OF assms(1)] rec pur
    by (simp add: rec pur del: One_nat_def add_Suc_right add_2_eq_Suc' split: option.split sum.split)
  then have "db' = db1 \<or> db' = db2 \<or> db' = db3" by (simp split: option.splits sum.splits)
  with r1 r2 r3 show ?thesis by (elim disjE) simp_all
qed

section \<open>Properties\<close>


lemma sample_undisturbed: "undisturbed (calm t)"
  by (simp add: undisturbed_def calm_def alone_def)


text \<open>
  A client that is no longer in the configuration keeps its access: a start changes nothing in what
  authentication answers for it.
\<close>

theorem removed_client_keeps_access:
  assumes "undisturbed E" and "config_ok cfg" and "\<forall>c \<in> set (cf_Clients cfg). distinct_grants c"
    and "i \<notin> cc_ID ` set (cf_Clients cfg)" and "undisturbed E'"
  shows "fst (Authenticate sha256 E' k i token (snd (boot sha256 cfg E db))) = fst (Authenticate sha256 E' k i token db)"
proof -
  have "distinct (map cc_ID (cf_Clients cfg))" using assms(2) by (simp add: config_ok_def)
  from boot_grants [OF assms(1) this assms(3), of sha256 db] assms(4) have "grants (snd (boot sha256 cfg E db)) i = grants db i" by force
  then show ?thesis by (rule Authenticate_grants [OF assms(5)])
qed

theorem removed_client_keeps_access_witness:
  "\<exists>c. fst (Authenticate (\<lambda>x. x) (calm 5) 0 ''c'' ''t''
      (snd (boot (\<lambda>x. x) ((applyDefaults sample_config)\<lparr>cf_Clients := [(hd (cf_Clients (applyDefaults sample_config)))\<lparr>cc_ID := ''d''\<rparr>]\<rparr>)
        (calm 4) sample_clients))) = Inr c"
proof -
  let ?cfg = "(applyDefaults sample_config)\<lparr>cf_Clients := [(hd (cf_Clients (applyDefaults sample_config)))\<lparr>cc_ID := ''d''\<rparr>]\<rparr>"
  have ok: "config_ok ?cfg" using sample_config_ok unfolding config_ok_def by (simp add: sample_config_clients client_ok_def)
  have d: "\<forall>c \<in> set (cf_Clients ?cfg). distinct_grants c" by (simp add: sample_config_clients distinct_grants_def)
  have "''c'' \<notin> cc_ID ` set (cf_Clients ?cfg)" by simp
  from removed_client_keeps_access [OF sample_undisturbed ok d this sample_undisturbed, of "\<lambda>x. x" 5 0 "''t''" 4 sample_clients]
  show ?thesis by (simp add: sample_authenticate)
qed

section \<open>The components of a valid configuration\<close>

text \<open>What a start promises of the components it builds from a configuration.\<close>

definition wired :: "system \<Rightarrow> config \<Rightarrow> gmlc \<Rightarrow> bool" where
  "wired sys cfg g \<longleftrightarrow>
     (cd_Enabled (cf_Delivery cfg) \<longrightarrow> (\<exists>key w. length key = 32 \<and> gm_delivery g = Some w \<and> dc_EncryptionKey w = key
        \<and> 0 < dc_MaxAttempts w \<and> 0 < dc_RetryBackoffMin w \<and> 0 < dc_RequestTimeout w
        \<and> sv_encryptSecret (gm_service g) = Some (encryptor sys key)))
     \<and> (\<not> cd_Enabled (cf_Delivery cfg) \<longrightarrow> gm_delivery g = None \<and> sv_encryptSecret (gm_service g) = None)
     \<and> (gm_lrr g \<noteq> None \<longleftrightarrow> cf_LRR_Enabled cfg)
     \<and> (cf_LRR_Enabled cfg \<longleftrightarrow> (slg_ApplicationID, CommandLocationReport) \<in> set (rc_RequestHandlers (gm_registry g)))
     \<and> sc_DestinationRealm (gm_resolver g) = di_HSSRealm (cf_Diameter cfg)
     \<and> 0 < sc_RequestTimeout (gm_resolver g) \<and> 0 < gc_RequestTimeout (gm_provider g)
     \<and> 0 < gm_syncWaitDefault g \<and> gm_syncWaitDefault g \<le> gm_syncWaitMax g"

definition identities_present :: "cfg_diameter \<Rightarrow> bool" where
  "identities_present d \<longleftrightarrow> TrimSpace (di_OriginHost d) \<noteq> [] \<and> TrimSpace (di_OriginRealm d) \<noteq> [] \<and> TrimSpace (di_HSSRealm d) \<noteq> []"

lemma EncryptionKeyBytes_length: "EncryptionKeyBytes d = Inr key \<Longrightarrow> length key = 32"
  by (auto simp: EncryptionKeyBytes_def split: option.splits if_splits)

lemma deliveryKey_ok:
  assumes "config_ok cfg"
  shows "if cd_Enabled (cf_Delivery cfg) then \<exists>key. deliveryKey cfg = Inr (Some key) \<and> length key = 32
    else deliveryKey cfg = Inr None"
proof (cases "cd_Enabled (cf_Delivery cfg)")
  case True
  with assms obtain key where "EncryptionKeyBytes (cf_Delivery cfg) = Inr key"
    by (cases "EncryptionKeyBytes (cf_Delivery cfg)") (auto simp: config_ok_def)
  with True EncryptionKeyBytes_length show ?thesis by (simp add: deliveryKey_def)
qed (simp add: deliveryKey_def)

lemma lrr_of_ok:
  assumes "config_ok cfg"
  shows "\<exists>reports. lrr_of cfg = Inr reports \<and> (reports \<noteq> None \<longleftrightarrow> cf_LRR_Enabled cfg)"
  using assms by (auto simp: config_ok_def diameter_ok_def lrr_of_def slg_New_def Let_def)

lemma delivery_of_ok:
  assumes "cd_Enabled (cf_Delivery cfg)" and "length key = 32"
  shows "\<exists>w. delivery_of cfg (Some key) = Inr (Some w) \<and> dc_EncryptionKey w = key \<and> 0 < dc_MaxAttempts w
    \<and> 0 < dc_RetryBackoffMin w \<and> 0 < dc_RequestTimeout w"
  using assms by (simp add: delivery_of_def delivery_New_def Let_def)

lemma service_of_key: "sv_encryptSecret (service_of sys key) = map_option (encryptor sys) key"
  by (cases key) (simp_all add: service_of_def SetCancelHook_def SetQueuedHook_def SetSecretEncryptor_def service_New_def)

lemma resolver_ok:
  assumes "config_ok cfg" and "identities_present (cf_Diameter cfg)"
  shows "\<exists>r. slh_NewWithRegistry \<lparr>sc_OriginHost = di_OriginHost (cf_Diameter cfg), sc_OriginRealm = di_OriginRealm (cf_Diameter cfg),
      sc_DestinationRealm = di_HSSRealm (cf_Diameter cfg), sc_DestinationHost = di_HSSHost (cf_Diameter cfg),
      sc_RequestTimeout = di_RequestTimeout (cf_Diameter cfg), sc_Source = []\<rparr> True = Some r
    \<and> sc_DestinationRealm r = di_HSSRealm (cf_Diameter cfg) \<and> 0 < sc_RequestTimeout r"
  using assms by (simp add: slh_NewWithRegistry_def slh_New_def Let_def identities_present_def config_ok_def diameter_ok_def)

lemma provider_ok:
  assumes "config_ok cfg"
  shows "\<exists>p. slg_NewWithRegistry \<lparr>gc_OriginHost = di_OriginHost (cf_Diameter cfg), gc_OriginRealm = di_OriginRealm (cf_Diameter cfg),
      gc_RequestTimeout = di_RequestTimeout (cf_Diameter cfg)\<rparr> True = Some p \<and> 0 < gc_RequestTimeout p"
  using assms by (simp add: slg_NewWithRegistry_def config_ok_def diameter_ok_def)

text \<open>The transports of the registry pass their own validation, once the host address has parsed.\<close>

lemma transports_ok:
  assumes "config_ok cfg" and "sy_ParseIP sys (di_HostIPAddress (cf_Diameter cfg)) \<noteq> None"
    and "p \<in> set (rc_Peers (registry_of sys cfg))"
  shows "transport_Validate (transport_of (registry_of sys cfg) p) = None"
  using assms by (auto simp: registry_of_def Let_def config_ok_def diameter_ok_def peer_ok_def transport_Validate_def transport_of_def)

lemma build_wired:
  assumes "config_ok cfg" and "identities_present (cf_Diameter cfg)"
  shows "\<exists>g. build sys cfg = Inr g \<and> gm_registry g = registry_of sys cfg \<and> wired sys cfg g"
proof -
  from lrr_of_ok [OF assms(1)] obtain reports where l: "lrr_of cfg = Inr reports" "reports \<noteq> None \<longleftrightarrow> cf_LRR_Enabled cfg" by blast
  from resolver_ok [OF assms] obtain r where r: "slh_NewWithRegistry \<lparr>sc_OriginHost = di_OriginHost (cf_Diameter cfg),
      sc_OriginRealm = di_OriginRealm (cf_Diameter cfg),
      sc_DestinationRealm = di_HSSRealm (cf_Diameter cfg), sc_DestinationHost = di_HSSHost (cf_Diameter cfg),
      sc_RequestTimeout = di_RequestTimeout (cf_Diameter cfg), sc_Source = []\<rparr> True = Some r"
    "sc_DestinationRealm r = di_HSSRealm (cf_Diameter cfg)" "0 < sc_RequestTimeout r" by blast
  from provider_ok [OF assms(1)] obtain p where p: "slg_NewWithRegistry \<lparr>gc_OriginHost = di_OriginHost (cf_Diameter cfg),
      gc_OriginRealm = di_OriginRealm (cf_Diameter cfg), gc_RequestTimeout = di_RequestTimeout (cf_Diameter cfg)\<rparr> True = Some p"
    "0 < gc_RequestTimeout p" by blast
  obtain key w where k: "deliveryKey cfg = Inr key" and w: "delivery_of cfg key = Inr w"
    and on: "cd_Enabled (cf_Delivery cfg) \<longrightarrow> (\<exists>k' w'. key = Some k' \<and> w = Some w' \<and> length k' = 32 \<and> dc_EncryptionKey w' = k'
      \<and> 0 < dc_MaxAttempts w' \<and> 0 < dc_RetryBackoffMin w' \<and> 0 < dc_RequestTimeout w')"
    and off: "\<not> cd_Enabled (cf_Delivery cfg) \<longrightarrow> key = None \<and> w = None"
  proof (cases "cd_Enabled (cf_Delivery cfg)")
    case True
    with deliveryKey_ok [OF assms(1)] obtain k' where k': "deliveryKey cfg = Inr (Some k')" "length k' = 32" by auto
    from delivery_of_ok [OF True k'(2)] k' True show thesis by (auto intro: that)
  next
    case False
    with deliveryKey_ok [OF assms(1)] show thesis by (intro that [of None None]) (simp_all add: delivery_of_def)
  qed
  define g where "g = \<lparr>gm_registry = registry_of sys cfg, gm_lrr = reports, gm_service = service_of sys key, gm_resolver = r,
    gm_provider = p, gm_delivery = w, gm_syncWaitDefault = ml_SyncWaitTimeout (cf_MLP cfg),
    gm_syncWaitMax = ml_MaxSyncWaitTimeout (cf_MLP cfg)\<rparr>"
  have "build sys cfg = Inr g" using l(1) k r(1) p(1) w by (simp add: build_def Let_def g_def)
  moreover have "0 < ml_SyncWaitTimeout (cf_MLP cfg)" "ml_SyncWaitTimeout (cf_MLP cfg) \<le> ml_MaxSyncWaitTimeout (cf_MLP cfg)"
    using assms(1) by (simp_all add: config_ok_def)
  moreover have "(slg_ApplicationID, CommandLocationReport) \<in> set (rc_RequestHandlers (registry_of sys cfg)) \<longleftrightarrow> cf_LRR_Enabled cfg"
    by (simp add: registry_of_def Let_def)
  ultimately show ?thesis
    using l(2) r(2,3) p(2) on off by (intro exI [of _ g]) (auto simp: wired_def g_def service_of_key)
qed

text \<open>The service encrypts under the key the delivery worker decrypts with.\<close>

lemma build_key:
  assumes "build sys cfg = Inr g" and "gm_delivery g = Some w"
  shows "sv_encryptSecret (gm_service g) = Some (encryptor sys (dc_EncryptionKey w)) \<and> length (dc_EncryptionKey w) = 32"
proof -
  from assms(1) obtain key where k: "deliveryKey cfg = Inr key" "delivery_of cfg key = Inr (gm_delivery g)"
    "gm_service g = service_of sys key"
    by (auto simp: build_def Let_def split: sum.splits option.splits)
  from k(2) assms(2) have on: "cd_Enabled (cf_Delivery cfg)" by (auto simp: delivery_of_def Let_def split: if_splits)
  with k(1) obtain key' where key: "key = Some key'" by (auto simp: deliveryKey_def split: sum.splits)
  have l: "length key' = 32"
    using k(1) on key by (auto simp: deliveryKey_def EncryptionKeyBytes_length split: sum.splits)
  from delivery_of_ok [OF on l] k(2) key assms(2) have "dc_EncryptionKey w = key'" by auto
  with k(3) key l show ?thesis by (simp add: service_of_key)
qed

section \<open>Properties of the running system\<close>

text \<open>
  A valid configuration whose identities are not blank always builds: the delivery worker exists
  exactly when it is enabled, with the very key the service encrypts secrets under, location reports are
  handled exactly when they are enabled, every timeout is positive, the default wait is at most the
  longest one, and every configured peer gets a transport that passes its own validation.
\<close>

theorem build_ok:
  assumes "config_ok cfg" and "identities_present (cf_Diameter cfg)"
    and "sy_ParseIP sys (di_HostIPAddress (cf_Diameter cfg)) \<noteq> None"
  shows "\<exists>g. build sys cfg = Inr g \<and> wired sys cfg g
    \<and> length (rc_Peers (gm_registry g)) = length (di_Peers (cf_Diameter cfg))
    \<and> (\<forall>p \<in> set (rc_Peers (gm_registry g)). transport_Validate (transport_of (gm_registry g) p) = None)"
proof -
  from build_wired [OF assms(1,2)] obtain g where
    "build sys cfg = Inr g" "gm_registry g = registry_of sys cfg" "wired sys cfg g" by blast
  moreover have "length (rc_Peers (registry_of sys cfg)) = length (di_Peers (cf_Diameter cfg))"
    by (simp add: registry_of_def Let_def)
  ultimately show ?thesis using transports_ok [OF assms(1,3)] by (intro exI [of _ g]) simp
qed

text \<open>A sample with callbacks enabled, under a key of 32 zero bytes.\<close>

definition sample_callbacks :: config where
  "sample_callbacks = sample_config\<lparr>cf_Delivery := \<lparr>cd_Enabled = True, cd_MaxAttempts = 0, cd_RetryBackoffMin = 0,
     cd_RetryBackoffMax = 0, cd_RequestTimeout = 0, cd_EncryptionKey = EncodeToString (replicate 32 0)\<rparr>\<rparr>"

definition sample_system :: system where
  "sample_system = \<lparr>sy_sha256 = (\<lambda>x. x), sy_aead = sample_aead, sy_nonce = Some (replicate 12 0), sy_ParseIP = (\<lambda>_. Some [10, 0, 0, 1]),
     sy_parse_url = (\<lambda>u. Some (''https'', u))\<rparr>"

lemma sample_callbacks_key: "EncryptionKeyBytes (cf_Delivery (applyDefaults sample_callbacks)) = Inr (replicate 32 0)"
proof -
  have k: "cd_EncryptionKey (cf_Delivery (applyDefaults sample_callbacks)) = EncodeToString (replicate 32 0)"
    by (simp add: applyDefaults_def delivery_defaults_def sample_callbacks_def Let_def)
  show ?thesis unfolding EncryptionKeyBytes_def k DecodeString_EncodeToString by simp
qed

lemma sample_callbacks_ok: "config_ok (applyDefaults sample_callbacks)"
proof -
  have "cf_MLP (applyDefaults sample_callbacks) = cf_MLP (applyDefaults sample_config)"
    "cf_MLPReporting (applyDefaults sample_callbacks) = cf_MLPReporting (applyDefaults sample_config)"
    "cf_Database (applyDefaults sample_callbacks) = cf_Database (applyDefaults sample_config)"
    "cf_Logging (applyDefaults sample_callbacks) = cf_Logging (applyDefaults sample_config)"
    "cf_Retention (applyDefaults sample_callbacks) = cf_Retention (applyDefaults sample_config)"
    "cf_Diameter (applyDefaults sample_callbacks) = cf_Diameter (applyDefaults sample_config)"
    "cf_Clients (applyDefaults sample_callbacks) = cf_Clients (applyDefaults sample_config)"
    by (simp_all add: applyDefaults_def sample_callbacks_def)
  with sample_config_ok sample_callbacks_key show ?thesis unfolding config_ok_def by simp
qed

lemma sample_callbacks_identities: "identities_present (cf_Diameter (applyDefaults sample_callbacks))"
proof -
  have d: "di_OriginHost (cf_Diameter (applyDefaults sample_callbacks)) = ''g''"
    "di_OriginRealm (cf_Diameter (applyDefaults sample_callbacks)) = ''r''"
    "di_HSSRealm (cf_Diameter (applyDefaults sample_callbacks)) = ''r''"
    by (simp_all add: applyDefaults_def sample_callbacks_def sample_config_def Let_def)
  have "TrimSpace ''g'' = ''g''" "TrimSpace ''r'' = ''r''" by (rule TrimSpace_plain; simp add: white_space_def)+
  with d show ?thesis by (simp add: identities_present_def)
qed

theorem build_ok_witness:
  "\<exists>g. build sample_system (applyDefaults sample_callbacks) = Inr g \<and> wired sample_system (applyDefaults sample_callbacks) g"
proof -
  have "sy_ParseIP sample_system (di_HostIPAddress (cf_Diameter (applyDefaults sample_callbacks))) \<noteq> None"
    by (simp add: sample_system_def)
  from build_ok [OF sample_callbacks_ok sample_callbacks_identities this] show ?thesis by blast
qed

text \<open>
  In the system a configuration builds, a callback is signed with the secret its client registered.
  After the service has registered a callback, and after any run of store operations, an undisturbed
  iteration of the delivery worker that claims a delivery for that subscription posts the stored payload
  to the registered URL, with the HMAC of that payload under the original secret in the signature header.
\<close>

theorem configured_callback_signed:
  assumes "build sys cfg = Inr g" and "gm_delivery g = Some w"
    and "aead_ok (sy_aead sys)" and "sy_nonce sys = Some nonce" and "length nonce = NonceSize"
    and "registerCallback (gm_service g) E0 k clientID url secret db0 = (Inr subID, db1)" and "store_inv db1"
    and "(store_step C)\<^sup>*\<^sup>* db1 db"
    and "undisturbed E" and "first_by delivery_order (filter (due_delivery (utc (e_now E 0))) (deliveries db)) = Some r"
    and "del_subscription_id r = subID" and "hc_valid http url"
  shows "\<exists>db'. Delivery_one w (sy_aead sys) hmac http stopped E db =
    (True, db', [\<lparr>hr_URL = url, hr_Body = del_payload r,
       hr_Header = [(''Content-Type'', ''application/json''),
         (''X-GMLC-Signature'', ''sha256='' @ EncodeToString (hmac (byte_string secret) (del_payload r)))]\<rparr>])"
proof -
  have e: "sv_encryptSecret (gm_service g) = Some (\<lambda>p. case EncryptSecret (sy_aead sys) (Some nonce) (dc_EncryptionKey w) p of
      Inl _ \<Rightarrow> None | Inr c \<Rightarrow> Some c)" and l: "length (dc_EncryptionKey w) = 32"
    using build_key [OF assms(1,2)] by (simp_all add: encryptor_def [abs_def] assms(4))
  show ?thesis by (rule callback_signed [OF assms(3,5) l e assms(6-11) refl assms(12)])
qed

lemma sample_service_of: "service_of sample_system (Some (replicate 32 0)) = sample_service\<lparr>sv_encryptSecret := Some sample_encryptor\<rparr>"
  by (simp add: service_of_def SetCancelHook_def SetQueuedHook_def SetSecretEncryptor_def service_New_def sample_system_def
      sample_service_def sample_encryptor_def [abs_def] encryptor_def [abs_def])

lemma sample_system_built:
  "\<exists>g w. build sample_system (applyDefaults sample_callbacks) = Inr g \<and> gm_delivery g = Some w
     \<and> gm_service g = sample_service\<lparr>sv_encryptSecret := Some sample_encryptor\<rparr>"
proof -
  from build_wired [OF sample_callbacks_ok sample_callbacks_identities] obtain g where
    g: "build sample_system (applyDefaults sample_callbacks) = Inr g" "wired sample_system (applyDefaults sample_callbacks) g" by blast
  have on: "cd_Enabled (cf_Delivery (applyDefaults sample_callbacks))"
    by (simp add: applyDefaults_def delivery_defaults_def sample_callbacks_def Let_def)
  then have k: "deliveryKey (applyDefaults sample_callbacks) = Inr (Some (replicate 32 0))"
    by (simp add: deliveryKey_def sample_callbacks_key)
  have "gm_service g = service_of sample_system (Some (replicate 32 0))"
    using g(1) k by (auto simp: build_def Let_def split: sum.splits option.splits)
  moreover obtain w where "gm_delivery g = Some w" using g(2) on by (auto simp: wired_def)
  ultimately show ?thesis using g(1) sample_service_of by auto
qed

theorem configured_callback_signed_witness:
  "\<exists>w db' req. Delivery_one w sample_aead (\<lambda>k p. k @ p) \<lparr>hc_valid = (\<lambda>_. True), hc_Do = (\<lambda>_. Some 204)\<rparr>
      False (calm 5) sample_due = (True, db', [req]) \<and> hr_URL req = ''u'' \<and> hr_Body req = [7]
     \<and> map_of (hr_Header req) SignatureHeader = Some (''sha256='' @ EncodeToString (byte_string ''k'' @ [7]))"
proof -
  let ?r = "\<lparr>del_id = ''d'', del_subscription_id = e_uuid (calm 5) 0, del_payload = [7],
     del_state = DeliveryPending, del_attempt_count = 0, del_next_attempt_at = None, del_last_response_code = None,
     del_created_at = utc 5, del_updated_at = utc 5\<rparr>"
  from sample_system_built obtain g w where g: "build sample_system (applyDefaults sample_callbacks) = Inr g" "gm_delivery g = Some w"
    "gm_service g = sample_service\<lparr>sv_encryptSecret := Some sample_encryptor\<rparr>" by blast
  have a: "aead_ok (sy_aead sample_system)" "sy_nonce sample_system = Some (replicate 12 0)" "length (replicate 12 0 :: bytes) = NonceSize"
    by (simp_all add: aead_ok_def sample_aead_def sample_system_def NonceSize_def)
  have f: "first_by delivery_order (filter (due_delivery (utc (e_now (calm 5) 0))) (deliveries sample_due)) = Some ?r"
    by (simp add: sample_due_deliveries due_delivery_def)
  have v: "hc_valid \<lparr>hc_valid = (\<lambda>_. True), hc_Do = (\<lambda>_. Some 204)\<rparr> ''u''" by simp
  have reg: "registerCallback (gm_service g) (calm 5) 0 ''c'' ''u'' ''k'' sample_clients = (Inr (e_uuid (calm 5) 0), sample_subscribed)"
    unfolding g(3) by (rule sample_register)
  from configured_callback_signed [OF g(1,2) a reg sample_subscribed_inv sample_due_run calm_undisturbed f _ v,
      where hmac = "\<lambda>k p. k @ p" and stopped = False]
  have "\<exists>db' req. Delivery_one w sample_aead (\<lambda>k p. k @ p) \<lparr>hc_valid = (\<lambda>_. True), hc_Do = (\<lambda>_. Some 204)\<rparr>
      False (calm 5) sample_due = (True, db', [req]) \<and> hr_URL req = ''u'' \<and> hr_Body req = [7]
     \<and> map_of (hr_Header req) SignatureHeader = Some (''sha256='' @ EncodeToString (byte_string ''k'' @ [7]))"
    by (auto simp: SignatureHeader_def sample_system_def)
  then show ?thesis by blast
qed

section \<open>Retention\<close>

lemma runRetentionPurge_append:
  "runRetentionPurge r (ts @ ts') db = runRetentionPurge r ts' (runRetentionPurge r ts db)"
  by (induction r ts db rule: runRetentionPurge.induct) simp_all

lemma Purge_leaves:
  assumes "db' = snd (Purge False b rb db)"
  shows "set (location_requests db') = {q \<in> set (location_requests db). \<not> (Terminal (row_state q) \<and> row_created_at q < utc b)}"
    and "set (location_results db') = {v \<in> set (location_results db). \<not> res_created_at v < utc rb
      \<and> res_request_id v \<notin> row_id ` {q \<in> set (location_requests db). Terminal (row_state q) \<and> row_created_at q < utc b}}"
    and "set (audit_events db') = {a \<in> set (audit_events db). \<not> au_created_at a < utc b}"
proof -
  have "purgeable (utc b) q \<longleftrightarrow> Terminal (row_state q) \<and> row_created_at q < utc b" for q
    by (auto simp: purgeable_def Terminal_def)
  then show "set (location_requests db') = {q \<in> set (location_requests db). \<not> (Terminal (row_state q) \<and> row_created_at q < utc b)}"
    and "set (location_results db') = {v \<in> set (location_results db). \<not> res_created_at v < utc rb
      \<and> res_request_id v \<notin> row_id ` {q \<in> set (location_requests db). Terminal (row_state q) \<and> row_created_at q < utc b}}"
    and "set (audit_events db') = {a \<in> set (audit_events db). \<not> au_created_at a < utc b}"
    by (auto simp: assms Purge_def Let_def)
qed

text \<open>
  C29: The recurring purge enforces the retention times, whatever the other goroutines did in between and
  however many earlier purges failed.  A purge that does not fail deletes exactly the terminal requests whose
  stored creation stamp is below that of the request retention, with their results; the results whose stamp
  is below that of the result retention; and the audit events below that of the request retention.  Stamps
  are compared as they are stored, as text, and agree with time from one second to the next: right after
  the purge no terminal request, result or audit event comes from a second before that of its cutoff, and
  every request that is not terminal, or comes from a later second than the cutoff, is still there.
\<close>

theorem retention_enforced:
  assumes "db = gap (runRetentionPurge r ticks db0)" and "db' = runRetentionPurge r (ticks @ [(now, False, gap)]) db0"
    and "cutoff = now - re_Request r" and "result_cutoff = now - re_Result r"
  shows "set (location_requests db') = {q \<in> set (location_requests db). \<not> (Terminal (row_state q) \<and> row_created_at q < utc cutoff)}
    \<and> set (location_results db') = {v \<in> set (location_results db). \<not> res_created_at v < utc result_cutoff
        \<and> res_request_id v \<notin> row_id ` {q \<in> set (location_requests db). Terminal (row_state q) \<and> row_created_at q < utc cutoff}}
    \<and> set (audit_events db') = {a \<in> set (audit_events db). \<not> au_created_at a < utc cutoff}
    \<and> (\<forall>q \<in> set (location_requests db'). Terminal (row_state q) \<longrightarrow> cutoff div second \<le> stamp_sec (row_created_at q))
    \<and> (\<forall>q \<in> set (location_requests db). \<not> Terminal (row_state q) \<or> cutoff div second < stamp_sec (row_created_at q)
         \<longrightarrow> q \<in> set (location_requests db'))
    \<and> (\<forall>v \<in> set (location_results db'). result_cutoff div second \<le> stamp_sec (res_created_at v))
    \<and> (\<forall>a \<in> set (audit_events db'). cutoff div second \<le> stamp_sec (au_created_at a))"
proof -
  have "db' = snd (Purge False cutoff result_cutoff db)" by (simp add: assms runRetentionPurge_append)
  note l = Purge_leaves [OF this]
  show ?thesis unfolding l by (auto dest: not_before_seconds later_second)
qed

definition sample_old :: request_row where
  "sample_old = sample_locating\<lparr>row_id := ''old'', row_state := StateFailed, row_created_at := utc 0\<rparr>"

theorem retention_enforced_witness:
  "set (location_requests (runRetentionPurge \<lparr>re_Request = second, re_Result = second, re_PurgeInterval = second\<rparr>
      [(0, True, id), (5 * second, False, id)] (sample_db [sample_old, sample_locating]))) = {sample_locating}"
proof -
  let ?r = "\<lparr>re_Request = second, re_Result = second, re_PurgeInterval = second\<rparr>"
  let ?db0 = "sample_db [sample_old, sample_locating]"
  have db: "location_requests (id (runRetentionPurge ?r [(0, True, id)] ?db0)) = [sample_old, sample_locating]"
    by (simp add: Purge_def sample_db_def)
  have old: "utc 0 < utc (5 * second - second)" by (rule utc_less_seconds) simp
  have f: "{q \<in> set [sample_old, sample_locating]. \<not> (Terminal (row_state q) \<and> row_created_at q < utc (5 * second - re_Request ?r))}
      = {sample_locating}"
    using old by (auto simp: sample_old_def Terminal_def)
  have t: "[(0, True, id), (5 * second, False, id)] = [(0, True, id)] @ [(5 * second, False, id)]" by simp
  show ?thesis
    unfolding t by (rule retention_enforced [OF refl refl refl refl, where r = ?r and now = "5 * second" and gap = id and ticks = "[(0, True, id)]"
      and ?db0.0 = ?db0, THEN conjunct1, unfolded db f])
qed

text \<open>
  The purge does not touch the location history, the stored location reports or the callback
  deliveries: they stay however long the process runs.
\<close>

theorem retention_spares_positions:
  assumes "\<forall>(now, fault, gap) \<in> set ticks. gap = id"
  shows "location_history (runRetentionPurge r ticks db) = location_history db
    \<and> location_reports (runRetentionPurge r ticks db) = location_reports db
    \<and> deliveries (runRetentionPurge r ticks db) = deliveries db"
  using assms
proof (induction r ticks db rule: runRetentionPurge.induct)
  case (2 r now fault gap ticks db)
  then show ?case by (cases fault) (simp_all add: Purge_def Let_def)
qed simp

section \<open>Configurations that pass validation and do not run\<close>

text \<open>An origin host of blanks passes validation, and the start ends when the resolver is built.\<close>

theorem blank_origin_host_exits:
  assumes "config_ok cfg" and "TrimSpace (di_OriginHost (cf_Diameter cfg)) = []"
  shows "build sys cfg = Inl SLhSetupFailed"
proof -
  from lrr_of_ok [OF assms(1)] obtain reports where "lrr_of cfg = Inr reports" by blast
  moreover obtain key where "deliveryKey cfg = Inr key"
    using deliveryKey_ok [OF assms(1)] by (auto split: if_splits)
  ultimately show ?thesis using assms(2) by (simp add: build_def Let_def slh_NewWithRegistry_def slh_New_def)
qed

text \<open>A host address that does not parse passes validation, and then no peer can ever be dialled.\<close>

theorem unparsed_host_address_never_dials:
  assumes "sy_ParseIP sys (di_HostIPAddress (cf_Diameter cfg)) = None"
  shows "transport_Validate (transport_of (registry_of sys cfg) p) = Some IncompleteConfiguration"
  using assms by (simp add: registry_of_def Let_def transport_Validate_def transport_of_def)

text \<open>A service granted twice to one client passes validation, and the start ends when the client is stored.\<close>

theorem duplicate_service_exits:
  assumes "\<not> distinct (cc_Services c)" and "undisturbed E" and "cf_Clients cfg = c # cs"
  shows "boot sha256 cfg E db = (Some (ClientBootstrapFailed (cc_ID c)), db)"
  using assms
  by (simp add: boot_def Let_def UpsertClient_def transact_def insert_values_distinct storage_client_def)

end
