(* ===== verification/GMLC_Logging.thy ===== *)
theory GMLC_Logging
  imports GMLC_Domain
begin

text \<open>
  \<open>internal/logging\<close>: the redaction of identifiers, the levels, and the handler that fans a record out to
  the log file and the console, with the handlers derived from it by attributes and groups.  Text
  formatting and files are not modelled: a handler is its threshold, the attributes and groups it was derived
  with, and what writing a record to it does.
\<close>

section \<open>Redaction\<close>

definition ellipsis :: string where "ellipsis = [CHR 0xE2, CHR 0x80, CHR 0xA6]"

definition Identifier :: "string \<Rightarrow> string" where
  "Identifier v =
     (let v = TrimSpace v in
      if length v < 5 then ''***'' else take 3 v @ ellipsis @ drop (length v - 2) v)"

section \<open>Levels and handlers\<close>

definition LevelDebug :: int where "LevelDebug = - 4"
definition LevelInfo :: int where "LevelInfo = 0"
definition LevelWarn :: int where "LevelWarn = 4"
definition LevelError :: int where "LevelError = 8"

definition level :: "string \<Rightarrow> int option" where
  "level v =
     (let v = ToLower v in
      if v = ''debug'' then Some LevelDebug else if v = ''info'' then Some LevelInfo
      else if v = ''warn'' then Some LevelWarn else if v = ''error'' then Some LevelError else None)"

text \<open>
  A text handler: where it writes, its threshold, whether writing a record there fails, and what it was derived
  with: the attributes and the open groups that it puts before the record's own, in order.
\<close>

datatype sink = LogFile | Console

datatype scope = Attrs "(string \<times> string) list" | Group string

record handler =
  hd_sink :: sink
  hd_Level :: int
  hd_fails :: "int \<times> string \<Rightarrow> bool"
  hd_scope :: "scope list"

definition handler_WithAttrs :: "(string \<times> string) list \<Rightarrow> handler \<Rightarrow> handler" where
  "handler_WithAttrs a h = h\<lparr>hd_scope := hd_scope h @ [Attrs a]\<rparr>"

definition handler_WithGroup :: "string \<Rightarrow> handler \<Rightarrow> handler" where
  "handler_WithGroup g h = h\<lparr>hd_scope := hd_scope h @ [Group g]\<rparr>"

definition handler_Enabled :: "handler \<Rightarrow> int \<Rightarrow> bool" where
  "handler_Enabled h l \<longleftrightarrow> l \<ge> hd_Level h"

definition multi_Enabled :: "handler list \<Rightarrow> int \<Rightarrow> bool" where
  "multi_Enabled hs l \<longleftrightarrow> (\<exists>h \<in> set hs. handler_Enabled h l)"

text \<open>The records that were written, and whether the first failure ended the loop.\<close>

fun multi_Handle :: "handler list \<Rightarrow> int \<times> string \<Rightarrow> (sink \<times> scope list \<times> string) list \<times> bool" where
  "multi_Handle [] r = ([], False)"
| "multi_Handle (h # hs) r =
     (if \<not> handler_Enabled h (fst r) then multi_Handle hs r
      else if hd_fails h r then ([], True)
      else (case multi_Handle hs r of (out, e) \<Rightarrow> ((hd_sink h, hd_scope h, snd r) # out, e)))"

definition multi_WithAttrs :: "(string \<times> string) list \<Rightarrow> handler list \<Rightarrow> handler list" where
  "multi_WithAttrs a hs = map (handler_WithAttrs a) hs"

definition multi_WithGroup :: "string \<Rightarrow> handler list \<Rightarrow> handler list" where
  "multi_WithGroup g hs = map (handler_WithGroup g) hs"

definition Setup :: "string \<Rightarrow> bool \<Rightarrow> (int \<times> string \<Rightarrow> bool) \<Rightarrow> bool \<Rightarrow> (int \<times> string \<Rightarrow> bool) \<Rightarrow> handler list option" where
  "Setup fileLevel opened file_fails debug console_fails =
     (case level fileLevel of
        None \<Rightarrow> None
      | Some l \<Rightarrow>
          (if \<not> opened then None
           else Some (\<lparr>hd_sink = LogFile, hd_Level = l, hd_fails = file_fails, hd_scope = []\<rparr>
             # (if debug then [\<lparr>hd_sink = Console, hd_Level = LevelDebug, hd_fails = console_fails, hd_scope = []\<rparr>] else []))))"

text \<open>\<open>slog\<close> drops a record for which the handler is not enabled.\<close>

definition log_record :: "handler list \<Rightarrow> int \<times> string \<Rightarrow> (sink \<times> scope list \<times> string) list" where
  "log_record hs r = (if multi_Enabled hs (fst r) then fst (multi_Handle hs r) else [])"

section \<open>Properties\<close>

text \<open>
  A redacted identifier depends on its first three and last two bytes only, and on nothing at all below
  five: identifiers that agree there cannot be told apart in the log.
\<close>

theorem Identifier_hides:
  assumes "length (TrimSpace v) \<ge> 5" and "length (TrimSpace w) \<ge> 5"
    and "take 3 (TrimSpace v) = take 3 (TrimSpace w)"
    and "drop (length (TrimSpace v) - 2) (TrimSpace v) = drop (length (TrimSpace w) - 2) (TrimSpace w)"
  shows "Identifier v = Identifier w \<and> length (Identifier v) = 8"
  using assms by (simp add: Identifier_def Let_def ellipsis_def)

theorem Identifier_hides_witness:
  "Identifier ''001010123456789'' = Identifier ''001990000000089''"
proof -
  have "TrimSpace ''001010123456789'' = ''001010123456789''" "TrimSpace ''001990000000089'' = ''001990000000089''"
    by (rule TrimSpace_digits, simp add: is_digit_alt)+
  with Identifier_hides [of "''001010123456789''" "''001990000000089''"] show ?thesis by (simp del: One_nat_def)
qed

text \<open>An identifier of exactly five bytes is written out in full: nothing is left between the two parts.\<close>

theorem Identifier_discloses_five: "Identifier ''00101'' = ''001'' @ ellipsis @ ''01''"
proof -
  have "TrimSpace ''00101'' = ''00101''" by (rule TrimSpace_digits) (simp add: is_digit_alt)
  then show ?thesis by (simp add: Identifier_def)
qed

text \<open>
  The levels of the two sinks are independent: when writing succeeds, a record reaches the file exactly
  from the configured level on, and the console exactly when it is enabled and the record is at least at
  debug level.
\<close>

theorem Setup_levels:
  assumes "Setup fileLevel True (\<lambda>_. False) debug (\<lambda>_. False) = Some hs"
  shows "((LogFile, [], msg) \<in> set (log_record hs (l, msg)) \<longleftrightarrow> (\<exists>fl. level fileLevel = Some fl \<and> fl \<le> l))
    \<and> ((Console, [], msg) \<in> set (log_record hs (l, msg)) \<longleftrightarrow> debug \<and> LevelDebug \<le> l)"
  using assms
  by (auto simp: Setup_def log_record_def multi_Enabled_def handler_Enabled_def split: option.splits if_splits)

text \<open>
  A logger derived with attributes or a group writes what the original writes, to the same sinks at the same
  levels, and every record carries the attributes or the group after what was there before.
\<close>

lemma multi_Handle_scoped:
  assumes "\<And>h. hd_sink (f h) = hd_sink h \<and> hd_Level (f h) = hd_Level h \<and> hd_fails (f h) = hd_fails h \<and> hd_scope (f h) = hd_scope h @ [x]"
  shows "multi_Handle (map f hs) r = map_prod (map (map_prod id (map_prod (\<lambda>sc. sc @ [x]) id))) id (multi_Handle hs r)"
  by (induction hs) (auto simp: assms handler_Enabled_def split: prod.split)

theorem derived_logger:
  "log_record (multi_WithAttrs a hs) r = map (map_prod id (map_prod (\<lambda>sc. sc @ [Attrs a]) id)) (log_record hs r)
   \<and> log_record (multi_WithGroup g hs) r = map (map_prod id (map_prod (\<lambda>sc. sc @ [Group g]) id)) (log_record hs r)"
proof -
  have "multi_Enabled (multi_WithAttrs a hs) l = multi_Enabled hs l" "multi_Enabled (multi_WithGroup g hs) l = multi_Enabled hs l" for l
    by (auto simp: multi_Enabled_def multi_WithAttrs_def multi_WithGroup_def handler_Enabled_def handler_WithAttrs_def handler_WithGroup_def)
  moreover have "multi_Handle (multi_WithAttrs a hs) r = map_prod (map (map_prod id (map_prod (\<lambda>sc. sc @ [Attrs a]) id))) id (multi_Handle hs r)"
    unfolding multi_WithAttrs_def by (rule multi_Handle_scoped) (simp add: handler_WithAttrs_def)
  moreover have "multi_Handle (multi_WithGroup g hs) r = map_prod (map (map_prod id (map_prod (\<lambda>sc. sc @ [Group g]) id))) id (multi_Handle hs r)"
    unfolding multi_WithGroup_def by (rule multi_Handle_scoped) (simp add: handler_WithGroup_def)
  ultimately show ?thesis by (simp add: log_record_def)
qed

end
