(* ===== verification/GMLC_Open.thy ===== *)
theory GMLC_Open
  imports GMLC_Config
begin

text \<open>
  Opening the database and migrating its schema (\<open>Open\<close>, \<open>rejectNFS\<close> and \<open>Migrate\<close> of
  \<open>internal/storage/sqlite/sqlite.go\<close>).  What the operating system and the driver answer are arguments, and so
  is the execution of the SQL text of a migration.
\<close>

section \<open>Opening\<close>

record sqlite_config =
  so_Path :: string
  so_BusyTimeout :: duration
  so_Synchronous :: string
  so_CheckpointPages :: int

datatype open_error = PathRequired | StatError | OnNFS | MkdirError | InvalidSynchronous | DriverError

text \<open>What \<open>Statfs\<close> answers for the directory of the database: an error, or the type of its file system.\<close>

datatype statfs = StatFails | NotExist | FsType int

definition rejectNFS :: "statfs \<Rightarrow> open_error option" where
  "rejectNFS st =
     (case st of
        StatFails \<Rightarrow> Some StatError
      | NotExist \<Rightarrow> None
      | FsType t \<Rightarrow> if t = 0x6969 then Some OnNFS else None)"

definition upper_char :: "char \<Rightarrow> char" where
  "upper_char c = (if CHR ''a'' \<le> c \<and> c \<le> CHR ''z'' then char_of ((of_char c :: nat) - 32) else c)"

definition ToUpper :: "string \<Rightarrow> string" where
  "ToUpper s = map upper_char s"

definition Milliseconds :: "duration \<Rightarrow> int" where
  "Milliseconds d = (if d < 0 then - ((- d) div 1000000) else d div 1000000)"

text \<open>The result is the data source name given to the driver and the checkpoint setting.\<close>

definition Open :: "statfs \<Rightarrow> bool \<Rightarrow> bool \<Rightarrow> sqlite_config \<Rightarrow> open_error + string \<times> int" where
  "Open st mkdir_fails driver_fails cfg =
     (if so_Path cfg = [] \<or> so_Path cfg = '':memory:'' then Inl PathRequired
      else case rejectNFS st of
        Some e \<Rightarrow> Inl e
      | None \<Rightarrow>
     (if mkdir_fails then Inl MkdirError
      else
        (let busy = (if so_BusyTimeout cfg \<le> 0 then 5 * second else so_BusyTimeout cfg);
             pages = (if so_CheckpointPages cfg \<le> 0 then 1000 else so_CheckpointPages cfg);
             sync = (if ToUpper (so_Synchronous cfg) = [] then ''FULL'' else ToUpper (so_Synchronous cfg))
         in if sync \<notin> {''FULL'', ''NORMAL'', ''OFF''} then Inl InvalidSynchronous
            else if driver_fails then Inl DriverError
            else Inr (''file:'' @ so_Path cfg @ ''?_foreign_keys=on&_busy_timeout='' @ show_nat (nat (Milliseconds busy))
              @ ''&_journal_mode=WAL&_synchronous='' @ sync, pages))))"

section \<open>Migrating\<close>

text \<open>The table \<open>schema_migrations\<close>, and the rest of the schema as the SQL text acts on it.\<close>

record 's schema_db =
  sm_versions :: "(int \<times> stamp) list"
  sm_schema :: 's

datatype migrate_error = BadName string | SqlError

text \<open>The database operations of one migration that can fail besides its own text.\<close>

datatype sql_op = Query | BeginTx | Insert | Commit

fun migrate_loop ::
  "('t \<Rightarrow> 's \<Rightarrow> 's option) \<Rightarrow> (nat \<Rightarrow> sql_op \<Rightarrow> bool) \<Rightarrow> (nat \<Rightarrow> time) \<Rightarrow> nat \<Rightarrow> (string \<times> 't) list \<Rightarrow> 's schema_db
     \<Rightarrow> (migrate_error + unit) \<times> 's schema_db" where
  "migrate_loop exec_sql fault now i [] db = (Inr (), db)"
| "migrate_loop exec_sql fault now i ((name, body) # files) db =
     (case Atoi (takeWhile (\<lambda>c. c \<noteq> CHR ''_'') name) of
        None \<Rightarrow> (Inl (BadName name), db)
      | Some v \<Rightarrow>
     (if fault i Query then (Inl SqlError, db)
      else if v \<in> fst ` set (sm_versions db) then migrate_loop exec_sql fault now (i + 1) files db
      else if fault i BeginTx then (Inl SqlError, db)
      else case exec_sql body (sm_schema db) of
        None \<Rightarrow> (Inl SqlError, db)
      | Some schema \<Rightarrow>
          (if fault i Insert \<or> fault i Commit then (Inl SqlError, db)
           else migrate_loop exec_sql fault now (i + 1) files
             (db\<lparr>sm_versions := sm_versions db @ [(v, utc (now i))], sm_schema := schema\<rparr>))))"

text \<open>\<open>created\<close>: the \<open>CREATE TABLE IF NOT EXISTS\<close> of the version table succeeds.  The files are embedded in the program.\<close>

definition Migrate ::
  "('t \<Rightarrow> 's \<Rightarrow> 's option) \<Rightarrow> bool \<Rightarrow> (nat \<Rightarrow> sql_op \<Rightarrow> bool) \<Rightarrow> (nat \<Rightarrow> time) \<Rightarrow> (string \<times> 't) list \<Rightarrow> 's schema_db
     \<Rightarrow> (migrate_error + unit) \<times> 's schema_db" where
  "Migrate exec_sql created fault now entries db =
     (if \<not> created then (Inl SqlError, db) else migrate_loop exec_sql fault now 0 (sort_key fst entries) db)"

section \<open>Facts\<close>

text \<open>The database without the times at which its versions were applied.\<close>

definition undated :: "'s schema_db \<Rightarrow> int list \<times> 's" where
  "undated db = (map fst (sm_versions db), sm_schema db)"

lemma undated_versions: "undated db1 = undated db2 \<Longrightarrow> fst ` set (sm_versions db1) = fst ` set (sm_versions db2)"
  by (metis undated_def list.set_map prod.inject)

abbreviation sound :: "nat \<Rightarrow> sql_op \<Rightarrow> bool" where
  "sound \<equiv> \<lambda>_ _. False"

text \<open>What a run without failures gives does not depend on the clock, nor on where its count starts.\<close>

lemma sound_undated:
  "undated db1 = undated db2 \<Longrightarrow>
     fst (migrate_loop exec_sql sound now1 i files db1) = fst (migrate_loop exec_sql sound now2 j files db2)
     \<and> undated (snd (migrate_loop exec_sql sound now1 i files db1)) = undated (snd (migrate_loop exec_sql sound now2 j files db2))"
proof (induction files arbitrary: db1 db2 i j)
  case (Cons f files)
  obtain name body where f: "f = (name, body)" by (cases f)
  have s: "sm_schema db1 = sm_schema db2" using Cons.prems by (simp add: undated_def)
  have v: "fst ` set (sm_versions db1) = fst ` set (sm_versions db2)" by (rule undated_versions [OF Cons.prems])
  have step: "undated (db1\<lparr>sm_versions := sm_versions db1 @ [(w, t)], sm_schema := sc\<rparr>)
      = undated (db2\<lparr>sm_versions := sm_versions db2 @ [(w, u)], sm_schema := sc\<rparr>)" for w t u sc
    using Cons.prems by (simp add: undated_def)
  show ?case
    using Cons.IH [OF Cons.prems] Cons.IH [OF step] Cons.prems
    by (simp add: f s v split: option.split)
qed simp

lemma migrate_loop_grows:
  "migrate_loop exec_sql fault now i files db = (r, db') \<Longrightarrow> fst ` set (sm_versions db) \<subseteq> fst ` set (sm_versions db')"
proof (induction files arbitrary: db i)
  case (Cons f files)
  then show ?case by (cases f) (force split: option.splits if_splits)
qed simp

text \<open>A run cut short by failures is taken up by the next one as if it had not been cut.\<close>

lemma migrate_loop_resumes:
  assumes "migrate_loop exec_sql fault now i files db = (r, db1)"
  shows "fst (migrate_loop exec_sql sound now1 j files db1) = fst (migrate_loop exec_sql sound now2 k files db)
    \<and> undated (snd (migrate_loop exec_sql sound now1 j files db1)) = undated (snd (migrate_loop exec_sql sound now2 k files db))"
  using assms
proof (induction files arbitrary: db i j k)
  case Nil
  then show ?case by simp
next
  case (Cons f files)
  obtain name body where f: "f = (name, body)" by (cases f)
  show ?case
  proof (cases "db1 = db")
    case True
    then show ?thesis by (intro sound_undated) simp
  next
    case False
    with Cons.prems obtain v where v: "Atoi (takeWhile (\<lambda>c. c \<noteq> CHR ''_'') name) = Some v" by (auto simp: f split: option.splits)
    show ?thesis
    proof (cases "v \<in> fst ` set (sm_versions db)")
      case True
      with Cons.prems v False have l: "migrate_loop exec_sql fault now (i + 1) files db = (r, db1)"
        by (auto simp: f split: if_splits)
      have "v \<in> fst ` set (sm_versions db1)" using migrate_loop_grows [OF l] True by blast
      with True v Cons.IH [OF l, of "j + 1" "k + 1"] show ?thesis by (simp add: f)
    next
      case new: False
      with Cons.prems v False obtain sc where sc: "exec_sql body (sm_schema db) = Some sc"
        and l: "migrate_loop exec_sql fault now (i + 1) files
          (db\<lparr>sm_versions := sm_versions db @ [(v, utc (now i))], sm_schema := sc\<rparr>) = (r, db1)"
        by (auto simp: f split: if_splits option.splits)
      have "v \<in> fst ` set (sm_versions db1)" using migrate_loop_grows [OF l] by auto
      moreover have "undated (db\<lparr>sm_versions := sm_versions db @ [(v, utc (now i))], sm_schema := sc\<rparr>)
          = undated (db\<lparr>sm_versions := sm_versions db @ [(v, utc (now2 k))], sm_schema := sc\<rparr>)" by (simp add: undated_def)
      from sound_undated [OF this, of exec_sql now2 "k + 1" files now2 "k + 1"] Cons.IH [OF l, of "j + 1" "k + 1"]
      have "fst (migrate_loop exec_sql sound now1 (j + 1) files db1)
          = fst (migrate_loop exec_sql sound now2 (k + 1) files (db\<lparr>sm_versions := sm_versions db @ [(v, utc (now2 k))], sm_schema := sc\<rparr>))
        \<and> undated (snd (migrate_loop exec_sql sound now1 (j + 1) files db1))
          = undated (snd (migrate_loop exec_sql sound now2 (k + 1) files (db\<lparr>sm_versions := sm_versions db @ [(v, utc (now2 k))], sm_schema := sc\<rparr>)))"
        by simp
      ultimately show ?thesis using v new sc by (simp add: f)
    qed
  qed
qed

lemma migrate_loop_done:
  "migrate_loop exec_sql fault now i files db = (Inr (), db') \<Longrightarrow>
     \<forall>(name, body) \<in> set files. \<exists>v. Atoi (takeWhile (\<lambda>c. c \<noteq> CHR ''_'') name) = Some v \<and> v \<in> fst ` set (sm_versions db')"
proof (induction files arbitrary: db i)
  case (Cons f files)
  obtain name body where f: "f = (name, body)" by (cases f)
  from Cons.prems obtain v db1 where v: "Atoi (takeWhile (\<lambda>c. c \<noteq> CHR ''_'') name) = Some v"
    and l: "migrate_loop exec_sql fault now (i + 1) files db1 = (Inr (), db')" and in1: "v \<in> fst ` set (sm_versions db1)"
    by (auto simp: f split: option.splits if_splits)
  from migrate_loop_grows [OF l] in1 have "v \<in> fst ` set (sm_versions db')" by blast
  with v Cons.IH [OF l] show ?case by (simp add: f)
qed simp

lemma migrate_loop_distinct:
  "migrate_loop exec_sql fault now i files db = (r, db') \<Longrightarrow> distinct (map fst (sm_versions db)) \<Longrightarrow> distinct (map fst (sm_versions db'))"
proof (induction files arbitrary: db i)
  case (Cons f files)
  then show ?case by (cases f) (force split: option.splits if_splits)
qed simp

text \<open>
  When a start can open the database and migrate it.  \<open>fits V s\<close> says that the schema \<open>s\<close> is one that the
  versions \<open>V\<close> make; the text of a migration has to apply to such a schema once every earlier file is
  recorded and its own version is not.
\<close>

definition version_of :: "string \<times> 't \<Rightarrow> int option" where
  "version_of f = Atoi (takeWhile (\<lambda>c. c \<noteq> CHR ''_'') (fst f))"

definition migrations_apply :: "('t \<Rightarrow> 's \<Rightarrow> 's option) \<Rightarrow> (int set \<Rightarrow> 's \<Rightarrow> bool) \<Rightarrow> (string \<times> 't) list \<Rightarrow> bool" where
  "migrations_apply exec_sql fits entries \<longleftrightarrow> (\<forall>f \<in> set entries. version_of f \<noteq> None)
     \<and> (\<forall>earlier f later V s v. sort_key fst entries = earlier @ f # later \<longrightarrow> version_of ` set earlier \<subseteq> Some ` V \<longrightarrow>
          version_of f = Some v \<longrightarrow> v \<notin> V \<longrightarrow> fits V s \<longrightarrow> (\<exists>s'. exec_sql (snd f) s = Some s' \<and> fits (insert v V) s'))"

lemma migrate_loop_applies:
  assumes "migrations_apply exec_sql fits entries"
  shows "sort_key fst entries = earlier @ files \<Longrightarrow> version_of ` set earlier \<subseteq> Some ` fst ` set (sm_versions db) \<Longrightarrow>
    fits (fst ` set (sm_versions db)) (sm_schema db) \<Longrightarrow>
    \<exists>db'. migrate_loop exec_sql sound now i files db = (Inr (), db') \<and> fits (fst ` set (sm_versions db')) (sm_schema db')"
proof (induction files arbitrary: earlier db i)
  case (Cons f files)
  have "f \<in> set (sort_key fst entries)" unfolding Cons.prems(1) by simp
  then have "f \<in> set entries" by simp
  with assms obtain v where v: "version_of f = Some v" by (auto simp: migrations_apply_def)
  have e: "sort_key fst entries = (earlier @ [f]) @ files" using Cons.prems(1) by simp
  show ?case
  proof (cases "v \<in> fst ` set (sm_versions db)")
    case True
    with Cons.prems(2) v have "version_of ` set (earlier @ [f]) \<subseteq> Some ` fst ` set (sm_versions db)" by simp
    from Cons.IH [OF e this Cons.prems(3)] True v show ?thesis by (cases f) (simp add: version_of_def)
  next
    case False
    with assms Cons.prems v obtain s' where s': "exec_sql (snd f) (sm_schema db) = Some s'"
      "fits (insert v (fst ` set (sm_versions db))) s'" unfolding migrations_apply_def by metis
    let ?db = "db\<lparr>sm_versions := sm_versions db @ [(v, utc (now i))], sm_schema := s'\<rparr>"
    have "version_of ` set (earlier @ [f]) \<subseteq> Some ` fst ` set (sm_versions ?db)" using Cons.prems(2) v by auto
    moreover have "fits (fst ` set (sm_versions ?db)) (sm_schema ?db)" using s'(2) by simp
    ultimately obtain db' where "migrate_loop exec_sql sound now (i + 1) files ?db = (Inr (), db')"
      "fits (fst ` set (sm_versions db')) (sm_schema db')" using Cons.IH [OF e, of ?db "i + 1"] by blast
    with False v s'(1) show ?thesis by (cases f) (simp add: version_of_def)
  qed
qed simp

lemma Migrate_applies:
  assumes "migrations_apply exec_sql fits entries" and "fits (fst ` set (sm_versions db)) (sm_schema db)"
  shows "\<exists>db'. Migrate exec_sql True sound now entries db = (Inr (), db') \<and> fits (fst ` set (sm_versions db')) (sm_schema db')
    \<and> (\<forall>f \<in> set entries. version_of f \<in> Some ` fst ` set (sm_versions db'))"
proof -
  from migrate_loop_applies [OF assms(1), of "[]" _ db now 0] assms(2) obtain db' where
    l: "migrate_loop exec_sql sound now 0 (sort_key fst entries) db = (Inr (), db')"
    and f: "fits (fst ` set (sm_versions db')) (sm_schema db')" by auto
  from migrate_loop_done [OF l] have "\<forall>f \<in> set entries. version_of f \<in> Some ` fst ` set (sm_versions db')"
    by (fastforce simp: version_of_def)
  with l f show ?thesis by (simp add: Migrate_def)
qed

lemma Open_succeeds:
  assumes "so_Path cfg \<notin> {[], '':memory:''}" and "st \<noteq> StatFails" and "st \<noteq> FsType 0x6969"
    and "ToUpper (so_Synchronous cfg) \<in> {[], ''FULL'', ''NORMAL'', ''OFF''}"
  shows "\<exists>x. Open st False False cfg = Inr x"
  using assms by (cases st) (auto simp: Open_def rejectNFS_def Let_def)

section \<open>Properties\<close>

text \<open>
  C28: Migration resumes.  However an attempt to migrate fails, and wherever it stops, no version is recorded
  twice, and the next attempt that meets no failure ends with the same verdict, the same schema and the
  same versions as if the first one had never run; when it succeeds every embedded migration is recorded.
\<close>

theorem Migrate_resumes:
  assumes "Migrate exec_sql created fault now entries db = (r, db1)" and "distinct (map fst (sm_versions db))"
    and "Migrate exec_sql True (\<lambda>_ _. False) now1 entries db1 = (r1, db2)"
    and "Migrate exec_sql True (\<lambda>_ _. False) now2 entries db = (r2, db3)"
  shows "r1 = r2 \<and> sm_schema db2 = sm_schema db3 \<and> map fst (sm_versions db2) = map fst (sm_versions db3)
    \<and> distinct (map fst (sm_versions db2))
    \<and> (r1 = Inr () \<longrightarrow> (\<forall>(name, body) \<in> set entries. \<exists>v. Atoi (takeWhile (\<lambda>c. c \<noteq> CHR ''_'') name) = Some v
         \<and> v \<in> fst ` set (sm_versions db2)))"
proof -
  let ?fs = "sort_key fst entries"
  have l1: "migrate_loop exec_sql sound now1 0 ?fs db1 = (r1, db2)" and l2: "migrate_loop exec_sql sound now2 0 ?fs db = (r2, db3)"
    using assms(3,4) by (simp_all add: Migrate_def)
  have "fst (migrate_loop exec_sql sound now1 0 ?fs db1) = fst (migrate_loop exec_sql sound now2 0 ?fs db)
    \<and> undated (snd (migrate_loop exec_sql sound now1 0 ?fs db1)) = undated (snd (migrate_loop exec_sql sound now2 0 ?fs db))"
  proof (cases created)
    case True
    with assms(1) show ?thesis by (intro migrate_loop_resumes) (simp add: Migrate_def)
  next
    case False
    with assms(1) show ?thesis by (intro sound_undated) (simp add: Migrate_def)
  qed
  then have eq: "r1 = r2" "undated db2 = undated db3" using l1 l2 by simp_all
  have "distinct (map fst (sm_versions db3))" by (rule migrate_loop_distinct [OF l2 assms(2)])
  moreover have "r1 = Inr () \<longrightarrow> (\<forall>(name, body) \<in> set entries. \<exists>v. Atoi (takeWhile (\<lambda>c. c \<noteq> CHR ''_'') name) = Some v
      \<and> v \<in> fst ` set (sm_versions db2))"
    using migrate_loop_done [of exec_sql sound now1 0 ?fs db1 db2] l1 by auto
  ultimately show ?thesis using eq by (simp add: undated_def)
qed

theorem Migrate_resumes_witness:
  "\<exists>db1 db2. Migrate (\<lambda>t s. Some (s @ [t])) True (\<lambda>i op. i = 1 \<and> op = Commit) (\<lambda>_. 0) [(''2_b'', 20), (''1_a'', 10 :: nat)]
        \<lparr>sm_versions = [], sm_schema = []\<rparr> = (Inl SqlError, db1) \<and> sm_schema db1 = [10]
     \<and> Migrate (\<lambda>t s. Some (s @ [t])) True (\<lambda>_ _. False) (\<lambda>_. 5) [(''2_b'', 20), (''1_a'', 10)] db1 = (Inr (), db2)
     \<and> sm_schema db2 = [10, 20]"
proof -
  let ?e = "\<lambda>t s. Some (s @ [t :: nat])" and ?fs = "[(''2_b'', 20), (''1_a'', 10 :: nat)]"
  let ?db = "\<lparr>sm_versions = [], sm_schema = []\<rparr>"
  have so: "sort_key fst ?fs = [(''1_a'', 10), (''2_b'', 20)]" by simp
  have at: "Atoi ''1'' = Some 1" "Atoi ''2'' = Some 2" by (simp_all add: Atoi_def is_digit_alt digits_val_def digit_val_def)
  have l: "Migrate ?e True (\<lambda>i op. i = 1 \<and> op = Commit) (\<lambda>_. 0) ?fs ?db = (Inl SqlError, \<lparr>sm_versions = [(1, utc 0)], sm_schema = [10]\<rparr>)"
    unfolding Migrate_def so by (simp add: at)
  have d: "Migrate ?e True (\<lambda>_ _. False) (\<lambda>_. 0) ?fs ?db = (Inr (), \<lparr>sm_versions = [(1, utc 0), (2, utc 0)], sm_schema = [10, 20]\<rparr>)"
    unfolding Migrate_def so by (simp add: at)
  obtain r1 db2 where m: "Migrate ?e True (\<lambda>_ _. False) (\<lambda>_. 5) ?fs \<lparr>sm_versions = [(1, utc 0)], sm_schema = [10]\<rparr> = (r1, db2)" by force
  from Migrate_resumes [OF l _ m d] have "r1 = Inr ()" "sm_schema db2 = [10, 20]" by simp_all
  with l m show ?thesis by auto
qed

text \<open>
  A database opens only on a path of its own, not on a directory found to be on NFS, and always with
  foreign keys and the write-ahead log on.
\<close>

theorem Open_settings:
  assumes "Open st mkdir_fails driver_fails cfg = Inr (dsn, pages)"
  shows "so_Path cfg \<noteq> [] \<and> so_Path cfg \<noteq> '':memory:'' \<and> st \<noteq> FsType 0x6969 \<and> 0 < pages
    \<and> (\<exists>ms. \<exists>mode \<in> {''FULL'', ''NORMAL'', ''OFF''}.
         dsn = ''file:'' @ so_Path cfg @ ''?_foreign_keys=on&_busy_timeout='' @ ms @ ''&_journal_mode=WAL&_synchronous='' @ mode)"
  using assms by (auto simp: Open_def rejectNFS_def Let_def split: statfs.splits if_splits)

text \<open>
  The check for NFS looks at the directory before it is created: on the first start, when the directory
  does not exist yet, it passes whatever file system the directory is then created on.
\<close>

theorem missing_directory_not_checked:
  "Open NotExist False False \<lparr>so_Path = ''n/g.db'', so_BusyTimeout = 0, so_Synchronous = [], so_CheckpointPages = 0\<rparr> \<noteq> Inl OnNFS
   \<and> \<not> isl (Open NotExist False False \<lparr>so_Path = ''n/g.db'', so_BusyTimeout = 0, so_Synchronous = [], so_CheckpointPages = 0\<rparr>)"
  by (simp add: Open_def rejectNFS_def Let_def ToUpper_def)

end
