(* ===== verification/GMLC_Process.thy ===== *)
theory GMLC_Process
  imports GMLC_Main GMLC_Logging GMLC_Open
begin

text \<open>
  The life of the process in \<open>cmd/gmlc/main.go\<close>: the start with every exit it can take, and the shutdown, in which
  \<open>main\<close> stops the purge, the listener, the two workers and the peers (\<open>Registry.Close\<close>), waiting for each
  under one deadline, and closes the store last, while all of them keep running.  The HTTP server, signals and
  the driver are outside: what they do are steps and arguments.
\<close>

section \<open>Start\<close>

text \<open>What the start meets outside the program: the file system, the parsers, the driver and the SQL text.\<close>

record ('t, 's) surroundings =
  su_file :: "bytes option"
  su_unmarshal :: "bytes \<Rightarrow> yaml_node option"
  su_decode :: "bytes \<Rightarrow> config option"
  su_log_opened :: bool
  su_statfs :: statfs
  su_mkdir_fails :: bool
  su_driver_fails :: bool
  su_exec_sql :: "'t \<Rightarrow> 's \<Rightarrow> 's option"
  su_created :: bool
  su_fault :: "nat \<Rightarrow> sql_op \<Rightarrow> bool"
  su_now :: "nat \<Rightarrow> time"
  su_migrations :: "(string \<times> 't) list"

datatype main_exit =
    ShownVersion | ConfigurationFailed load_error | LoggingFailed | OpenFailed open_error | MigrationFailed migrate_error
  | StartFailed exit_reason

definition sqlite_config_of :: "config \<Rightarrow> sqlite_config" where
  "sqlite_config_of cfg = \<lparr>so_Path = da_Path (cf_Database cfg), so_BusyTimeout = da_BusyTimeout (cf_Database cfg),
     so_Synchronous = da_Synchronous (cf_Database cfg), so_CheckpointPages = da_CheckpointPages (cf_Database cfg)\<rparr>"

text \<open>
  From the flags to the running components.  \<open>sch\<close> is the schema of the database and \<open>db\<close> its rows; both are
  returned as they are left.
\<close>

definition main_start ::
  "bool \<Rightarrow> bool \<Rightarrow> ('t, 's) surroundings \<Rightarrow> system \<Rightarrow> env \<Rightarrow> 's schema_db \<Rightarrow> db \<Rightarrow> (main_exit + config \<times> gmlc) \<times> 's schema_db \<times> db" where
  "main_start showVersion debug su sys E sch db =
     (if showVersion then (Inl ShownVersion, sch, db)
      else case Load (su_file su) (su_unmarshal su) (su_decode su) of
        Inl e \<Rightarrow> (Inl (ConfigurationFailed e), sch, db)
      | Inr cfg \<Rightarrow>
     (case Setup (cl_Level (cf_Logging cfg)) (su_log_opened su) (\<lambda>_. False) debug (\<lambda>_. False) of
        None \<Rightarrow> (Inl LoggingFailed, sch, db)
      | Some _ \<Rightarrow>
     (case Open (su_statfs su) (su_mkdir_fails su) (su_driver_fails su) (sqlite_config_of cfg) of
        Inl e \<Rightarrow> (Inl (OpenFailed e), sch, db)
      | Inr _ \<Rightarrow>
     (case Migrate (su_exec_sql su) (su_created su) (su_fault su) (su_now su) (su_migrations su) sch of
        (Inl e, sch) \<Rightarrow> (Inl (MigrationFailed e), sch, db)
      | (Inr _, sch) \<Rightarrow>
     (case boot (sy_sha256 sys) cfg E db of
        (Some e, db) \<Rightarrow> (Inl (StartFailed e), sch, db)
      | (None, db) \<Rightarrow>
     (case build sys cfg of
        Inl e \<Rightarrow> (Inl (StartFailed e), sch, db)
      | Inr g \<Rightarrow> (Inr (cfg, g), sch, db)))))))"

section \<open>Shutdown\<close>

text \<open>
  \<open>Registry.Close\<close>: it closes one manager after the other and waits for each.  \<open>expired\<close> says that its context
  is done; then it returns at the manager it waits for.
\<close>

datatype closing = ClosePeer nat | AwaitPeer nat | ClosedPeers bool

inductive registry_Close :: "bool \<Rightarrow> closing \<Rightarrow> manager list \<Rightarrow> closing \<Rightarrow> manager list \<Rightarrow> bool" where
  all_closed: "i = length ms \<Longrightarrow> registry_Close expired (ClosePeer i) ms (ClosedPeers True) ms"
| close_peer: "i < length ms \<Longrightarrow> close_step (ms ! i) m \<Longrightarrow> registry_Close expired (ClosePeer i) ms (ClosePeer i) (ms[i := m])"
| await_peer: "i < length ms \<Longrightarrow> mg_stop (ms ! i) \<Longrightarrow> registry_Close expired (ClosePeer i) ms (AwaitPeer i) ms"
| peer_done: "i < length ms \<Longrightarrow> mg_phase (ms ! i) = Done \<Longrightarrow> registry_Close expired (AwaitPeer i) ms (ClosePeer (i + 1)) ms"
| peer_late: "expired \<Longrightarrow> registry_Close expired (AwaitPeer i) ms (ClosedPeers False) ms"

datatype purge_phase = PurgeWaiting | Purging | PurgeDone

text \<open>Where \<open>main\<close> is after the start.\<close>

datatype main_phase =
    Serving | Signalled | StoppingListener | AwaitingHandlers | StoppingWorker | AwaitingWorker
  | StoppingDelivery | AwaitingDelivery | StoppingPeers closing | AwaitingPurge | ClosingStore | Exited

record process =
  pr_main :: main_phase
  pr_expired :: bool
  pr_purgeStop :: bool
  pr_purge :: purge_phase
  pr_listening :: bool
  pr_handlers :: nat
  pr_worker :: worker
  pr_delivery :: "worker option"
  pr_managers :: "manager list"
  pr_store_open :: bool

text \<open>The process when \<open>main\<close> begins to wait for a signal.\<close>

definition started :: "gmlc \<Rightarrow> process" where
  "started g = \<lparr>pr_main = Serving, pr_expired = False, pr_purgeStop = False, pr_purge = PurgeWaiting, pr_listening = True,
     pr_handlers = 0, pr_worker = worker_Start worker_New,
     pr_delivery = map_option (\<lambda>_. worker_Start worker_New) (gm_delivery g),
     pr_managers = rg_managers (BuildRegistry (gm_registry g)), pr_store_open = True\<rparr>"

text \<open>
  \<open>Store.Close\<close>: the checkpoint of the log, whose error is dropped, and then the driver.
\<close>

definition Store_Close :: "bool \<Rightarrow> process \<Rightarrow> process" where
  "Store_Close checkpoint_fails p = p\<lparr>pr_store_open := False\<rparr>"

text \<open>The steps of \<open>main\<close>, in the order of the source.\<close>

inductive main_step :: "process \<Rightarrow> process \<Rightarrow> bool" where
  purge_stop: "pr_main p = Signalled \<Longrightarrow> main_step p (p\<lparr>pr_purgeStop := True, pr_main := StoppingListener\<rparr>)"
| listener_stop: "pr_main p = StoppingListener \<Longrightarrow> main_step p (p\<lparr>pr_listening := False, pr_main := AwaitingHandlers\<rparr>)"
| handlers_done: "pr_main p = AwaitingHandlers \<Longrightarrow> pr_handlers p = 0 \<or> pr_expired p \<Longrightarrow> main_step p (p\<lparr>pr_main := StoppingWorker\<rparr>)"
| worker_cancel: "pr_main p = StoppingWorker \<Longrightarrow>
    main_step p (p\<lparr>pr_worker := Close_cancel (pr_worker p), pr_main := AwaitingWorker\<rparr>)"
| worker_waited: "pr_main p = AwaitingWorker \<Longrightarrow> Close_returns (pr_worker p) (pr_expired p) \<noteq> None \<Longrightarrow>
    main_step p (p\<lparr>pr_main := StoppingDelivery\<rparr>)"
| delivery_none: "pr_main p = StoppingDelivery \<Longrightarrow> pr_delivery p = None \<Longrightarrow>
    main_step p (p\<lparr>pr_main := StoppingPeers (ClosePeer 0)\<rparr>)"
| delivery_cancel: "pr_main p = StoppingDelivery \<Longrightarrow> pr_delivery p = Some w \<Longrightarrow>
    main_step p (p\<lparr>pr_delivery := Some (Close_cancel w), pr_main := AwaitingDelivery\<rparr>)"
| delivery_waited: "pr_main p = AwaitingDelivery \<Longrightarrow> pr_delivery p = Some w \<Longrightarrow> Close_returns w (pr_expired p) \<noteq> None \<Longrightarrow>
    main_step p (p\<lparr>pr_main := StoppingPeers (ClosePeer 0)\<rparr>)"
| peers_closing: "pr_main p = StoppingPeers c \<Longrightarrow> registry_Close (pr_expired p) c (pr_managers p) c' ms \<Longrightarrow>
    main_step p (p\<lparr>pr_managers := ms, pr_main := StoppingPeers c'\<rparr>)"
| peers_closed: "pr_main p = StoppingPeers (ClosedPeers ok) \<Longrightarrow> main_step p (p\<lparr>pr_main := AwaitingPurge\<rparr>)"
| purge_waited: "pr_main p = AwaitingPurge \<Longrightarrow> pr_purge p = PurgeDone \<or> pr_expired p \<Longrightarrow> main_step p (p\<lparr>pr_main := ClosingStore\<rparr>)"
| store_close: "pr_main p = ClosingStore \<Longrightarrow> main_step p ((Store_Close cf p)\<lparr>pr_main := Exited\<rparr>)"

text \<open>
  The steps of everything else while \<open>main\<close> has not exited: the signal, the deadline, the goroutine of the purge,
  the listener, whose failure is only logged, and its handlers, the loops of the workers and of the managers.
\<close>

inductive other_step :: "process \<Rightarrow> process \<Rightarrow> bool" where
  signalled: "pr_main p = Serving \<Longrightarrow> other_step p (p\<lparr>pr_main := Signalled\<rparr>)"
| expires: "pr_main p \<noteq> Serving \<Longrightarrow> other_step p (p\<lparr>pr_expired := True\<rparr>)"
| purge_tick: "pr_purge p = PurgeWaiting \<Longrightarrow> other_step p (p\<lparr>pr_purge := Purging\<rparr>)"
| purge_over: "pr_purge p = Purging \<Longrightarrow> other_step p (p\<lparr>pr_purge := PurgeWaiting\<rparr>)"
| purge_return: "pr_purge p = PurgeWaiting \<Longrightarrow> pr_purgeStop p \<Longrightarrow> other_step p (p\<lparr>pr_purge := PurgeDone\<rparr>)"
| arrival: "pr_listening p \<Longrightarrow> other_step p (p\<lparr>pr_handlers := pr_handlers p + 1\<rparr>)"
| listen_failed: "pr_listening p \<Longrightarrow> other_step p (p\<lparr>pr_listening := False\<rparr>)"
| answered: "0 < pr_handlers p \<Longrightarrow> other_step p (p\<lparr>pr_handlers := pr_handlers p - 1\<rparr>)"
| worker_moves: "e \<noteq> Started \<Longrightarrow> e \<noteq> Cancelled \<Longrightarrow> worker_step e (pr_worker p) = Some w \<Longrightarrow> other_step p (p\<lparr>pr_worker := w\<rparr>)"
| delivery_moves: "e \<noteq> Started \<Longrightarrow> e \<noteq> Cancelled \<Longrightarrow> pr_delivery p = Some v \<Longrightarrow> worker_step e v = Some w \<Longrightarrow>
    other_step p (p\<lparr>pr_delivery := Some w\<rparr>)"
| manager_moves: "i < length (pr_managers p) \<Longrightarrow> loop_step (pr_managers p ! i) cap m \<Longrightarrow>
    other_step p (p\<lparr>pr_managers := (pr_managers p)[i := m]\<rparr>)"

inductive process_run :: "gmlc \<Rightarrow> process \<Rightarrow> bool" for g where
  begins: "process_run g (started g)"
| main: "process_run g p \<Longrightarrow> main_step p p' \<Longrightarrow> process_run g p'"
| others: "process_run g p \<Longrightarrow> pr_main p \<noteq> Exited \<Longrightarrow> other_step p p' \<Longrightarrow> process_run g p'"

section \<open>Stages of the shutdown\<close>

fun stage :: "main_phase \<Rightarrow> nat" where
  "stage Serving = 0"
| "stage Signalled = 1"
| "stage StoppingListener = 2"
| "stage AwaitingHandlers = 3"
| "stage StoppingWorker = 4"
| "stage AwaitingWorker = 5"
| "stage StoppingDelivery = 6"
| "stage AwaitingDelivery = 7"
| "stage (StoppingPeers c) = 8"
| "stage AwaitingPurge = 9"
| "stage ClosingStore = 10"
| "stage Exited = 11"

text \<open>What has been told to stop so far, whether or not the deadline has passed.\<close>

definition told :: "process \<Rightarrow> bool" where
  "told p \<longleftrightarrow> wk_started (pr_worker p) \<and> (\<forall>w. pr_delivery p = Some w \<longrightarrow> wk_started w)
     \<and> (1 < stage (pr_main p) \<longrightarrow> pr_purgeStop p)
     \<and> (2 < stage (pr_main p) \<longrightarrow> \<not> pr_listening p)
     \<and> (4 < stage (pr_main p) \<longrightarrow> wk_ctx_done (pr_worker p))
     \<and> (6 < stage (pr_main p) \<longrightarrow> (\<forall>w. pr_delivery p = Some w \<longrightarrow> wk_ctx_done w))
     \<and> (pr_main p = AwaitingDelivery \<longrightarrow> pr_delivery p \<noteq> None)
     \<and> (pr_store_open p \<longleftrightarrow> pr_main p \<noteq> Exited)"

fun closed_before :: "closing \<Rightarrow> nat \<Rightarrow> nat" where
  "closed_before (ClosePeer i) n = i"
| "closed_before (AwaitPeer i) n = i"
| "closed_before (ClosedPeers ok) n = n"

text \<open>What has come to rest so far, when the deadline has not passed.\<close>

definition at_rest :: "process \<Rightarrow> bool" where
  "at_rest p \<longleftrightarrow>
     (3 < stage (pr_main p) \<longrightarrow> pr_handlers p = 0)
     \<and> (5 < stage (pr_main p) \<longrightarrow> wk_phase (pr_worker p) = loop_phase.Returned)
     \<and> (7 < stage (pr_main p) \<longrightarrow> (\<forall>w. pr_delivery p = Some w \<longrightarrow> wk_phase w = loop_phase.Returned))
     \<and> (\<forall>c. pr_main p = StoppingPeers c \<longrightarrow>
          (\<forall>j < closed_before c (length (pr_managers p)). j < length (pr_managers p) \<longrightarrow> mg_phase (pr_managers p ! j) = Done))
     \<and> (8 < stage (pr_main p) \<longrightarrow> (\<forall>m \<in> set (pr_managers p). mg_phase m = Done))
     \<and> (9 < stage (pr_main p) \<longrightarrow> pr_purge p = PurgeDone)"

text \<open>
  What the shutdown relies on in everything it stops: a component that was asked to end stays asked, and one that
  has ended does not come back, whatever steps it takes.
\<close>

locale component =
  fixes moves :: "'s \<Rightarrow> 's \<Rightarrow> bool" and asked :: "'s \<Rightarrow> bool" and ended :: "'s \<Rightarrow> bool"
  assumes asked_stays: "moves s s' \<Longrightarrow> asked s \<Longrightarrow> asked s'"
    and ended_stays: "moves s s' \<Longrightarrow> ended s \<Longrightarrow> ended s'"
begin

text \<open>One component of several moves: those that had ended still have.\<close>

lemma ended_update: "i < length ss \<Longrightarrow> moves (ss ! i) s \<Longrightarrow> j < length ss \<Longrightarrow> ended (ss ! j) \<Longrightarrow> ended (ss[i := s] ! j)"
  by (cases "i = j") (auto intro: ended_stays)

lemma all_ended_update: "i < length ss \<Longrightarrow> moves (ss ! i) s \<Longrightarrow> \<forall>x \<in> set ss. ended x \<Longrightarrow> \<forall>x \<in> set (ss[i := s]). ended x"
  using ended_stays set_update_subset_insert by fastforce

end

text \<open>The steps a worker takes besides its start, and those of a manager.\<close>

definition worker_moves_to :: "worker \<Rightarrow> worker \<Rightarrow> bool" where
  "worker_moves_to w w' \<longleftrightarrow> (\<exists>e. e \<noteq> Started \<and> worker_step e w = Some w')"

definition manager_moves_to :: "manager \<Rightarrow> manager \<Rightarrow> bool" where
  "manager_moves_to m m' \<longleftrightarrow> (\<exists>p. loop_step m p m') \<or> close_step m m'"

interpretation shell: component worker_moves_to wk_ctx_done "\<lambda>w. wk_phase w = loop_phase.Returned"
proof
  fix w w'
  assume "worker_moves_to w w'"
  then obtain e where e: "worker_step e w = Some w'" "e \<noteq> Started" by (auto simp: worker_moves_to_def)
  show "wk_ctx_done w \<Longrightarrow> wk_ctx_done w'" and "wk_phase w = loop_phase.Returned \<Longrightarrow> wk_phase w' = loop_phase.Returned"
    using e by (cases e; auto simp: Notify_def Close_cancel_def split: if_splits)+
qed

interpretation peer: component manager_moves_to mg_stop "\<lambda>m. mg_phase m = Done"
  by unfold_locales (auto simp: manager_moves_to_def loop_step.simps close_step.simps mg_set_def)

lemma worker_step_started: "worker_step e w = Some w' \<Longrightarrow> e \<noteq> Started \<Longrightarrow> wk_started w' = wk_started w"
  by (cases e) (auto simp: Notify_def Close_cancel_def split: if_splits)

lemma worker_step_moves: "worker_step e w = Some w' \<Longrightarrow> e \<noteq> Started \<Longrightarrow> worker_moves_to w w'"
  by (auto simp: worker_moves_to_def)

lemma loop_step_moves: "loop_step m p m' \<Longrightarrow> manager_moves_to m m'"
  by (auto simp: manager_moves_to_def)

lemma Close_cancel_started [simp]:
  "wk_started (Close_cancel w) = wk_started w" "wk_started w \<Longrightarrow> wk_ctx_done (Close_cancel w)" "wk_phase (Close_cancel w) = wk_phase w"
  by (simp_all add: Close_cancel_def)

lemma Close_returns_iff: "Close_returns w x \<noteq> None \<longleftrightarrow> wk_phase w = loop_phase.Returned \<or> x"
  by (auto simp: Close_returns_def)

lemma close_step_phase: "close_step m m' \<Longrightarrow> mg_phase m' = mg_phase m"
  by (auto simp: close_step.simps mg_set_def)

lemma registry_Close_phases: "registry_Close x c ms c' ms' \<Longrightarrow> map mg_phase ms' = map mg_phase ms"
  by (auto simp: registry_Close.simps map_update close_step_phase) (metis close_step_phase length_map list_update_id nth_map)

lemma registry_Close_before:
  assumes "registry_Close False c ms c' ms'" and "\<forall>j < closed_before c (length ms). j < length ms \<longrightarrow> mg_phase (ms ! j) = Done"
    and "j < closed_before c' (length ms)" and "j < length ms"
  shows "mg_phase (ms ! j) = Done"
  using assms by (auto simp: registry_Close.simps less_Suc_eq)

lemma told_main: "main_step p p' \<Longrightarrow> told p \<Longrightarrow> told p'"
  by (cases p p' rule: main_step.cases) (auto simp: told_def Store_Close_def)

lemma told_other:
  assumes "other_step p p'" and "told p" and "pr_main p \<noteq> Exited"
  shows "told p'"
  using assms
proof (cases p p' rule: other_step.cases)
  case (worker_moves e w)
  with worker_step_started [OF worker_moves(4,2)] shell.asked_stays [OF worker_step_moves [OF worker_moves(4,2)]] assms(2)
  show ?thesis by (auto simp: told_def)
next
  case (delivery_moves e v w)
  with worker_step_started [OF delivery_moves(5,2)] shell.asked_stays [OF worker_step_moves [OF delivery_moves(5,2)]] assms(2)
  show ?thesis by (auto simp: told_def)
qed (auto simp: told_def)

lemma phases_Done:
  "map mg_phase ms' = map mg_phase ms \<Longrightarrow> (\<forall>m \<in> set ms'. mg_phase m = Done) \<longleftrightarrow> (\<forall>m \<in> set ms. mg_phase m = Done)"
  by (metis in_set_conv_nth length_map nth_map)

lemma phases_nth: "map mg_phase ms' = map mg_phase ms \<Longrightarrow> j < length ms \<Longrightarrow> mg_phase (ms' ! j) = mg_phase (ms ! j)"
  by (metis length_map nth_map)

lemma at_rest_main:
  assumes "main_step p p'" and "at_rest p" and "told p" and "\<not> pr_expired p"
  shows "at_rest p'"
  using assms
proof (cases p p' rule: main_step.cases)
  case (worker_waited)
  with worker_waited(3) [unfolded Close_returns_iff] assms show ?thesis by (simp add: at_rest_def)
next
  case (delivery_waited w)
  with delivery_waited(4) [unfolded Close_returns_iff] assms show ?thesis by (simp add: at_rest_def)
next
  case (peers_closing c c' ms)
  have ph: "map mg_phase ms = map mg_phase (pr_managers p)" by (rule registry_Close_phases [OF peers_closing(3)])
  then have l: "length ms = length (pr_managers p)" by (metis length_map)
  have "\<forall>j < closed_before c' (length ms). j < length ms \<longrightarrow> mg_phase (ms ! j) = Done"
    using registry_Close_before [of c "pr_managers p" c' ms] peers_closing assms(2,4) phases_nth [OF ph] l
    by (simp add: at_rest_def)
  with peers_closing assms(2) show ?thesis by (simp add: at_rest_def)
next
  case (peers_closed ok)
  with assms show ?thesis by (auto simp: at_rest_def in_set_conv_nth)
qed (auto simp: at_rest_def Store_Close_def)

lemma at_rest_other:
  assumes "other_step p p'" and "at_rest p" and "told p" and "\<not> pr_expired p'"
  shows "at_rest p'"
  using assms
proof (cases p p' rule: other_step.cases)
  case (worker_moves e w)
  with shell.ended_stays [OF worker_step_moves [OF worker_moves(4,2)]] assms(2) show ?thesis by (auto simp: at_rest_def)
next
  case (delivery_moves e v w)
  with shell.ended_stays [OF worker_step_moves [OF delivery_moves(5,2)]] assms(2) show ?thesis by (auto simp: at_rest_def)
next
  case (manager_moves i cap m)
  note moved = manager_moves(2) loop_step_moves [OF manager_moves(3)]
  from manager_moves(1) assms(2) peer.ended_update [OF moved] peer.all_ended_update [OF moved] show ?thesis by (simp add: at_rest_def)
qed (auto simp: at_rest_def told_def)

lemma expired_stays: "main_step p p' \<Longrightarrow> pr_expired p' = pr_expired p"
  by (cases p p' rule: main_step.cases) (auto simp: Store_Close_def)

lemma expired_grows: "other_step p p' \<Longrightarrow> pr_expired p \<Longrightarrow> pr_expired p'"
  by (cases p p' rule: other_step.cases) auto

lemma process_run_told: "process_run g p \<Longrightarrow> told p"
proof (induction rule: process_run.induct)
  case begins
  show ?case by (auto simp: told_def started_def worker_Start_def)
qed (auto intro: told_main told_other)

lemma process_run_at_rest: "process_run g p \<Longrightarrow> \<not> pr_expired p \<Longrightarrow> at_rest p"
proof (induction rule: process_run.induct)
  case begins
  show ?case by (simp add: at_rest_def started_def)
next
  case (main p p')
  then show ?case using at_rest_main expired_stays process_run_told by metis
next
  case (others p p')
  then show ?case using at_rest_other expired_grows process_run_told by metis
qed

section \<open>The shutdown ends\<close>

text \<open>A bound on the steps that \<open>main\<close> has left: two to close a manager, one to wait, one to go on, for each of them.\<close>

definition close_parts :: "manager \<Rightarrow> nat" where
  "close_parts m = (if mg_closing m then 1 else 0) + (if mg_stop m then 1 else 0)"

fun peer_steps :: "closing \<Rightarrow> manager list \<Rightarrow> nat" where
  "peer_steps (ClosePeer i) ms = 4 * (length ms - i) + 4 - (if i < length ms then close_parts (ms ! i) else 0)"
| "peer_steps (AwaitPeer i) ms = 4 * (length ms - i) + 1"
| "peer_steps (ClosedPeers ok) ms = 3"

definition steps_left :: "process \<Rightarrow> nat" where
  "steps_left p = (case pr_main p of
     StoppingPeers c \<Rightarrow> peer_steps c (pr_managers p)
   | ph \<Rightarrow> if stage ph < 8 then 4 * length (pr_managers p) + 12 - stage ph else 11 - stage ph)"

definition peers_ok :: "process \<Rightarrow> bool" where
  "peers_ok p \<longleftrightarrow> (\<forall>i. pr_main p = StoppingPeers (ClosePeer i) \<longrightarrow> i \<le> length (pr_managers p))
     \<and> (\<forall>i. pr_main p = StoppingPeers (AwaitPeer i) \<longrightarrow> i < length (pr_managers p))"

lemma peers_ok_run: "process_run g p \<Longrightarrow> peers_ok p"
proof (induction rule: process_run.induct)
  case (main p p')
  from main(2,3) show ?case
    by (cases p p' rule: main_step.cases) (auto simp: peers_ok_def Store_Close_def registry_Close.simps)
next
  case (others p p')
  from others(3,4) show ?case by (cases p p' rule: other_step.cases) (auto simp: peers_ok_def)
qed (simp add: peers_ok_def started_def)

lemma close_parts_le: "close_parts m \<le> 2"
  by (simp add: close_parts_def)

lemma close_step_parts: "close_step m m' \<Longrightarrow> close_parts m' = close_parts m + 1"
  by (auto simp: close_step.simps close_parts_def mg_set_def)

lemma loop_step_parts: "loop_step m p m' \<Longrightarrow> close_parts m' = close_parts m"
  by (auto simp: loop_step.simps close_parts_def mg_set_def)

lemma registry_Close_decreases:
  assumes "registry_Close x c ms c' ms'" and "\<forall>i. c = AwaitPeer i \<longrightarrow> i < length ms"
  shows "peer_steps c' ms' < peer_steps c ms"
  using assms(1)
proof cases
  case (close_peer i m)
  have "close_parts m \<le> 2" "close_parts m = close_parts (ms ! i) + 1" by (rule close_parts_le, rule close_step_parts [OF close_peer(5)])
  with close_peer show ?thesis by simp
next
  case (await_peer i)
  with close_parts_le [of "ms ! i"] show ?thesis by simp
next
  case (peer_done i)
  then show ?thesis by simp
next
  case (peer_late i)
  with assms(2) show ?thesis by simp
qed simp

lemma peer_steps_start: "peer_steps (ClosePeer 0) ms \<le> 4 * length ms + 4"
  by simp

lemma main_decreases:
  assumes "main_step p p'" and "peers_ok p"
  shows "steps_left p' < steps_left p"
  using assms(1)
proof cases
  case (peers_closing c c' ms)
  have "\<forall>i. c = AwaitPeer i \<longrightarrow> i < length (pr_managers p)" using assms(2) peers_closing by (auto simp: peers_ok_def)
  from registry_Close_decreases [OF peers_closing(3) this] peers_closing show ?thesis by (simp add: steps_left_def)
next
  case delivery_none
  with peer_steps_start [of "pr_managers p"] show ?thesis by (simp add: steps_left_def del: peer_steps.simps)
next
  case (delivery_waited w)
  with peer_steps_start [of "pr_managers p"] show ?thesis by (simp add: steps_left_def del: peer_steps.simps)
qed (simp_all add: steps_left_def Store_Close_def)

lemma others_keep_steps:
  assumes "other_step p p'" and "pr_main p \<noteq> Serving"
  shows "steps_left p' = steps_left p"
  using assms
proof (cases p p' rule: other_step.cases)
  case (manager_moves i cap m)
  have "peer_steps c ((pr_managers p)[i := m]) = peer_steps c (pr_managers p)" for c
  proof (cases c)
    case (ClosePeer j)
    then show ?thesis using loop_step_parts [OF manager_moves(3)] by (cases "i = j") simp_all
  qed simp_all
  with manager_moves show ?thesis by (simp add: steps_left_def split: main_phase.split)
qed (auto simp: steps_left_def split: main_phase.split)

lemma peer_steps_bound: "peer_steps c ms \<le> 4 * length ms + 11"
  by (cases c) auto

lemma steps_left_bound: "pr_main p \<noteq> Serving \<Longrightarrow> steps_left p \<le> 4 * length (pr_managers p) + 11"
  using peer_steps_bound [of _ "pr_managers p"] by (cases "pr_main p") (auto simp: steps_left_def)

text \<open>Once its deadline has passed, nothing that \<open>main\<close> waits for holds it up.\<close>

lemma registry_Close_advances:
  assumes "\<forall>i. c = ClosePeer i \<longrightarrow> i \<le> length ms" and "\<forall>ok. c \<noteq> ClosedPeers ok"
  shows "\<exists>c' ms'. registry_Close True c ms c' ms'"
proof (cases c)
  case (ClosePeer i)
  with assms(1) consider "i = length ms" | "i < length ms" "mg_stop (ms ! i)" | "i < length ms" "\<not> mg_stop (ms ! i)" "mg_closing (ms ! i)"
    | "i < length ms" "\<not> mg_closing (ms ! i)" by fastforce
  then show ?thesis unfolding ClosePeer by cases (blast intro: registry_Close.intros close_step.intros)+
next
  case (AwaitPeer i)
  then show ?thesis by (blast intro: registry_Close.peer_late)
qed (use assms(2) in simp)

lemma main_advances:
  assumes "pr_expired p" and "told p" and "peers_ok p" and "pr_main p \<noteq> Serving" and "pr_main p \<noteq> Exited"
  shows "\<exists>p'. main_step p p'"
proof (cases "pr_main p")
  case (StoppingPeers c)
  show ?thesis
  proof (cases "\<exists>ok. c = ClosedPeers ok")
    case True
    with StoppingPeers show ?thesis by (auto intro: main_step.peers_closed)
  next
    case False
    with assms(3) StoppingPeers have "\<exists>c' ms'. registry_Close True c (pr_managers p) c' ms'"
      by (intro registry_Close_advances) (auto simp: peers_ok_def)
    with StoppingPeers assms(1) show ?thesis by (metis main_step.peers_closing)
  qed
next
  case StoppingDelivery
  then show ?thesis by (cases "pr_delivery p") (auto intro: main_step.delivery_none main_step.delivery_cancel)
next
  case AwaitingDelivery
  with assms(2) obtain w where w: "pr_delivery p = Some w" by (auto simp: told_def)
  from main_step.delivery_waited [OF AwaitingDelivery w, unfolded Close_returns_iff] assms(1) show ?thesis by blast
next
  case AwaitingWorker
  from main_step.worker_waited [OF AwaitingWorker, unfolded Close_returns_iff] assms(1) show ?thesis by blast
qed (use assms in \<open>blast intro: main_step.intros\<close>)+

lemma expired_signalled: "process_run g p \<Longrightarrow> pr_expired p \<Longrightarrow> pr_main p \<noteq> Serving"
proof (induction rule: process_run.induct)
  case (main p p')
  from main(2) show ?case by (cases p p' rule: main_step.cases) auto
next
  case (others p p')
  from others(3) others show ?case by (cases p p' rule: other_step.cases) auto
qed (simp add: started_def)

section \<open>Facts about the start\<close>

lemma Setup_config: "config_ok cfg \<Longrightarrow> \<exists>hs. Setup (cl_Level (cf_Logging cfg)) True f debug c = Some hs"
  by (auto simp: Setup_def level_def Let_def config_ok_def)

lemma Load_ok: "Load file unmarshal decode = Inr cfg \<Longrightarrow> config_ok cfg"
  by (auto simp: Load_def Let_def config_Validate_None split: option.splits)

lemma Migrate_done:
  assumes "Migrate exec_sql created fault now entries sch = (Inr x, sch')"
  shows "\<forall>(name, body) \<in> set entries. \<exists>v. Atoi (takeWhile (\<lambda>c. c \<noteq> CHR ''_'') name) = Some v \<and> v \<in> fst ` set (sm_versions sch')"
  using assms migrate_loop_done [of exec_sql fault now 0 "sort_key fst entries" sch] by (auto simp: Migrate_def split: if_splits)

section \<open>Properties\<close>

text \<open>
  Serving requires a complete start: whenever \<open>main\<close> comes to serve, the configuration loaded and is
  well formed, the database is on a path of its own and every migration of the program is applied to it, and the
  components are those built from that configuration.  When the start ends before the migrations, neither the schema nor
  the rows have changed; when a migration fails, the rows have not.
\<close>

theorem start_sound:
  assumes "main_start showVersion debug su sys E sch db = (res, sch', db')"
  shows "(\<forall>cfg g. res = Inr (cfg, g) \<longrightarrow> config_ok cfg \<and> build sys cfg = Inr g \<and> boot (sy_sha256 sys) cfg E db = (None, db')
       \<and> da_Path (cf_Database cfg) \<noteq> '':memory:''
       \<and> (\<forall>(name, body) \<in> set (su_migrations su). \<exists>v. Atoi (takeWhile (\<lambda>c. c \<noteq> CHR ''_'') name) = Some v
            \<and> v \<in> fst ` set (sm_versions sch')))
    \<and> (res = Inl ShownVersion \<or> res = Inl LoggingFailed \<or> (\<exists>e. res = Inl (ConfigurationFailed e)) \<or> (\<exists>e. res = Inl (OpenFailed e))
       \<longrightarrow> sch' = sch \<and> db' = db)
    \<and> (\<forall>e. res = Inl (MigrationFailed e) \<longrightarrow> db' = db)"
proof (cases res)
  case (Inl e)
  with assms show ?thesis by (auto simp: main_start_def split: if_splits sum.splits option.splits prod.splits)
next
  case (Inr x)
  then obtain cfg g where x: "res = Inr (cfg, g)" by (cases x) auto
  with assms have l: "Load (su_file su) (su_unmarshal su) (su_decode su) = Inr cfg"
    and o: "\<not> isl (Open (su_statfs su) (su_mkdir_fails su) (su_driver_fails su) (sqlite_config_of cfg))"
    and m: "\<exists>u. Migrate (su_exec_sql su) (su_created su) (su_fault su) (su_now su) (su_migrations su) sch = (Inr u, sch')"
    and b: "boot (sy_sha256 sys) cfg E db = (None, db')" "build sys cfg = Inr g"
    by (auto simp: main_start_def split: if_splits sum.splits option.splits prod.splits)
  have "da_Path (cf_Database cfg) \<noteq> '':memory:''" using o by (auto simp: Open_def sqlite_config_of_def)
  moreover from m obtain u where "Migrate (su_exec_sql su) (su_created su) (su_fault su) (su_now su) (su_migrations su) sch = (Inr u, sch')" by blast
  note Migrate_done [OF this]
  ultimately show ?thesis using x b Load_ok [OF l] by simp
qed

text \<open>
  C24: When a start comes to serve.  The conditions on the configuration, beyond that it loads: a path that is not
  \<open>:memory:\<close>, a known synchronous mode or none, no client with a service or prefix twice, and identities that
  are not blank.  The conditions on the surroundings: the log file opens, the directory of the database can
  be looked at, is not on NFS and can be made, the driver opens the file, no database operation fails, and
  the embedded migrations are numbered and apply in their order to the schema that is there.  Then
  \<open>main\<close> comes to serve: every migration is recorded, the components are wired as configured, and every
  configured client is admitted with its token and with nothing else.
\<close>

theorem start_serves:
  assumes "Load (su_file su) (su_unmarshal su) (su_decode su) = Inr cfg" and "su_log_opened su"
    and "da_Path (cf_Database cfg) \<noteq> '':memory:''"
    and "ToUpper (da_Synchronous (cf_Database cfg)) \<in> {[], ''FULL'', ''NORMAL'', ''OFF''}"
    and "su_statfs su \<noteq> StatFails" and "su_statfs su \<noteq> FsType 0x6969" and "\<not> su_mkdir_fails su" and "\<not> su_driver_fails su"
    and "su_created su" and "su_fault su = (\<lambda>_ _. False)" and "migrations_apply (su_exec_sql su) fits (su_migrations su)"
    and "fits (fst ` set (sm_versions sch)) (sm_schema sch)"
    and "undisturbed E" and "\<forall>c \<in> set (cf_Clients cfg). distinct_grants c" and "identities_present (cf_Diameter cfg)"
  shows "\<exists>g sch' db'. main_start False debug su sys E sch db = (Inr (cfg, g), sch', db') \<and> wired sys cfg g
    \<and> fits (fst ` set (sm_versions sch')) (sm_schema sch')
    \<and> (\<forall>f \<in> set (su_migrations su). version_of f \<in> Some ` fst ` set (sm_versions sch'))
    \<and> (\<forall>c \<in> set (cf_Clients cfg). admitted (sy_sha256 sys) c db')"
proof -
  have ok: "config_ok cfg" by (rule Load_ok [OF assms(1)])
  then have c: "distinct (map cc_ID (cf_Clients cfg))" "\<forall>c \<in> set (cf_Clients cfg). client_ok c" "da_Path (cf_Database cfg) \<noteq> []"
    by (simp_all add: config_ok_def)
  obtain x where x: "Open (su_statfs su) (su_mkdir_fails su) (su_driver_fails su) (sqlite_config_of cfg) = Inr x"
    using Open_succeeds [of "sqlite_config_of cfg" "su_statfs su"] assms(3-8) c(3) by (auto simp: sqlite_config_of_def)
  from Migrate_applies [OF assms(11,12), of "su_now su"] assms(9,10) obtain sch' where
    m: "Migrate (su_exec_sql su) (su_created su) (su_fault su) (su_now su) (su_migrations su) sch = (Inr (), sch')"
    and f: "fits (fst ` set (sm_versions sch')) (sm_schema sch')"
      "\<forall>f \<in> set (su_migrations su). version_of f \<in> Some ` fst ` set (sm_versions sch')" by auto
  from boot_grants [OF assms(13) c(1) assms(14), of "sy_sha256 sys" db] obtain db' where
    b: "boot (sy_sha256 sys) cfg E db = (None, db')" "\<forall>c \<in> set (cf_Clients cfg). admitted (sy_sha256 sys) c db'"
    using c(2) stored_admitted by metis
  from build_wired [OF ok assms(15), of sys] obtain g where g: "build sys cfg = Inr g" "wired sys cfg g" by blast
  from Setup_config [OF ok] obtain hs where "Setup (cl_Level (cf_Logging cfg)) True (\<lambda>_. False) debug (\<lambda>_. False) = Some hs" by blast
  with assms(1,2) x m b(1) g(1) have "main_start False debug su sys E sch db = (Inr (cfg, g), sch', db')"
    by (simp add: main_start_def)
  with b(2) g(2) f show ?thesis by blast
qed

text \<open>
  C25: The store is closed last: if \<open>main\<close> has closed it and the deadline of the shutdown has not passed, then
  everything that \<open>main\<close> stops has come to rest for good: the listener is closed and its handlers have answered, both
  workers have returned, every manager has ended its loop, and so has the purge.
\<close>

theorem shutdown_orderly:
  assumes "process_run g p" and "\<not> pr_store_open p" and "\<not> pr_expired p"
  shows "\<not> pr_listening p \<and> pr_handlers p = 0 \<and> wk_phase (pr_worker p) = loop_phase.Returned
    \<and> (\<forall>w. pr_delivery p = Some w \<longrightarrow> wk_phase w = loop_phase.Returned)
    \<and> (\<forall>m \<in> set (pr_managers p). mg_phase m = Done) \<and> pr_purge p = PurgeDone"
proof -
  have t: "told p" by (rule process_run_told [OF assms(1)])
  with assms(2) have "pr_main p = Exited" by (simp add: told_def)
  with t process_run_at_rest [OF assms(1,3)] show ?thesis by (simp add: told_def at_rest_def)
qed

text \<open>
  C26: The deadline bounds the shutdown: once it has passed, \<open>main\<close> can always take its next step until it has exited,
  every step of its own uses up one of at most four for each peer and eleven more, and no step of the workers, the
  handlers, the purge or the peers adds to what is left.
\<close>

theorem shutdown_ends:
  assumes "process_run g p" and "pr_expired p"
  shows "(pr_main p \<noteq> Exited \<longrightarrow> (\<exists>p'. main_step p p')) \<and> (\<forall>p'. main_step p p' \<longrightarrow> steps_left p' < steps_left p)
    \<and> (\<forall>p'. other_step p p' \<longrightarrow> steps_left p' = steps_left p) \<and> steps_left p \<le> 4 * length (pr_managers p) + 11"
proof -
  have inv: "told p" "peers_ok p" "pr_main p \<noteq> Serving"
    using process_run_told [OF assms(1)] peers_ok_run [OF assms(1)] expired_signalled [OF assms] by simp_all
  with assms(2) show ?thesis
    using main_advances main_decreases others_keep_steps steps_left_bound by metis
qed

section \<open>A shutdown\<close>

definition sample_gmlc :: gmlc where
  "sample_gmlc = \<lparr>gm_registry = sample_registry, gm_lrr = None, gm_service = sample_service, gm_resolver = sample_slh,
     gm_provider = \<lparr>gc_OriginHost = ''g'', gc_OriginRealm = ''r'', gc_RequestTimeout = 1\<rparr>, gm_delivery = None,
     gm_syncWaitDefault = 1, gm_syncWaitMax = 1\<rparr>"

definition sample_process :: "main_phase \<Rightarrow> bool \<Rightarrow> bool \<Rightarrow> worker \<Rightarrow> manager \<Rightarrow> purge_phase \<Rightarrow> bool \<Rightarrow> process" where
  "sample_process ph st li w m pu so = \<lparr>pr_main = ph, pr_expired = False, pr_purgeStop = st, pr_purge = pu, pr_listening = li,
     pr_handlers = 0, pr_worker = w, pr_delivery = None, pr_managers = [m], pr_store_open = so\<rparr>"

lemma sample_main: "process_run g p \<Longrightarrow> main_step p p' \<Longrightarrow> p' = q \<Longrightarrow> process_run g q"
  using process_run.main by blast

lemma sample_other: "process_run g p \<Longrightarrow> other_step p p' \<Longrightarrow> pr_main p \<noteq> Exited \<Longrightarrow> p' = q \<Longrightarrow> process_run g q"
  using process_run.others by blast

lemma sample_peers:
  "process_run g (sample_process (StoppingPeers c) st li w m pu so) \<Longrightarrow> registry_Close False c [m] c' [m'] \<Longrightarrow>
     process_run g (sample_process (StoppingPeers c') st li w m' pu so)"
  by (erule sample_main, rule main_step.peers_closing) (auto simp: sample_process_def)

lemma sample_started: "process_run sample_gmlc (sample_process Serving False True (worker_Start worker_New) sample_manager PurgeWaiting True)"
proof -
  have "rg_managers (BuildRegistry sample_registry) = [sample_manager]"
    by (simp add: BuildRegistry_def sample_registry_def sample_manager_def manager_New_def SetName_def SetCapabilityCallback_def Let_def)
  then have "started sample_gmlc = sample_process Serving False True (worker_Start worker_New) sample_manager PurgeWaiting True"
    by (simp add: started_def sample_process_def sample_gmlc_def)
  with process_run.begins [of sample_gmlc] show ?thesis by simp
qed

text \<open>The worker ends its iteration and sees the cancellation; the manager sees the stop before it dials.\<close>

lemma sample_exits: "\<exists>w m. process_run sample_gmlc (sample_process Exited True False w m PurgeDone False)"
proof -
  let ?s = sample_process and ?w = "worker_Start worker_New" and ?m = sample_manager
  note ms = sample_main and os = sample_other
  have ph: "mg_phase ?m = AtTop" "\<not> mg_closing ?m" "\<not> mg_stop ?m" by (simp_all add: sample_manager_def)
  have "process_run sample_gmlc (?s Signalled False True ?w ?m PurgeWaiting True)"
    by (rule os [OF sample_started other_step.signalled]) (simp_all add: sample_process_def)
  then have "process_run sample_gmlc (?s StoppingListener True True ?w ?m PurgeWaiting True)"
    by (rule ms [OF _ main_step.purge_stop]) (simp_all add: sample_process_def)
  then have "process_run sample_gmlc (?s AwaitingHandlers True False ?w ?m PurgeWaiting True)"
    by (rule ms [OF _ main_step.listener_stop]) (simp_all add: sample_process_def)
  then have "process_run sample_gmlc (?s StoppingWorker True False ?w ?m PurgeWaiting True)"
    by (rule ms [OF _ main_step.handlers_done]) (simp_all add: sample_process_def)
  then have "process_run sample_gmlc (?s AwaitingWorker True False (Close_cancel ?w) ?m PurgeWaiting True)"
    by (rule ms [OF _ main_step.worker_cancel]) (simp_all add: sample_process_def)
  then have "process_run sample_gmlc (?s AwaitingWorker True False ((Close_cancel ?w)\<lparr>wk_phase := Iterating\<rparr>) ?m PurgeWaiting True)"
    by (rule os [OF _ other_step.worker_moves [of Begins]]) (simp_all add: sample_process_def worker_Start_def)
  then have "process_run sample_gmlc (?s AwaitingWorker True False ((Close_cancel ?w)\<lparr>wk_phase := Selecting\<rparr>) ?m PurgeWaiting True)"
    by (rule os [OF _ other_step.worker_moves [of "Ends False"]]) (simp_all add: sample_process_def)
  then have "process_run sample_gmlc (?s AwaitingWorker True False ((Close_cancel ?w)\<lparr>wk_phase := loop_phase.Returned\<rparr>) ?m PurgeWaiting True)"
    by (rule os [OF _ other_step.worker_moves [of Stops]]) (simp_all add: sample_process_def worker_Start_def)
  moreover define w where "w = (Close_cancel ?w)\<lparr>wk_phase := loop_phase.Returned\<rparr>"
  ultimately have "process_run sample_gmlc (?s AwaitingWorker True False w ?m PurgeWaiting True)" and w: "wk_phase w = loop_phase.Returned"
    by simp_all
  then have "process_run sample_gmlc (?s StoppingDelivery True False w ?m PurgeWaiting True)"
    by (elim ms [OF _ main_step.worker_waited]) (simp_all add: sample_process_def Close_returns_def)
  then have "process_run sample_gmlc (?s (StoppingPeers (ClosePeer 0)) True False w ?m PurgeWaiting True)"
    by (rule ms [OF _ main_step.delivery_none]) (simp_all add: sample_process_def)
  then have "process_run sample_gmlc (?s (StoppingPeers (ClosePeer 0)) True False w ((mg_set StateStopping None ?m)\<lparr>mg_closing := True\<rparr>) PurgeWaiting True)"
    using registry_Close.close_peer [of 0 "[?m]", OF _ close_step.close_set] ph by (elim sample_peers) simp
  moreover define m1 where "m1 = (mg_set StateStopping None ?m)\<lparr>mg_closing := True\<rparr>"
  ultimately have "process_run sample_gmlc (?s (StoppingPeers (ClosePeer 0)) True False w m1 PurgeWaiting True)"
    and m1: "mg_closing m1" "\<not> mg_stop m1" "mg_phase m1 = AtTop" using ph by (simp_all add: mg_set_def)
  then have "process_run sample_gmlc (?s (StoppingPeers (ClosePeer 0)) True False w (m1\<lparr>mg_stop := True\<rparr>) PurgeWaiting True)"
    using registry_Close.close_peer [of 0 "[m1]", OF _ close_step.close_stop] by (elim sample_peers) simp
  then have "process_run sample_gmlc (?s (StoppingPeers (AwaitPeer 0)) True False w (m1\<lparr>mg_stop := True\<rparr>) PurgeWaiting True)"
    using registry_Close.await_peer [of 0 "[m1\<lparr>mg_stop := True\<rparr>]"] by (elim sample_peers) simp
  then have "process_run sample_gmlc (?s (StoppingPeers (AwaitPeer 0)) True False w (m1\<lparr>mg_stop := True, mg_phase := Done\<rparr>) PurgeWaiting True)"
    using loop_step.seen_stop [of "m1\<lparr>mg_stop := True\<rparr>"] m1
    by (elim os [OF _ other_step.manager_moves [of 0 _ None]]) (simp_all add: sample_process_def)
  moreover define m where "m = m1\<lparr>mg_stop := True, mg_phase := Done\<rparr>"
  ultimately have "process_run sample_gmlc (?s (StoppingPeers (AwaitPeer 0)) True False w m PurgeWaiting True)" and m: "mg_phase m = Done"
    by simp_all
  then have "process_run sample_gmlc (?s (StoppingPeers (ClosePeer 1)) True False w m PurgeWaiting True)"
    using registry_Close.peer_done [of 0 "[m]"] by (elim sample_peers) simp
  then have "process_run sample_gmlc (?s (StoppingPeers (ClosedPeers True)) True False w m PurgeWaiting True)"
    using registry_Close.all_closed [of 1 "[m]"] by (elim sample_peers) simp
  then have "process_run sample_gmlc (?s AwaitingPurge True False w m PurgeWaiting True)"
    by (rule ms [OF _ main_step.peers_closed]) (simp_all add: sample_process_def)
  then have "process_run sample_gmlc (?s AwaitingPurge True False w m PurgeDone True)"
    by (rule os [OF _ other_step.purge_return]) (simp_all add: sample_process_def)
  then have "process_run sample_gmlc (?s ClosingStore True False w m PurgeDone True)"
    by (rule ms [OF _ main_step.purge_waited]) (simp_all add: sample_process_def)
  then have "process_run sample_gmlc (?s Exited True False w m PurgeDone False)"
    by (rule ms [OF _ main_step.store_close]) (simp_all add: sample_process_def Store_Close_def)
  then show ?thesis by blast
qed

theorem shutdown_orderly_witness:
  "\<exists>p. process_run sample_gmlc p \<and> \<not> pr_store_open p \<and> wk_phase (pr_worker p) = loop_phase.Returned
     \<and> (\<forall>m \<in> set (pr_managers p). mg_phase m = Done)"
proof -
  obtain w m where p: "process_run sample_gmlc (sample_process Exited True False w m PurgeDone False)" using sample_exits by blast
  from shutdown_orderly [OF p] p show ?thesis by (intro exI [of _ "sample_process Exited True False w m PurgeDone False"])
      (simp add: sample_process_def)
qed

theorem shutdown_ends_witness:
  "\<exists>p p'. process_run sample_gmlc p \<and> pr_expired p \<and> main_step p p' \<and> steps_left p' < steps_left p \<and> steps_left p \<le> 15"
proof -
  let ?p = "(sample_process Signalled False True (worker_Start worker_New) sample_manager PurgeWaiting True)\<lparr>pr_expired := True\<rparr>"
  have "process_run sample_gmlc (sample_process Signalled False True (worker_Start worker_New) sample_manager PurgeWaiting True)"
    by (rule sample_other [OF sample_started other_step.signalled]) (simp_all add: sample_process_def)
  then have p: "process_run sample_gmlc ?p"
    by (rule sample_other [OF _ other_step.expires]) (simp_all add: sample_process_def)
  have e: "pr_expired ?p" "pr_main ?p \<noteq> Exited" "length (pr_managers ?p) = 1" by (simp_all add: sample_process_def)
  from shutdown_ends [OF p e(1)] p e show ?thesis by fastforce
qed

definition sample_surroundings :: "(nat, nat list) surroundings" where
  "sample_surroundings = \<lparr>su_file = Some [], su_unmarshal = (\<lambda>_. Some (Node False [] [])), su_decode = (\<lambda>_. Some sample_config),
     su_log_opened = True, su_statfs = FsType 1, su_mkdir_fails = False, su_driver_fails = False,
     su_exec_sql = (\<lambda>t s. if t \<in> set s \<or> t = 20 \<and> 10 \<notin> set s then None else Some (s @ [t])), su_created = True,
     su_fault = (\<lambda>_ _. False), su_now = (\<lambda>_. 0), su_migrations = [(''2_b'', 20), (''1_a'', 10)]\<rparr>"

text \<open>The text of a sample migration applies only once, and only in order.\<close>

definition sample_fits :: "int set \<Rightarrow> nat list \<Rightarrow> bool" where
  "sample_fits V s \<longleftrightarrow> (10 \<in> set s \<longleftrightarrow> 1 \<in> V) \<and> (20 \<in> set s \<longleftrightarrow> 2 \<in> V)"

lemma sample_migrations:
  "migrations_apply (su_exec_sql sample_surroundings) sample_fits (su_migrations sample_surroundings)"
proof -
  have v: "version_of (''1_a'', t) = Some 1" "version_of (''2_b'', t) = Some 2" for t :: nat
    by (simp_all add: version_of_def Atoi_def is_digit_alt digits_val_def digit_val_def)
  have s: "sort_key fst [(''2_b'', 20 :: nat), (''1_a'', 10)] = [(''1_a'', 10), (''2_b'', 20)]" by simp
  have "(earlier = [] \<and> f = (''1_a'', 10)) \<or> (earlier = [(''1_a'', 10)] \<and> f = (''2_b'', 20))"
    if "[(''1_a'', 10), (''2_b'', 20 :: nat)] = earlier @ f # later" for earlier f later
    using that by (cases earlier; cases "tl earlier") auto
  then show ?thesis
    unfolding migrations_apply_def sample_surroundings_def surroundings.simps s
    by (fastforce simp: v sample_fits_def)
qed

lemma sample_identities: "identities_present (cf_Diameter (applyDefaults sample_config))"
proof -
  have "cf_Diameter (applyDefaults sample_config) = cf_Diameter (applyDefaults sample_callbacks)"
    by (simp add: applyDefaults_def sample_callbacks_def)
  with sample_callbacks_identities show ?thesis by simp
qed

theorem start_serves_witness:
  "\<exists>g sch' db' cl. main_start False False sample_surroundings sample_system (calm 1000) \<lparr>sm_versions = [], sm_schema = []\<rparr> empty_db
      = (Inr (applyDefaults sample_config, g), sch', db') \<and> wired sample_system (applyDefaults sample_config) g
     \<and> 10 \<in> set (sm_schema sch') \<and> 20 \<in> set (sm_schema sch')
     \<and> Authenticate (sy_sha256 sample_system) (calm 2000) 0 ''c'' ''t'' db' = (Inr cl, db') \<and> c_Services cl = [''location.immediate'']"
proof -
  let ?cfg = "applyDefaults sample_config" and ?su = sample_surroundings
  have h1: "Load (su_file ?su) (su_unmarshal ?su) (su_decode ?su) = Inr ?cfg"
    using sample_config_loads by (simp add: sample_surroundings_def)
  have h2: "da_Path (cf_Database ?cfg) \<noteq> '':memory:''" "ToUpper (da_Synchronous (cf_Database ?cfg)) \<in> {[], ''FULL'', ''NORMAL'', ''OFF''}"
    by (simp_all add: applyDefaults_def sample_config_def Let_def ToUpper_def upper_char_def)
  have h3: "su_log_opened ?su" "su_statfs ?su \<noteq> StatFails" "su_statfs ?su \<noteq> FsType 0x6969" "\<not> su_mkdir_fails ?su" "\<not> su_driver_fails ?su"
    "su_created ?su" "su_fault ?su = (\<lambda>_ _. False)" by (simp_all add: sample_surroundings_def)
  have h4: "sample_fits (fst ` set (sm_versions \<lparr>sm_versions = [], sm_schema = []\<rparr>)) (sm_schema \<lparr>sm_versions = [], sm_schema = []\<rparr>)"
    by (simp add: sample_fits_def)
  have h5: "\<forall>c \<in> set (cf_Clients ?cfg). distinct_grants c" by (simp add: sample_config_clients distinct_grants_def)
  obtain g sch' db' where
    m: "main_start False False ?su sample_system (calm 1000) \<lparr>sm_versions = [], sm_schema = []\<rparr> empty_db = (Inr (?cfg, g), sch', db')"
      "wired sample_system ?cfg g" and f: "sample_fits (fst ` set (sm_versions sch')) (sm_schema sch')"
      "\<forall>f \<in> set (su_migrations ?su). version_of f \<in> Some ` fst ` set (sm_versions sch')"
    and a: "\<forall>c \<in> set (cf_Clients ?cfg). admitted (sy_sha256 sample_system) c db'"
    using start_serves [OF h1 h3(1) h2 h3(2-7) sample_migrations h4 sample_undisturbed h5 sample_identities,
        of False sample_system 1000 empty_db] by blast
  have "version_of (''1_a'', 10 :: nat) = Some 1" "version_of (''2_b'', 20 :: nat) = Some 2"
    by (simp_all add: version_of_def Atoi_def is_digit_alt digits_val_def digit_val_def)
  with f have "10 \<in> set (sm_schema sch')" "20 \<in> set (sm_schema sch')" by (auto simp: sample_surroundings_def sample_fits_def)
  moreover have "admitted (sy_sha256 sample_system) (hd (cf_Clients ?cfg)) db'" using a by (simp add: sample_config_clients)
  from admittedD(1) [OF this sample_undisturbed, of 2000 0] obtain cl where
    "Authenticate (sy_sha256 sample_system) (calm 2000) 0 ''c'' ''t'' db' = (Inr cl, db')" "c_Services cl = [''location.immediate'']"
    by (auto simp: sample_config_clients as_configured_def)
  ultimately show ?thesis using m by blast
qed

section \<open>What validation does not look at\<close>

definition unsynchronised :: config where
  "unsynchronised = sample_config\<lparr>cf_Database := (cf_Database sample_config)\<lparr>da_Synchronous := ''x''\<rparr>\<rparr>"

text \<open>
  Validation accepts any synchronous mode, and the start then ends at the opening of the database.
\<close>

theorem unknown_synchronous_exits:
  "config_ok (applyDefaults unsynchronised)
   \<and> main_start False False (sample_surroundings\<lparr>su_decode := (\<lambda>_. Some unsynchronised)\<rparr>) sample_system E sch db
       = (Inl (OpenFailed InvalidSynchronous), sch, db)"
proof -
  have same: "cf_MLP (applyDefaults unsynchronised) = cf_MLP (applyDefaults sample_config)"
    "cf_MLPReporting (applyDefaults unsynchronised) = cf_MLPReporting (applyDefaults sample_config)"
    "cf_Delivery (applyDefaults unsynchronised) = cf_Delivery (applyDefaults sample_config)"
    "cf_Logging (applyDefaults unsynchronised) = cf_Logging (applyDefaults sample_config)"
    "cf_Retention (applyDefaults unsynchronised) = cf_Retention (applyDefaults sample_config)"
    "cf_Diameter (applyDefaults unsynchronised) = cf_Diameter (applyDefaults sample_config)"
    "cf_Clients (applyDefaults unsynchronised) = cf_Clients (applyDefaults sample_config)"
    by (simp_all add: applyDefaults_def unsynchronised_def)
  have database: "da_Path (cf_Database (applyDefaults unsynchronised)) = ''g.db''" "da_Synchronous (cf_Database (applyDefaults unsynchronised)) = ''x''"
    "da_CheckpointPages (cf_Database (applyDefaults unsynchronised)) = 1000"
    by (simp_all add: applyDefaults_def unsynchronised_def sample_config_def Let_def)
  have ok: "config_ok (applyDefaults unsynchronised)"
    using sample_config_ok same database unfolding config_ok_def by simp
  obtain hs where hs: "Setup (cl_Level (cf_Logging (applyDefaults unsynchronised))) True (\<lambda>_. False) False (\<lambda>_. False) = Some hs"
    using Setup_config [OF ok] by blast
  have "Load (Some []) (\<lambda>_. Some (Node False [] [])) (\<lambda>_. Some unsynchronised) = Inr (applyDefaults unsynchronised)"
    using ok by (simp add: Load_def rejectObsoleteDiameterKeys_def config_Validate_None [symmetric])
  moreover have "Open (FsType 1) False False (sqlite_config_of (applyDefaults unsynchronised)) = Inl InvalidSynchronous"
    by (simp add: Open_def rejectNFS_def sqlite_config_of_def database Let_def ToUpper_def upper_char_def)
  ultimately show ?thesis using ok hs by (simp add: main_start_def sample_surroundings_def)
qed

end
