(* ===== verification/GMLC_Dictionary.thy ===== *)
theory GMLC_Dictionary
  imports GMLC_Main
begin

text \<open>
  \<open>internal/slh/dictionary.go\<close> and \<open>internal/slg/dictionary.go\<close>: the two Diameter dictionaries as data, their
  registration, and what they mean for the rest.  go-diameter gives the data of a received AVP the type
  its dictionary declares (\<open>typed_message\<close>) and dispatches a message by its command (\<open>mux_ok\<close>); both are
  hypotheses about that library, the second as the comments of \<open>tcp.go\<close> state it.
\<close>

section \<open>Dictionaries\<close>

datatype avp_type = TUTF8String | TDiameterIdentity | TEnumerated | TUnsigned32 | TOctetString | TGrouped

record dict_entry =
  de_name :: string
  de_code :: u32
  de_vendor :: u32
  de_must :: u8
  de_type :: avp_type

abbreviation dict_avp :: "string \<Rightarrow> u32 \<Rightarrow> u32 \<Rightarrow> u8 \<Rightarrow> avp_type \<Rightarrow> dict_entry" where
  "dict_avp n c v fl t \<equiv> \<lparr>de_name = n, de_code = c, de_vendor = v, de_must = fl, de_type = t\<rparr>"

record dict_command =
  dk_code :: u32
  dk_short :: string
  dk_name :: string

record dict_application =
  da_id :: u32
  da_type :: string
  da_name :: string
  da_vendor :: "u32 \<times> string"
  da_commands :: "dict_command list"
  da_avps :: "dict_entry list"

text \<open>The XML constants, element by element; the flags of \<open>must\<close> are the bits they stand for.\<close>

definition slh_dictionaryXML :: dict_application where
  "slh_dictionaryXML = \<lparr>da_id = 16777291, da_type = ''auth'', da_name = ''3GPP SLh'', da_vendor = (10415, ''3GPP''),
     da_commands = [\<lparr>dk_code = 8388622, dk_short = ''RI'', dk_name = ''Routing-Info''\<rparr>],
     da_avps = [
       dict_avp ''Session-Id'' 263 0 Mbit TUTF8String,
       dict_avp ''Auth-Session-State'' 277 0 Mbit TEnumerated,
       dict_avp ''Origin-Host'' 264 0 Mbit TDiameterIdentity,
       dict_avp ''Origin-Realm'' 296 0 Mbit TDiameterIdentity,
       dict_avp ''Destination-Host'' 293 0 Mbit TDiameterIdentity,
       dict_avp ''Destination-Realm'' 283 0 Mbit TDiameterIdentity,
       dict_avp ''User-Name'' 1 0 Mbit TUTF8String,
       dict_avp ''Result-Code'' 268 0 Mbit TUnsigned32,
       dict_avp ''Experimental-Result'' 297 0 Mbit TGrouped,
       dict_avp ''Experimental-Result-Code'' 298 0 Mbit TUnsigned32,
       dict_avp ''MSISDN'' 701 10415 (Vbit OR Mbit) TOctetString,
       dict_avp ''Serving-Node'' 2401 10415 (Vbit OR Mbit) TGrouped,
       dict_avp ''MME-Name'' 2402 10415 (Vbit OR Mbit) TDiameterIdentity,
       dict_avp ''MME-Realm'' 2408 10415 (Vbit OR Mbit) TDiameterIdentity]\<rparr>"

definition slg_dictionaryXML :: dict_application where
  "slg_dictionaryXML = \<lparr>da_id = 16777255, da_type = ''auth'', da_name = ''3GPP SLg'', da_vendor = (10415, ''3GPP''),
     da_commands = [\<lparr>dk_code = 8388620, dk_short = ''PL'', dk_name = ''Provide-Location''\<rparr>,
       \<lparr>dk_code = 8388621, dk_short = ''LR'', dk_name = ''Location-Report''\<rparr>],
     da_avps = [
       dict_avp ''Session-Id'' 263 0 Mbit TUTF8String,
       dict_avp ''Auth-Session-State'' 277 0 Mbit TEnumerated,
       dict_avp ''Origin-Host'' 264 0 Mbit TDiameterIdentity,
       dict_avp ''Origin-Realm'' 296 0 Mbit TDiameterIdentity,
       dict_avp ''Destination-Host'' 293 0 Mbit TDiameterIdentity,
       dict_avp ''Destination-Realm'' 283 0 Mbit TDiameterIdentity,
       dict_avp ''User-Name'' 1 0 Mbit TUTF8String,
       dict_avp ''Result-Code'' 268 0 Mbit TUnsigned32,
       dict_avp ''Experimental-Result'' 297 0 Mbit TGrouped,
       dict_avp ''Experimental-Result-Code'' 298 0 Mbit TUnsigned32,
       dict_avp ''Vendor-Id'' 266 0 Mbit TUnsigned32,
       dict_avp ''Failed-AVP'' 279 0 Mbit TGrouped,
       dict_avp ''LCS-Client-Type'' 1241 0 Mbit TEnumerated,
       dict_avp ''MSISDN'' 701 10415 (Vbit OR Mbit) TOctetString,
       dict_avp ''IMEI'' 1402 10415 (Vbit OR Mbit) TUTF8String,
       dict_avp ''SLg-Location-Type'' 2500 10415 (Vbit OR Mbit) TEnumerated,
       dict_avp ''LCS-EPS-Client-Name'' 2501 10415 (Vbit OR Mbit) TGrouped,
       dict_avp ''Location-Event'' 2518 10415 (Vbit OR Mbit) TEnumerated,
       dict_avp ''ECGI'' 2517 10415 (Vbit OR Mbit) TOctetString,
       dict_avp ''LCS-Reference-Number'' 2531 10415 (Vbit OR Mbit) TOctetString,
       dict_avp ''Location-Estimate'' 1242 0 Mbit TOctetString,
       dict_avp ''Accuracy-Fulfilment-Indicator'' 2513 10415 (Vbit OR Mbit) TEnumerated,
       dict_avp ''Age-Of-Location-Estimate'' 2514 10415 (Vbit OR Mbit) TUnsigned32,
       dict_avp ''Velocity-Estimate'' 2515 10415 (Vbit OR Mbit) TOctetString,
       dict_avp ''EUTRAN-Positioning-Data'' 2516 10415 (Vbit OR Mbit) TOctetString]\<rparr>"

section \<open>Registration\<close>

text \<open>
  The once-only load of a dictionary into the default one of the library.  \<open>load\<close> is \<open>dict.Default.Load\<close>; the
  state is that of \<open>dictionaryOnce\<close> and \<open>dictionaryErr\<close>.
\<close>

record 'd once_load =
  ol_done :: bool
  ol_err :: "string option"
  ol_default :: 'd

definition EnsureDictionary ::
  "(dict_application \<Rightarrow> 'd \<Rightarrow> string option \<times> 'd) \<Rightarrow> dict_application \<Rightarrow> 'd once_load \<Rightarrow> string option \<times> 'd once_load" where
  "EnsureDictionary load xml s =
     (if ol_done s then (ol_err s, s)
      else case load xml (ol_default s) of (e, d) \<Rightarrow> (e, s\<lparr>ol_done := True, ol_err := e, ol_default := d\<rparr>))"

text \<open>The package initialiser: none is a panic.\<close>

definition dictionary_init ::
  "(dict_application \<Rightarrow> 'd \<Rightarrow> string option \<times> 'd) \<Rightarrow> dict_application \<Rightarrow> 'd once_load \<Rightarrow> 'd once_load option" where
  "dictionary_init load xml s =
     (case EnsureDictionary load xml s of (Some e, _) \<Rightarrow> None | (None, s') \<Rightarrow> Some s')"

text \<open>Each of the two packages has its own once variable; they share the default dictionary of the library.\<close>

definition slh_init :: "(dict_application \<Rightarrow> 'd \<Rightarrow> string option \<times> 'd) \<Rightarrow> 'd once_load \<Rightarrow> 'd once_load option" where
  "slh_init load = dictionary_init load slh_dictionaryXML"

definition slg_init :: "(dict_application \<Rightarrow> 'd \<Rightarrow> string option \<times> 'd) \<Rightarrow> 'd once_load \<Rightarrow> 'd once_load option" where
  "slg_init load = dictionary_init load slg_dictionaryXML"

lemma EnsureDictionary_once:
  "EnsureDictionary load xml s = (e, s') \<Longrightarrow> ol_done s' \<and> EnsureDictionary load xml s' = (e, s')"
  by (auto simp: EnsureDictionary_def split: if_splits prod.splits)

section \<open>What a dictionary declares\<close>

definition declared :: "dict_application \<Rightarrow> u32 \<Rightarrow> u32 \<Rightarrow> dict_entry option" where
  "declared d c v = find (\<lambda>e. de_code e = c \<and> de_vendor e = v) (da_avps d)"

fun type_of :: "avp_data \<Rightarrow> avp_type option" where
  "type_of (UTF8String s) = Some TUTF8String"
| "type_of (DiameterIdentity s) = Some TDiameterIdentity"
| "type_of (Enumerated n) = Some TEnumerated"
| "type_of (Unsigned32 n) = Some TUnsigned32"
| "type_of (OctetString b) = Some TOctetString"
| "type_of (GroupedAVP as) = Some TGrouped"
| "type_of OtherData = None"

lemma type_of_iff [simp]:
  "type_of x = Some TUTF8String \<longleftrightarrow> (\<exists>s. x = UTF8String s)"
  "type_of x = Some TDiameterIdentity \<longleftrightarrow> (\<exists>s. x = DiameterIdentity s)"
  "type_of x = Some TEnumerated \<longleftrightarrow> (\<exists>n. x = Enumerated n)"
  "type_of x = Some TUnsigned32 \<longleftrightarrow> (\<exists>n. x = Unsigned32 n)"
  "type_of x = Some TOctetString \<longleftrightarrow> (\<exists>b. x = OctetString b)"
  "type_of x = Some TGrouped \<longleftrightarrow> (\<exists>as. x = GroupedAVP as)"
  by (cases x; simp)+

text \<open>The data of a declared AVP has the declared type, down through the groups.\<close>

fun typed_avp :: "dict_application \<Rightarrow> avp \<Rightarrow> bool" where
  "typed_avp d (AVP c fl v x) \<longleftrightarrow>
     (case declared d c v of None \<Rightarrow> True | Some e \<Rightarrow> type_of x = Some (de_type e))
     \<and> (case x of GroupedAVP as \<Rightarrow> list_all (typed_avp d) as | _ \<Rightarrow> True)"

definition typed_message :: "dict_application \<Rightarrow> message \<Rightarrow> bool" where
  "typed_message d m \<longleftrightarrow> list_all (typed_avp d) (AVPs m)"

text \<open>An AVP as the dictionary declares it: with its flags too.\<close>

definition conforms :: "dict_application \<Rightarrow> avp \<Rightarrow> bool" where
  "conforms d a \<longleftrightarrow> (case declared d (avp_code a) (avp_vendor a) of None \<Rightarrow> False
     | Some e \<Rightarrow> avp_flags a = de_must e \<and> type_of (avp_data a) = Some (de_type e))"

lemma typed_declared:
  "typed_avp d a \<Longrightarrow> declared d (avp_code a) (avp_vendor a) = Some e \<Longrightarrow> type_of (avp_data a) = Some (de_type e)"
  by (cases a) simp

lemma typed_found:
  assumes "typed_message d m" and "declared d c v = Some e" and "a \<in> set (find_avps m c v)"
  shows "type_of (avp_data a) = Some (de_type e)"
  using assms typed_declared [of d a e] by (auto simp: typed_message_def find_avps_def list_all_iff)

text \<open>The lookups the decoders make.\<close>

lemma slg_declared [simp]:
  "map_option de_type (declared slg_dictionaryXML avp_LocationEstimate 0) = Some TOctetString"
  "map_option de_type (declared slg_dictionaryXML AVPECGI Vendor3GPP) = Some TOctetString"
  "map_option de_type (declared slg_dictionaryXML AVPVelocityEstimate Vendor3GPP) = Some TOctetString"
  "map_option de_type (declared slg_dictionaryXML AVPEUTRANPositioningData Vendor3GPP) = Some TOctetString"
  "map_option de_type (declared slg_dictionaryXML AVPAccuracyFulfilmentInd Vendor3GPP) = Some TEnumerated"
  "map_option de_type (declared slg_dictionaryXML AVPAgeOfLocationEstimate Vendor3GPP) = Some TUnsigned32"
  "map_option de_type (declared slg_dictionaryXML AVPLocationEvent Vendor3GPP) = Some TEnumerated"
  "map_option de_type (declared slg_dictionaryXML avp_UserName 0) = Some TUTF8String"
  "map_option de_type (declared slg_dictionaryXML avpMSISDN Vendor3GPP) = Some TOctetString"
  "map_option de_type (declared slg_dictionaryXML AVPClientName Vendor3GPP) = Some TGrouped"
  "map_option de_type (declared slg_dictionaryXML AVPLCSReferenceNumber Vendor3GPP) = Some TOctetString"
  "map_option de_type (declared slg_dictionaryXML avp_ResultCode 0) = Some TUnsigned32"
  "map_option de_type (declared slg_dictionaryXML avp_ExperimentalResult 0) = Some TGrouped"
  by (simp_all add: declared_def slg_dictionaryXML_def diam_consts slg_consts avpMSISDN_def)

lemma typed_all:
  assumes "typed_message d m" and "map_option de_type (declared d c v) = Some t"
  shows "\<forall>a \<in> set (find_avps m c v). type_of (avp_data a) = Some t"
  using assms typed_found [of d m c v] by fastforce

section \<open>Typed messages are only refused for their content\<close>

fun octets_of :: "avp_data \<Rightarrow> bytes" where
  "octets_of (OctetString b) = b"
| "octets_of x = []"

definition octets :: "message \<Rightarrow> u32 \<Rightarrow> u32 \<Rightarrow> bytes list" where
  "octets m c v = map (\<lambda>a. octets_of (avp_data a)) (find_avps m c v)"

text \<open>The value a loop over AVPs of one code ends with: the last, if any.\<close>

definition last_of :: "'a \<Rightarrow> 'a list \<Rightarrow> 'a" where
  "last_of z xs = (if xs = [] then z else last xs)"

lemma last_of_simps [simp]: "last_of z [] = z" "last_of z (x # xs) = last_of x xs"
  by (simp_all add: last_of_def)

lemma octets_loop_typed:
  "\<forall>a \<in> set as. type_of (avp_data a) = Some TOctetString \<Longrightarrow>
   octets_loop ok acc as = (if \<forall>b \<in> set (map (\<lambda>a. octets_of (avp_data a)) as). ok b
     then Some (last_of acc (map (\<lambda>a. octets_of (avp_data a)) as)) else None)"
  by (induction as arbitrary: acc) auto

lemma enum_loop_typed: "\<forall>a \<in> set as. type_of (avp_data a) = Some TEnumerated \<Longrightarrow> enum_loop acc as \<noteq> None"
  by (induction as arbitrary: acc) auto

lemma u32_loop_typed: "\<forall>a \<in> set as. type_of (avp_data a) = Some TUnsigned32 \<Longrightarrow> u32_loop acc as \<noteq> None"
  by (induction as arbitrary: acc) auto

lemma username_loop_typed: "\<forall>a \<in> set as. type_of (avp_data a) = Some TUTF8String \<Longrightarrow> username_loop acc as \<noteq> None"
  by (induction as arbitrary: acc) auto

lemma client_name_loop_typed: "\<forall>a \<in> set as. type_of (avp_data a) = Some TGrouped \<Longrightarrow> client_name_loop acc as \<noteq> None"
  by (induction as arbitrary: acc) (auto simp: Let_def)

lemma msisdn_loop_typed:
  "\<forall>a \<in> set as. type_of (avp_data a) = Some TOctetString \<Longrightarrow>
   msisdn_loop acc as \<noteq> None \<longleftrightarrow> (\<forall>b \<in> set (map (\<lambda>a. octets_of (avp_data a)) as). DecodeMSISDN b \<noteq> None)"
proof (induction as arbitrary: acc)
  case (Cons a as)
  then obtain b where "avp_data a = OctetString b" by auto
  with Cons show ?case by (cases "DecodeMSISDN b") simp_all
qed simp

text \<open>An estimate may follow only empty ones, and none may exceed the limit.\<close>

lemma raw_loop_typed:
  assumes "\<forall>a \<in> set as. type_of (avp_data a) = Some TOctetString"
  defines "bs \<equiv> map (\<lambda>a. octets_of (avp_data a)) as"
  shows "(\<exists>raw. raw_loop acc as = Inr raw) \<longleftrightarrow> (\<forall>b \<in> set bs. length b \<le> maxRaw) \<and> (\<forall>b \<in> set (butlast (acc # bs)). b = [])"
    and "raw_loop acc as = Inr raw \<Longrightarrow> raw = last_of acc bs"
proof -
  from assms(1) show "(\<exists>raw. raw_loop acc as = Inr raw) \<longleftrightarrow> (\<forall>b \<in> set bs. length b \<le> maxRaw) \<and> (\<forall>b \<in> set (butlast (acc # bs)). b = [])"
    unfolding bs_def
  proof (induction as arbitrary: acc)
    case (Cons a as)
    then obtain v where v: "avp_data a = OctetString v" by auto
    with Cons show ?case by auto
  qed simp
  from assms(1) show "raw_loop acc as = Inr raw \<Longrightarrow> raw = last_of acc bs"
    unfolding bs_def by (induction as arbitrary: acc) (auto split: if_splits)
qed

text \<open>What the payload of an answer or a report has to satisfy, types aside.\<close>

definition payload_content :: "message \<Rightarrow> bool" where
  "payload_content m \<longleftrightarrow>
     (let raws = octets m avp_LocationEstimate 0 in
      (\<forall>b \<in> set raws. length b \<le> maxRaw) \<and> (\<forall>b \<in> set (butlast raws). b = [])
      \<and> (\<forall>b \<in> set (octets m AVPECGI Vendor3GPP). length b = 7))"

lemma decodePositioningPayload_typed:
  assumes "typed_message slg_dictionaryXML m"
  shows "(\<exists>pp. decodePositioningPayload m = Inr pp) \<longleftrightarrow> payload_content m"
    and "decodePositioningPayload m = Inr pp \<Longrightarrow>
      pp_raw pp = last_of [] (octets m avp_LocationEstimate 0) \<and> pp_ecgi pp = last_of [] (octets m AVPECGI Vendor3GPP)"
proof -
  note ty = typed_all [OF assms]
  note raw = raw_loop_typed [OF ty, OF slg_declared(1), of "[]"]
  obtain acc where acc: "enum_loop None (find_avps m AVPAccuracyFulfilmentInd Vendor3GPP) = Some acc"
    using enum_loop_typed [OF ty, OF slg_declared(5)] by blast
  obtain age where age: "u32_loop None (find_avps m AVPAgeOfLocationEstimate Vendor3GPP) = Some age"
    using u32_loop_typed [OF ty, OF slg_declared(6)] by blast
  note oct = octets_loop_typed [OF ty, OF slg_declared(2)] octets_loop_typed [OF ty, OF slg_declared(3)]
    octets_loop_typed [OF ty, OF slg_declared(4)]
  have got: "decodePositioningPayload m = Inr pp \<Longrightarrow> \<exists>raw. raw_loop [] (find_avps m avp_LocationEstimate 0) = Inr raw
      \<and> (\<forall>b \<in> set (octets m AVPECGI Vendor3GPP). length b = 7)
      \<and> pp_raw pp = raw \<and> pp_ecgi pp = last_of [] (octets m AVPECGI Vendor3GPP)" for pp
    using acc age unfolding decodePositioningPayload_def oct octets_def by (auto split: sum.splits if_splits)
  have "raw_loop [] (find_avps m avp_LocationEstimate 0) = Inr raw \<Longrightarrow>
      (\<forall>b \<in> set (octets m AVPECGI Vendor3GPP). length b = 7) \<Longrightarrow> \<exists>pp. decodePositioningPayload m = Inr pp" for raw
    using acc age unfolding decodePositioningPayload_def oct octets_def by simp
  with got have "(\<exists>pp. decodePositioningPayload m = Inr pp) \<longleftrightarrow>
      (\<exists>raw. raw_loop [] (find_avps m avp_LocationEstimate 0) = Inr raw) \<and> (\<forall>b \<in> set (octets m AVPECGI Vendor3GPP). length b = 7)"
    by blast
  moreover have "(\<forall>b \<in> set (butlast ([] # bs)). b = []) \<longleftrightarrow> (\<forall>b \<in> set (butlast bs). b = [])" for bs :: "bytes list" by simp
  ultimately show "(\<exists>pp. decodePositioningPayload m = Inr pp) \<longleftrightarrow> payload_content m"
    using raw(1) unfolding payload_content_def Let_def octets_def by simp
  show "decodePositioningPayload m = Inr pp \<Longrightarrow>
      pp_raw pp = last_of [] (octets m avp_LocationEstimate 0) \<and> pp_ecgi pp = last_of [] (octets m AVPECGI Vendor3GPP)"
    using raw(2) got unfolding octets_def by blast
qed

definition report_content :: "message \<Rightarrow> bool" where
  "report_content m \<longleftrightarrow> length (find_avps m AVPLocationEvent Vendor3GPP) = 1
     \<and> (\<forall>b \<in> set (octets m avpMSISDN Vendor3GPP). DecodeMSISDN b \<noteq> None)
     \<and> (\<forall>b \<in> set (octets m AVPLCSReferenceNumber Vendor3GPP). length b = 1)
     \<and> payload_content m"

definition estimate_readable :: "message \<Rightarrow> bool" where
  "estimate_readable m \<longleftrightarrow> (let raw = last_of [] (octets m avp_LocationEstimate 0) in raw = [] \<or> \<not> isl (Decode raw))"

lemma not_isl: "\<not> isl x \<longleftrightarrow> (\<exists>y. x = Inr y)"
  by (cases x) simp_all

lemma DecodeLRR_typed:
  assumes "typed_message slg_dictionaryXML m" and "location_report_header m"
  shows "(\<exists>rep. DecodeLRR (Some m) = Inr rep) \<longleftrightarrow> report_content m \<and> estimate_readable m"
proof -
  note ty = typed_all [OF assms(1)]
  obtain u where u: "username_loop [] (find_avps m avp_UserName 0) = Some u"
    using username_loop_typed [OF ty, OF slg_declared(8)] by blast
  obtain n where n: "client_name_loop [] (find_avps m AVPClientName Vendor3GPP) = Some n"
    using client_name_loop_typed [OF ty, OF slg_declared(10)] by blast
  have ref: "octets_loop (\<lambda>b. length b = 1) [] (find_avps m AVPLCSReferenceNumber Vendor3GPP) =
      (if \<forall>b \<in> set (octets m AVPLCSReferenceNumber Vendor3GPP). length b = 1
       then Some (last_of [] (octets m AVPLCSReferenceNumber Vendor3GPP)) else None)"
    unfolding octets_def by (rule octets_loop_typed [OF ty, OF slg_declared(11)])
  have ms: "msisdn_loop [] (find_avps m avpMSISDN Vendor3GPP) \<noteq> None \<longleftrightarrow>
      (\<forall>b \<in> set (octets m avpMSISDN Vendor3GPP). DecodeMSISDN b \<noteq> None)"
    unfolding octets_def by (rule msisdn_loop_typed [OF ty, OF slg_declared(9)])
  note pp = decodePositioningPayload_typed [OF assms(1)]
  show ?thesis
  proof (cases "report_content m")
    case True
    then obtain a where a: "find_avps m AVPLocationEvent Vendor3GPP = [a]"
      by (auto simp: report_content_def length_Suc_conv)
    then obtain v where v: "avp_data a = Enumerated v" using ty [OF slg_declared(7)] by auto
    from True ms obtain k where k: "msisdn_loop [] (find_avps m avpMSISDN Vendor3GPP) = Some k" by (auto simp: report_content_def)
    from True pp obtain q where q: "decodePositioningPayload m = Inr q" by (auto simp: report_content_def)
    have r: "pp_raw q = last_of [] (octets m avp_LocationEstimate 0)" using pp(2) [OF q] by simp
    have "\<forall>b \<in> set (octets m AVPLCSReferenceNumber Vendor3GPP). length b = 1" using True by (simp add: report_content_def)
    then show ?thesis
      using assms(2) a v u k n q True unfolding DecodeLRR_def estimate_readable_def not_isl
      by (simp add: ref r [symmetric] Let_def del: One_nat_def split: sum.split)
  next
    case False
    then consider "length (find_avps m AVPLocationEvent Vendor3GPP) \<noteq> 1"
      | "msisdn_loop [] (find_avps m avpMSISDN Vendor3GPP) = None"
      | "\<not> (\<forall>b \<in> set (octets m AVPLCSReferenceNumber Vendor3GPP). length b = 1)"
      | "\<not> payload_content m"
      using ms by (auto simp: report_content_def)
    then have "\<not> (\<exists>rep. DecodeLRR (Some m) = Inr rep)"
    proof cases
      case 4
      then have "\<exists>e. decodePositioningPayload m = Inl e" using pp(1) by (metis sum.exhaust)
      then show ?thesis by (auto simp: DecodeLRR_def Let_def split: avp_data.splits option.splits)
    qed (auto simp: DecodeLRR_def Let_def ref simp del: One_nat_def split: avp_data.splits option.splits if_splits)
    with False show ?thesis by simp
  qed
qed

lemma pla_payload_accepts:
  "(\<exists>out. pla_payload pp = Inr out) \<longleftrightarrow> pp_raw pp = [] \<or> \<not> isl (Decode (pp_raw pp))"
  by (auto simp: pla_payload_def Let_def not_isl split: sum.splits)

text \<open>The answer to the request \<open>q\<close>, by its header.\<close>

definition provide_location_answer :: "message \<Rightarrow> message \<Rightarrow> bool" where
  "provide_location_answer q a \<longleftrightarrow> ApplicationID (Header a) = slg_ApplicationID \<and> CommandCode (Header a) = CommandProvideLocation
     \<and> \<not> is_request a \<and> HopByHopID (Header q) = HopByHopID (Header a) \<and> EndToEndID (Header q) = EndToEndID (Header a)"

lemma DecodePLA_typed:
  assumes "typed_message slg_dictionaryXML a" and "provide_location_answer q a"
  shows "(\<exists>out. DecodePLA (Some q) (Some a) = Inr out) \<longleftrightarrow>
    map avp_data (find_avps a avp_ResultCode 0) = [Unsigned32 Success] \<and> find_avps a avp_ExperimentalResult 0 = []
    \<and> payload_content a \<and> estimate_readable a"
proof (cases "pla_result a")
  case None
  note pp = decodePositioningPayload_typed [OF assms(1)]
  have "(\<exists>out. DecodePLA (Some q) (Some a) = Inr out) \<longleftrightarrow>
      (\<exists>pp. decodePositioningPayload a = Inr pp \<and> (\<exists>out. pla_payload pp = Inr out))"
    using None assms(2) by (auto simp: DecodePLA_def provide_location_answer_def split: sum.splits payload_error.splits)
  also have "\<dots> \<longleftrightarrow> payload_content a \<and> estimate_readable a"
    using pp unfolding pla_payload_accepts estimate_readable_def Let_def by metis
  finally show ?thesis using None by (simp add: pla_result_None)
next
  case (Some e)
  then have "\<not> (\<exists>out. DecodePLA (Some q) (Some a) = Inr out)"
    by (auto simp: DecodePLA_def)
  with Some show ?thesis using pla_result_None [of a] by auto
qed

section \<open>What the GMLC sends\<close>

text \<open>The AVPs of a Provide-Location request that the SLg dictionary leaves out.\<close>

definition undeclared :: "u32 list" where
  "undeclared = [AVPRequestorName, AVPPriority, AVPQoS, AVPPrivacyCheckNonSess, AVPVelocityRequested, AVPServiceTypeID,
     AVPSupportedGADShapes]"

definition sends_declared :: "dict_application \<Rightarrow> u32 list \<Rightarrow> avp \<Rightarrow> bool" where
  "sends_declared d xs a \<longleftrightarrow>
     conforms d a \<or> (declared d (avp_code a) (avp_vendor a) = None \<and> avp_vendor a = Vendor3GPP \<and> avp_code a \<in> set xs)"

text \<open>The lookups of what is sent.\<close>

lemma slh_sent:
  "declared slh_dictionaryXML avp_SessionID 0 = Some (dict_avp ''Session-Id'' avp_SessionID 0 Mbit TUTF8String)"
  "declared slh_dictionaryXML avp_AuthSessionState 0 = Some (dict_avp ''Auth-Session-State'' avp_AuthSessionState 0 Mbit TEnumerated)"
  "declared slh_dictionaryXML avp_OriginHost 0 = Some (dict_avp ''Origin-Host'' avp_OriginHost 0 Mbit TDiameterIdentity)"
  "declared slh_dictionaryXML avp_OriginRealm 0 = Some (dict_avp ''Origin-Realm'' avp_OriginRealm 0 Mbit TDiameterIdentity)"
  "declared slh_dictionaryXML avp_DestinationHost 0 = Some (dict_avp ''Destination-Host'' avp_DestinationHost 0 Mbit TDiameterIdentity)"
  "declared slh_dictionaryXML avp_DestinationRealm 0 = Some (dict_avp ''Destination-Realm'' avp_DestinationRealm 0 Mbit TDiameterIdentity)"
  "declared slh_dictionaryXML avp_UserName 0 = Some (dict_avp ''User-Name'' avp_UserName 0 Mbit TUTF8String)"
  "declared slh_dictionaryXML avpMSISDN Vendor3GPP = Some (dict_avp ''MSISDN'' avpMSISDN Vendor3GPP VM TOctetString)"
  by (simp_all add: declared_def slh_dictionaryXML_def diam_consts slg_consts avpMSISDN_def)

lemma slg_sent:
  "declared slg_dictionaryXML avp_SessionID 0 = Some (dict_avp ''Session-Id'' avp_SessionID 0 Mbit TUTF8String)"
  "declared slg_dictionaryXML avp_AuthSessionState 0 = Some (dict_avp ''Auth-Session-State'' avp_AuthSessionState 0 Mbit TEnumerated)"
  "declared slg_dictionaryXML avp_OriginHost 0 = Some (dict_avp ''Origin-Host'' avp_OriginHost 0 Mbit TDiameterIdentity)"
  "declared slg_dictionaryXML avp_OriginRealm 0 = Some (dict_avp ''Origin-Realm'' avp_OriginRealm 0 Mbit TDiameterIdentity)"
  "declared slg_dictionaryXML avp_DestinationHost 0 = Some (dict_avp ''Destination-Host'' avp_DestinationHost 0 Mbit TDiameterIdentity)"
  "declared slg_dictionaryXML avp_DestinationRealm 0 = Some (dict_avp ''Destination-Realm'' avp_DestinationRealm 0 Mbit TDiameterIdentity)"
  "declared slg_dictionaryXML avp_UserName 0 = Some (dict_avp ''User-Name'' avp_UserName 0 Mbit TUTF8String)"
  "declared slg_dictionaryXML avpMSISDN Vendor3GPP = Some (dict_avp ''MSISDN'' avpMSISDN Vendor3GPP VM TOctetString)"
  "declared slg_dictionaryXML avp_LCSClientType 0 = Some (dict_avp ''LCS-Client-Type'' avp_LCSClientType 0 Mbit TEnumerated)"
  "declared slg_dictionaryXML AVPLocationType Vendor3GPP = Some (dict_avp ''SLg-Location-Type'' AVPLocationType Vendor3GPP VM TEnumerated)"
  "declared slg_dictionaryXML AVPClientName Vendor3GPP = Some (dict_avp ''LCS-EPS-Client-Name'' AVPClientName Vendor3GPP VM TGrouped)"
  by (simp_all add: declared_def slg_dictionaryXML_def diam_consts slg_consts avpMSISDN_def)

lemma slg_not_sent:
  "declared slg_dictionaryXML AVPRequestorName Vendor3GPP = None"
  "declared slg_dictionaryXML AVPPriority Vendor3GPP = None"
  "declared slg_dictionaryXML AVPQoS Vendor3GPP = None"
  "declared slg_dictionaryXML AVPPrivacyCheckNonSess Vendor3GPP = None"
  "declared slg_dictionaryXML AVPVelocityRequested Vendor3GPP = None"
  "declared slg_dictionaryXML AVPServiceTypeID Vendor3GPP = None"
  "declared slg_dictionaryXML AVPSupportedGADShapes Vendor3GPP = None"
  by (simp_all add: declared_def slg_dictionaryXML_def diam_consts slg_consts)

lemma BuildRIR_conforms:
  assumes "diam_lib_ok lib" and "BuildRIR lib cfg rnd t = Inr m"
  shows "\<forall>a \<in> set (AVPs m). conforms slh_dictionaryXML a"
proof -
  have "AVPs (NewRequest lib CommandRoutingInfo slh_ApplicationID) = []" using assms(1) by (simp add: NewRequest_ok)
  with assms show ?thesis
    by (auto simp: BuildRIR_def add_avps_AVPs msisdn_avp_def conforms_def slh_sent split: option.splits)
qed

lemma plr_avps_declared: "list_all (sends_declared slg_dictionaryXML undeclared) (plr_avps cfg rnd n r)"
  unfolding plr_avps_def
  by (simp add: sends_declared_def undeclared_def conforms_def slg_sent slg_not_sent lcsNameGroup_def split: option.split)

lemma BuildPLR_declared:
  assumes "diam_lib_ok lib" and "BuildPLR lib cfg rnd n r = Inr m"
  shows "\<forall>a \<in> set (AVPs m). sends_declared slg_dictionaryXML undeclared a"
proof -
  have e: "AVPs (NewRequest lib CommandProvideLocation slg_ApplicationID) = []" using assms(1) by (simp add: NewRequest_ok)
  have n: "NewAVP lib k a = k\<lparr>AVPs := AVPs k @ [a]\<rparr>" for k a using assms(1) by (simp add: diam_lib_ok_def)
  have "AVPs m = plr_avps cfg rnd n r \<or> (\<exists>b. AVPs m = plr_avps cfg rnd n r @ [AVP avpMSISDN VM Vendor3GPP (OctetString b)])"
    using assms(2) by (auto simp: BuildPLR_def Let_def add_avps_AVPs [OF assms(1)] e n split: if_splits option.splits)
  moreover have "sends_declared slg_dictionaryXML undeclared (AVP avpMSISDN VM Vendor3GPP (OctetString b))" for b
    by (simp add: sends_declared_def conforms_def slg_sent)
  ultimately show ?thesis using plr_avps_declared [of cfg rnd n r] by (auto simp: list_all_iff)
qed

section \<open>Dispatch\<close>

text \<open>The commands the library finds once both packages are initialised.\<close>

definition known_commands :: "(u32 \<times> u32) list" where
  "known_commands = concat (map (\<lambda>d. map (\<lambda>k. (da_id d, dk_code k)) (da_commands d)) [slh_dictionaryXML, slg_dictionaryXML])"

text \<open>
  The dispatcher of go-diameter: outside the base protocol, which its state machine handles itself, a
  message whose command is in the dictionary goes to the handler of its index, and every other message, or
  one without such a handler, to the catch-all.  A later registration of an index replaces an earlier one.
\<close>

type_synonym mux = "(command_index \<times> message_handler) list \<Rightarrow> (u32 \<times> u32) list \<Rightarrow> message \<Rightarrow> message_handler option"

definition mux_ok :: "mux \<Rightarrow> bool" where
  "mux_ok mux \<longleftrightarrow> (\<forall>regs known m. ApplicationID (Header m) \<noteq> 0 \<longrightarrow> mux regs known m =
     (let app = ApplicationID (Header m); code = CommandCode (Header m) in
      if (app, code) \<in> set known \<and> map_of (rev regs) (Command app code (is_request m)) \<noteq> None
      then map_of (rev regs) (Command app code (is_request m))
      else map_of (rev regs) AllCommands))"

definition sample_mux :: mux where
  "sample_mux regs known m =
     (let app = ApplicationID (Header m); code = CommandCode (Header m) in
      if (app, code) \<in> set known \<and> map_of (rev regs) (Command app code (is_request m)) \<noteq> None
      then map_of (rev regs) (Command app code (is_request m))
      else map_of (rev regs) AllCommands)"

lemma sample_mux_ok: "mux_ok sample_mux"
  by (simp add: mux_ok_def sample_mux_def)

lemma known_commands_eq: "known_commands = [(16777291, 8388622), (16777255, 8388620), (16777255, 8388621)]"
  by (simp add: known_commands_def slh_dictionaryXML_def slg_dictionaryXML_def)

lemma registrations_of:
  "map_of (rev (registrations (transport_of (registry_of sys cfg) p))) i =
     (case i of AllCommands \<Rightarrow> Some Deliver
      | Command app code req \<Rightarrow>
          (if req then (if cf_LRR_Enabled cfg \<and> (app, code) = (slg_ApplicationID, CommandLocationReport)
             then Some (Handle (slg_ApplicationID, CommandLocationReport)) else None)
           else (if (app, code) \<in> {(16777291, 8388622), (16777255, 8388620)} then Some Deliver else None)))"
  by (auto simp: registrations_def transport_of_def registry_of_def Let_def SLhApplicationID_def SLgApplicationID_def
      split: command_index.split)

section \<open>Properties\<close>

text \<open>
  The two dictionaries declare an AVP at most once, and agree on every AVP that both of them declare.
\<close>

theorem dictionaries_agree:
  "distinct (map (\<lambda>e. (de_code e, de_vendor e)) (da_avps slh_dictionaryXML))
   \<and> distinct (map (\<lambda>e. (de_code e, de_vendor e)) (da_avps slg_dictionaryXML))
   \<and> (\<forall>e \<in> set (da_avps slh_dictionaryXML). declared slg_dictionaryXML (de_code e) (de_vendor e) \<in> {None, Some e})"
  by (simp add: slh_dictionaryXML_def slg_dictionaryXML_def declared_def)

text \<open>
  Requests are built as the dictionaries declare them: every AVP of a Routing-Info request has the code,
  the vendor, the flags and the type of the SLh dictionary; every AVP of a Provide-Location request those of
  the SLg dictionary, except for seven AVPs of 3GPP that it does not declare at all.
\<close>

theorem requests_declared:
  assumes "diam_lib_ok lib"
  shows "(\<forall>m. BuildRIR lib slh rnd t = Inr m \<longrightarrow> (\<forall>a \<in> set (AVPs m). conforms slh_dictionaryXML a))
    \<and> (\<forall>m. BuildPLR lib slg rnd n r = Inr m \<longrightarrow> (\<forall>a \<in> set (AVPs m). sends_declared slg_dictionaryXML undeclared a))"
  using BuildRIR_conforms [OF assms] BuildPLR_declared [OF assms] by blast

theorem requests_declared_witness:
  "\<exists>m. BuildPLR sample_lib \<lparr>gc_OriginHost = ''g'', gc_OriginRealm = ''r'', gc_RequestTimeout = 0\<rparr> [] sample_node sample_location_request = Inr m
     \<and> (\<forall>a \<in> set (AVPs m). sends_declared slg_dictionaryXML undeclared a)"
  using sample_BuildPLR requests_declared [OF sample_lib_ok] by blast

text \<open>
  C20: Messages that carry the types the SLg dictionary declares are refused only for what they say.  A
  Provide-Location answer to the request that was sent is accepted exactly when it has the one result code for success,
  no experimental result, cell identities of seven octets, one estimate of at most 8192 octets, and that
  estimate can be read; a Location-Report request exactly when it has one event, MSISDNs that are TBCD
  numbers, reference numbers of one octet, and such a payload.
\<close>

theorem typed_messages_accepted:
  assumes "typed_message slg_dictionaryXML m"
  shows "(location_report_header m \<longrightarrow>
      ((\<exists>rep. DecodeLRR (Some m) = Inr rep) \<longleftrightarrow> report_content m \<and> estimate_readable m))
    \<and> (provide_location_answer q m \<longrightarrow>
      ((\<exists>out. DecodePLA (Some q) (Some m) = Inr out) \<longleftrightarrow>
        map avp_data (find_avps m avp_ResultCode 0) = [Unsigned32 Success] \<and> find_avps m avp_ExperimentalResult 0 = []
        \<and> payload_content m \<and> estimate_readable m))"
  by (intro conjI impI, erule DecodeLRR_typed [OF assms], erule DecodePLA_typed [OF assms])

theorem typed_messages_accepted_witness:
  "(\<exists>rep. DecodeLRR (Some sample_LRR) = Inr rep) \<and> (\<exists>out. DecodePLA (Some sample_PLA) (Some sample_PLA) = Inr out)"
proof -
  have "typed_message slg_dictionaryXML sample_LRR" "typed_message slg_dictionaryXML sample_PLA"
    by (simp_all add: typed_message_def sample_LRR_def sample_PLA_def declared_def slg_dictionaryXML_def diam_consts slg_consts)
  moreover have "location_report_header sample_LRR" "provide_location_answer sample_PLA sample_PLA"
    by (simp_all add: sample_LRR_def sample_PLA_def location_report_header_def provide_location_answer_def is_request_def RequestFlag_def)
  moreover have "report_content sample_LRR" "estimate_readable sample_LRR"
    by (simp_all add: report_content_def payload_content_def estimate_readable_def octets_def find_avps_def sample_LRR_def
        diam_consts slg_consts avpMSISDN_def)
  moreover have "map avp_data (find_avps sample_PLA avp_ResultCode 0) = [Unsigned32 Success]"
    "find_avps sample_PLA avp_ExperimentalResult 0 = []" "payload_content sample_PLA" "estimate_readable sample_PLA"
    by (simp_all add: payload_content_def estimate_readable_def octets_def find_avps_def sample_PLA_def diam_consts slg_consts)
  ultimately show ?thesis
    using typed_messages_accepted [of sample_LRR sample_LRR] typed_messages_accepted [of sample_PLA sample_PLA] by simp
qed

text \<open>
  C13: Where a message that arrives on a connection goes, in the system that \<open>main\<close> builds: a location report
  to the report handler exactly when reports are enabled; everything else to \<open>deliver\<close>.  That drops every
  request; an answer becomes the result of the one call that waits under its hop-by-hop id, if there is
  one, the id is no longer pending, and every other call of the connection stays as it is.  (Messages of
  application 0, which the library answers itself, are left out, and a connection has at most 2^32 calls.)
\<close>

theorem messages_dispatched:
  assumes "mux_ok mux" and "ApplicationID (Header m) \<noteq> 0" and "rt_reachable s" and "length (rt_calls s) \<le> 2 ^ 32"
  shows "mux (registrations (transport_of (registry_of sys cfg) p)) known_commands m =
      Some (if location_report_header m \<and> cf_LRR_Enabled cfg then Handle (slg_ApplicationID, CommandLocationReport) else Deliver)
    \<and> (is_request m \<longrightarrow> deliver m s = s)
    \<and> (\<not> is_request m \<longrightarrow> rt_pending (deliver m s) (HopByHopID (Header m)) = None
         \<and> length (rt_calls (deliver m s)) = length (rt_calls s)
         \<and> (\<forall>k < length (rt_calls s). if waiting (rt_calls s ! k) \<and> call_id (rt_calls s ! k) = HopByHopID (Header m)
              then GMLC_Transport.result_of (rt_calls (deliver m s) ! k) = Some (Inr m)
              else rt_calls (deliver m s) ! k = rt_calls s ! k))"
proof -
  have "(slg_ApplicationID, CommandLocationReport) \<in> set known_commands"
    by (simp add: known_commands_eq slg_consts)
  with assms(1,2) have "mux (registrations (transport_of (registry_of sys cfg) p)) known_commands m =
      Some (if location_report_header m \<and> cf_LRR_Enabled cfg then Handle (slg_ApplicationID, CommandLocationReport) else Deliver)"
    by (simp add: mux_ok_def Let_def registrations_of location_report_header_def)
  moreover have "is_request m \<longrightarrow> deliver m s = s" by (simp add: deliver_def)
  ultimately show ?thesis using deliver_reaches [OF rt_reachable_inv [OF assms(3,4)] assms(4), of m] by blast
qed

text \<open>A call that is sent and waits, and an answer of the SLg application to it.\<close>

definition sample_waiting :: tcpRT where
  "sample_waiting = rt_written 0 1 None None (rt_register 0 1 (rt_number newRT))"

lemma sample_waiting_facts: "rt_reachable sample_waiting" "rt_calls sample_waiting = [Sent 1 None]"
proof -
  have "rt_step newRT (rt_number newRT)" by (rule number)
  moreover have "rt_step (rt_number newRT) (rt_register 0 1 (rt_number newRT))"
    by (rule enter) (simp_all add: rt_number_def newRT_def)
  moreover have "rt_step (rt_register 0 1 (rt_number newRT)) sample_waiting"
    unfolding sample_waiting_def by (rule written) (simp_all add: rt_register_def rt_number_def newRT_def set_call_def)
  ultimately show "rt_reachable sample_waiting"
    unfolding rt_reachable_def by (meson converse_rtranclp_into_rtranclp rtranclp.rtrancl_refl)
qed (simp add: sample_waiting_def rt_written_def rt_register_def rt_number_def newRT_def set_call_def)

theorem messages_dispatched_witness:
  "sample_mux (registrations (transport_of (registry_of sample_system (sample_config\<lparr>cf_LRR_Enabled := True\<rparr>))
       \<lparr>pe_Name = [], pe_Address = ''a'', pe_Transport = ''tcp'', pe_ExpectedOriginHost = [], pe_ExpectedOriginRealm = []\<rparr>)) known_commands sample_LRR
     = Some (Handle (slg_ApplicationID, CommandLocationReport))
   \<and> GMLC_Transport.result_of (rt_calls (deliver (sample_PLA\<lparr>Header := (Header sample_PLA)\<lparr>HopByHopID := 1\<rparr>\<rparr>) sample_waiting) ! 0) =
       Some (Inr (sample_PLA\<lparr>Header := (Header sample_PLA)\<lparr>HopByHopID := 1\<rparr>\<rparr>))"
proof -
  let ?a = "sample_PLA\<lparr>Header := (Header sample_PLA)\<lparr>HopByHopID := 1\<rparr>\<rparr>"
  have a: "ApplicationID (Header ?a) \<noteq> 0" "\<not> is_request ?a" "HopByHopID (Header ?a) = 1"
    by (simp_all add: sample_PLA_def is_request_def RequestFlag_def slg_ApplicationID_def)
  have l: "length (rt_calls sample_waiting) \<le> 2 ^ 32" by (simp add: sample_waiting_facts)
  have "ApplicationID (Header sample_LRR) \<noteq> 0" by (simp add: sample_LRR_def slg_ApplicationID_def)
  moreover have "location_report_header sample_LRR"
    by (simp add: sample_LRR_def location_report_header_def is_request_def RequestFlag_def)
  ultimately show ?thesis
    using messages_dispatched [OF sample_mux_ok _ sample_waiting_facts(1) l, of sample_LRR sample_system "sample_config\<lparr>cf_LRR_Enabled := True\<rparr>"]
      messages_dispatched [OF sample_mux_ok a(1) sample_waiting_facts(1) l] a(2,3)
    by (simp add: sample_waiting_facts)
qed

text \<open>
  The handler for all commands is a delivery path: an answer still reaches the calls when the dictionaries
  declare no command at all, as the comment in \<open>dialTransport\<close> says and the one on \<open>EnsureDictionary\<close> denies.
\<close>

theorem undeclared_answers_delivered:
  assumes "mux_ok mux" and "ApplicationID (Header m) \<noteq> 0"
  shows "mux (registrations (transport_of (registry_of sys cfg) p)) [] m = Some Deliver"
  using assms by (simp add: mux_ok_def registrations_of)

text \<open>
  The dictionary declares the group with the name of a client but not the name in it: when a message carries
  no text for what its dictionary does not declare, no report is ever read with the name of a client.
\<close>

definition texts_declared :: "dict_application \<Rightarrow> avp list \<Rightarrow> bool" where
  "texts_declared d as \<longleftrightarrow> (\<forall>a \<in> set as. declared d (avp_code a) (avp_vendor a) = None \<longrightarrow> type_of (avp_data a) \<noteq> Some TUTF8String)"

lemma client_name_loop_undeclared:
  "\<forall>a \<in> set as. \<forall>g. avp_data a = GroupedAVP g \<longrightarrow> texts_declared slg_dictionaryXML g \<Longrightarrow> client_name_loop acc as = Some name \<Longrightarrow> name = acc"
proof (induction as arbitrary: acc)
  case (Cons a as)
  from Cons.prems(2) obtain g where g: "avp_data a = GroupedAVP g" by (auto split: avp_data.splits)
  have u: "declared slg_dictionaryXML AVPLCSNameString Vendor3GPP = None"
    by (simp add: declared_def slg_dictionaryXML_def diam_consts slg_consts)
  have "avp_data b \<noteq> UTF8String s" if "b \<in> set (findGrouped g AVPLCSNameString Vendor3GPP)" for b s
    using Cons.prems(1) g that u by (auto simp: texts_declared_def findGrouped_def)
  then have "length (findGrouped g AVPLCSNameString Vendor3GPP) = 1 \<Longrightarrow>
      \<forall>s. avp_data (findGrouped g AVPLCSNameString Vendor3GPP ! 0) \<noteq> UTF8String s" by simp
  then have "client_name_loop acc as = Some name"
    using Cons.prems(2) g by (auto simp: Let_def split: if_splits avp_data.splits)
  with Cons show ?case by auto
qed simp

theorem client_name_never_read:
  assumes "\<forall>a \<in> set (AVPs m). \<forall>g. avp_data a = GroupedAVP g \<longrightarrow> texts_declared slg_dictionaryXML g"
    and "DecodeLRR (Some m) = Inr rep"
  shows "rep_ClientName rep = []"
proof -
  from assms(2) obtain name where n: "client_name_loop [] (find_avps m AVPClientName Vendor3GPP) = Some name" "rep_ClientName rep = name"
    by (auto simp: DecodeLRR_def Let_def split: if_splits avp_data.splits option.splits sum.splits)
  have "\<forall>a \<in> set (find_avps m AVPClientName Vendor3GPP). \<forall>g. avp_data a = GroupedAVP g \<longrightarrow> texts_declared slg_dictionaryXML g"
    using assms(1) by (auto simp: find_avps_def)
  from client_name_loop_undeclared [OF this n(1)] n(2) show ?thesis by simp
qed

end
