(* ===== verification/Spec2Isabelle.thy ===== *)
theory Spec2Isabelle
  imports GMLC_Process GMLC_Dictionary
begin

text \<open>
  A verification library for the VectorCore GMLC (Gateway Mobile Location Centre) in \<open>src/\<close>, the server that
  answers location requests of LCS clients by asking the home subscriber server for the serving node of a
  subscriber (SLh) and that node for a position (SLg).

  \<^bold>\<open>The program.\<close>  A client posts an MLP document (\<open>internal/mlp\<close>).  The handler submits one request per
  target to the service (\<open>internal/service\<close>), which authenticates and authorises the client
  (\<open>internal/auth\<close>) and queues the requests in SQLite (\<open>internal/storage/sqlite\<close>).  The request worker
  (\<open>internal/orchestrator\<close>) claims them one by one, resolves the serving node (\<open>internal/slh\<close>), asks it for the
  position (\<open>internal/slg\<close>, decoded by \<open>internal/gad\<close>) over a connection the peer registry selects
  (\<open>internal/diameter\<close>), and stores the result, a retry or a failure; the handler polls until the request
  is terminal or the wait is over.  A request with a callback leaves a delivery that the delivery worker
  (\<open>internal/delivery\<close>) posts, signed.  Network-initiated reports arrive on the same connections
  (\<open>internal/lrr\<close>) and are stored and pushed on.  \<open>cmd/gmlc/main.go\<close> loads the configuration
  (\<open>internal/config\<close>), opens, recovers and purges the store, wires all of it, and on a signal stops it in order.

  \<^bold>\<open>Theories and sources.\<close>
  \<^item> \<open>GMLC_Prelude\<close>: Go's strings, integers, times and stored timestamps; tables as lists of rows, guarded
    updates (\<open>keyed_update\<close>), queues of due rows (\<open>claim_queue\<close>), \<open>codec\<close> and \<open>lifecycle\<close> as locales.
  \<^item> \<open>GMLC_Domain\<close> (\<open>internal/domain\<close>): targets, requests, the life cycle of a request.
  \<^item> \<open>GMLC_Gad\<close> (\<open>internal/gad/gad.go\<close>): the decoder of geographical area descriptions, the uncertainty code.
  \<^item> \<open>GMLC_Diam\<close>, \<open>GMLC_Slh\<close>, \<open>GMLC_Slg\<close> (\<open>slh.go\<close>, \<open>slg.go\<close>): Diameter messages as trees of AVPs, the
    requests the program builds and the answers and reports it decodes.
  \<^item> \<open>GMLC_Db\<close>, \<open>GMLC_Requests\<close>, \<open>GMLC_Outbox\<close> (\<open>sqlite.go\<close>, \<open>storage.go\<close>): the tables, and every operation
    of the store with its transaction, its guards and a database failure as a branch.  \<open>GMLC_Store\<close>: the
    operations as one step relation \<open>store_step C\<close>, in which purges with a cutoff in \<open>C\<close> may run, with the
    databases that are reached when any purge may; \<open>retired\<close> says that a purge deleted a request.
  \<^item> \<open>GMLC_Open\<close> (\<open>sqlite.go\<close>): opening the database, and migrating its schema.
  \<^item> \<open>GMLC_Auth\<close>, \<open>GMLC_Service\<close> (\<open>auth.go\<close>, \<open>service.go\<close>): authentication, authorisation, submission.  An
    environment \<open>env\<close> says, for each store operation of a caller, what other goroutines do before it,
    whether it fails and what the clock reads, so that statements about any environment are statements
    about any interleaving of store operations.  \<open>env_within C\<close> allows the other goroutines every operation and
    the purges with a cutoff in \<open>C\<close>; \<open>env_ok\<close> and \<open>visit_ok\<close> leave purges out, \<open>alone\<close> leaves all of them out
    and \<open>undisturbed\<close> also the database failures.
  \<^item> \<open>GMLC_Orchestrator\<close>, \<open>GMLC_Delivery\<close> (\<open>orchestrator.go\<close>; \<open>worker.go\<close>, \<open>payload.go\<close>, \<open>sign.go\<close>,
    \<open>secret.go\<close>): one iteration of each worker.  \<open>GMLC_Workers\<close>: the loops around them, with their channels.
  \<^item> \<open>GMLC_Dtd\<close>, \<open>GMLC_Mlp\<close>, \<open>GMLC_Lrr\<close> (\<open>dtd.go\<close>, \<open>handler.go\<close>, \<open>resultcodes.go\<close>; \<open>push.go\<close>, \<open>lrr.go\<close>): the
    documents, coordinates and times; the MLP services; reports from the network.
  \<^item> \<open>GMLC_Transport\<close>, \<open>GMLC_Peers\<close> (\<open>tcp.go\<close>, \<open>constants.go\<close>; \<open>peertable.go\<close>, \<open>manager.go\<close>, \<open>registry.go\<close>):
    one connection and its calls, the peer table, the loop of a manager and the registry as step relations.
  \<^item> \<open>GMLC_Config\<close>, \<open>GMLC_Logging\<close>, \<open>GMLC_Main\<close> (\<open>config.go\<close>, \<open>redact.go\<close>, \<open>setup.go\<close>, \<open>main.go\<close>): the
    configuration, redaction and levels, how the components are built from it, and the recurring purge.
  \<^item> \<open>GMLC_Dictionary\<close> (\<open>dictionary.go\<close> of SLh and SLg): the two dictionaries, their registration, the types they
    give to received data and the dispatch of messages.
  \<^item> \<open>GMLC_Process\<close> (\<open>main.go\<close>, \<open>Registry.Close\<close>, \<open>Store.Close\<close>): the start with every exit it can take, and the
    shutdown as steps of \<open>main\<close> interleaved with those of everything it stops.

  \<^bold>\<open>Interfaces.\<close>  What one component relies on in another is a locale that the model interprets:
  \<open>keyed_update\<close>, \<open>request_update\<close> and \<open>delivery_update\<close> for the guarded updates, \<open>claim_queue\<close> for the two
  queues, \<open>lifecycle\<close> for the states of requests and deliveries, \<open>store_program\<close> for everything that only
  uses the store through its operations (the service, both workers, the MLP handler and the report
  handler), \<open>draining\<close> for the loops of the two workers, and \<open>component\<close> for what the shutdown stops: the loops of
  the workers and of the peer managers.

  \<^bold>\<open>What is shown.\<close>  Of the store: its invariant in every reachable database, that a request is lost only to
  a purge after it has ended and until then moves along its life cycle, that results read back as stored, recovery, retention and migration.  Of
  the workers: that an undisturbed iteration implements a decision that does not mention the store, that
  nobody is told of an outcome that was not stored, that nothing is left in an intermediate state, that the loops come to
  rest (for iterations that nothing disturbs) and lose no wake-up.  Of the interfaces to the outside: that only an entitled client causes or sees
  anything, that a position in an answer is the stored result for that very target, that the handler
  answers in time, and with which status; that answers and reports are accepted only when well formed;
  that texts and codes are read back; that callbacks carry the right signature.  Of the connections: that
  every answer goes to its call, that no call is left waiting when a connection is lost, and that routes
  lead to connections that are served, or to one that is being closed with its manager; of the dictionaries, that messages typed by them are refused only for what they
  say, and that answers and reports reach the code that waits for them.  Of the process: that a valid
  configuration builds a consistent system, under which conditions on the configuration and the
  surroundings a start comes to serve, that the shutdown
  closes the store only when all that \<open>main\<close> stops is at rest, unless its deadline has passed, and that the
  deadline ends it.  Of the whole, in this theory: that a submitted request is served, from the client's
  submission through the worker to the result the client reads, and that a callback is, from the
  submission through both workers to the signed post.

  \<^bold>\<open>Bounds.\<close>  \<open>awaitTerminal\<close> and \<open>drain\<close> are partial functions with the option type; that they return is
  shown from the clock (\<open>clock_passes\<close>) and from a budget of attempts.  Hop-by-hop ids are 32-bit words, so
  calls are matched on connections with at most \<open>2^32\<close> calls; generations are 64-bit words, so routes are
  live for fewer than \<open>2^64\<close> connections.  Stamps are stored as text, whose order is that of time from one
  second to the next but not within a second; bounds on them are stated both for the stored stamps and to
  the second.  Durations wrap at 64 bits where the code multiplies them.
  \<open>float64\<close> arithmetic is exact rational arithmetic with the non-finite values added.  Letters are folded
  as ASCII.

  \<^bold>\<open>Arguments.\<close>  SHA-256, HMAC, AES-GCM, the UUIDs, the XML, JSON and YAML codecs, the parsers of URLs,
  addresses and floats, the HTTP client, the sockets of TCP, UDP and SCTP, the load of a dictionary, the
  dispatcher of go-diameter and the SQL text of a migration are arguments of the definitions that use
  them; hypotheses about them are stated where they are used (\<open>aead_ok\<close>: an authenticated cipher opens what
  it sealed; \<open>mux_ok\<close>: the dispatcher finds a handler by the command; \<open>typed_message\<close>: received data have the
  types of the dictionary).  Signals, the deadline of the shutdown, and the requests and the failure of the HTTP
  listener are steps.

  \<^bold>\<open>Not modelled.\<close>  The capabilities exchange and the watchdog of go-diameter, and the goroutines it runs
  report handlers on, which the shutdown does not wait for; the bytes of Diameter messages, XML, JSON and
  YAML; the inside of the HTTP server, of the database driver and of the text handlers of the logger; the
  parsing of flags; the wording of log records and errors.  Each is library or operating-system behaviour
  without logic of the program's own.
\<close>

section \<open>A request from submission to result\<close>

text \<open>An undisturbed submission that creates a request appends one due row for its target, and leaves the clients alone.\<close>

definition queued_for :: "submit_input \<Rightarrow> string \<Rightarrow> request_row \<Rightarrow> bool" where
  "queued_for inp i q \<longleftrightarrow> row_id q = i \<and> row_client_id q = in_ClientID inp \<and> row_target_kind q = Kind (in_Target inp)
     \<and> row_target_value q = Value (in_Target inp) \<and> row_state q = StateQueued \<and> row_next_attempt_at q = None"

text \<open>Of a target with both identities the IMSI is the one that is stored and asked for.\<close>

definition used_identity :: "target \<Rightarrow> target" where
  "used_identity t = (if Kind t = ''imsi'' then \<lparr>IMSI = Value t, MSISDN = []\<rparr> else \<lparr>IMSI = [], MSISDN = Value t\<rparr>)"

lemma new_row_queued:
  assumes "c_ID c = in_ClientID inp"
  shows "queued_for inp uuid (insert_row now ((new_request uuid c key svc (in_Target inp) lt prio qos)\<lparr>rq_CreatedAt := t, rq_UpdatedAt := t\<rparr>))"
  using assms by (simp add: queued_for_def insert_row_def new_request_def)

lemma CreateRequest_appends:
  assumes "CreateRequest False f now r db = (Inr (r0, True), db1)"
  shows "db1 = db\<lparr>location_requests := location_requests db @ [insert_row now (r\<lparr>rq_CreatedAt := now, rq_UpdatedAt := now\<rparr>)]\<rparr>
    \<and> rq_ID r0 = rq_ID r \<and> rq_ID r \<notin> row_id ` set (location_requests db)"
  using assms
  by (auto simp: CreateRequest_def Let_def insert_violates_def row_by_None insert_row_def split: if_splits sum.splits)

lemma registerCallback_frame:
  "undisturbed E \<Longrightarrow> registerCallback s E k cid url sec db = (x, db') \<Longrightarrow>
     location_requests db' = location_requests db \<and> lcs_clients db' = lcs_clients db"
  by (auto simp: registerCallback_def CreateSubscription_def Let_def split: option.splits prod.splits sum.splits if_splits)

lemma attach_callback_appended:
  assumes "undisturbed E" and "attach_callback s E k cid True url sec sub r db1 = (Inr (r', sub'), db2)"
    and "location_requests db1 = rows @ [q]" and "queued_for inp (rq_ID r) q" and "rq_ID r \<notin> row_id ` set rows"
  shows "\<exists>q'. location_requests db2 = rows @ [q'] \<and> queued_for inp (rq_ID r) q' \<and> lcs_clients db2 = lcs_clients db1 \<and> rq_ID r' = rq_ID r
    \<and> (url \<noteq> [] \<and> sub = [] \<longrightarrow> (\<exists>i db. registerCallback s E k cid url sec db1 = (Inr i, db) \<and> row_subscription_id q' = Some i
         \<and> SetRequestSubscription False (rq_ID r) i db = (Inr (), db2)))"
proof (cases "url = []")
  case True
  with assms show ?thesis by (auto simp: attach_callback_def)
next
  case False
  obtain x db where x: "(if sub = [] then registerCallback s E k cid url sec db1 else (Inr sub, db1)) = (x, db)" by force
  have f: "location_requests db = rows @ [q]" "lcs_clients db = lcs_clients db1"
    using x assms(3) registerCallback_frame [OF assms(1)] by (auto split: if_splits)
  from x False assms(1,2) obtain i where d: "db2 = update_requests (\<lambda>p. row_id p = rq_ID r) (set_subscription i) db" "rq_ID r' = rq_ID r"
    and i: "x = Inr i" "SetRequestSubscription False (rq_ID r) i db = (Inr (), db2)"
    by (auto simp: attach_callback_def SetRequestSubscription_def split: sum.splits)
  have "map (\<lambda>p. if row_id p = rq_ID r then set_subscription i p else p) rows = rows"
    using assms(5) by (intro map_idI) (auto simp: image_iff)
  then have "location_requests db2 = rows @ [set_subscription i q]"
    using d(1) f(1) assms(4) by (simp add: update_requests_def update_where_def queued_for_def)
  moreover have "queued_for inp (rq_ID r) (set_subscription i q)" "row_subscription_id (set_subscription i q) = Some i"
    using assms(4) by (simp_all add: queued_for_def set_subscription_def)
  ultimately show ?thesis using d f(2) x i by (intro exI [of _ "set_subscription i q"]) (auto simp: update_requests_def)
qed

lemma Submit_appends:
  assumes "undisturbed E" and "Submit s E inp db = (Inr (r, True), db1, hs)"
  shows "\<exists>q. location_requests db1 = location_requests db @ [q] \<and> queued_for inp (rq_ID r) q \<and> lcs_clients db1 = lcs_clients db
    \<and> (in_CallbackURL inp \<noteq> [] \<longrightarrow> (\<exists>i dba dbr.
         registerCallback s E 4 (in_ClientID inp) (in_CallbackURL inp) (in_CallbackSecret inp) dba = (Inr i, dbr)
         \<and> row_subscription_id q = Some i \<and> outbox_same db dba \<and> outbox_same dbr db1 \<and> (store_step C)\<^sup>*\<^sup>* db dba \<and> (store_step C)\<^sup>*\<^sup>* dbr db1))"
proof -
  from assms(2) obtain c db0 sub where c: "c_ID c = in_ClientID inp" and db0: "db0 = e_gap E 1 (e_gap E 0 db)"
    and o: "submit_one s E 2 c (in_CallbackURL inp) (in_CallbackSecret inp) [] ''immediate location request''
      (new_request (e_uuid E 2) c (in_IdempotencyKey inp) ServiceImmediate (in_Target inp) (in_LocationType inp)
         (in_Priority inp) (in_QoS inp)) db0 = (Inr (r, True, sub), db1, hs)"
    by (rule Submit_Inr)
  define new where "new = new_request (e_uuid E 2) c (in_IdempotencyKey inp) ServiceImmediate (in_Target inp) (in_LocationType inp)
    (in_Priority inp) (in_QoS inp)"
  have "db0 = db" using db0 assms(1) by simp
  with o assms(1) obtain r0 dba sub0 dbb ev where
    cr: "CreateRequest False (e_fault E 3) (e_now E 2) new db = (Inr (r0, True), dba)"
    and at: "attach_callback s E 4 (c_ID c) True (in_CallbackURL inp) (in_CallbackSecret inp) [] r0 dba = (Inr (r, sub0), dbb)"
    and au: "db1 = snd (RecordAudit False (e_now E 6) ev dbb)"
    unfolding submit_one_def new_def [symmetric] Let_def by (auto split: prod.splits sum.splits)
  from CreateRequest_appends [OF cr] have a: "dba = db\<lparr>location_requests := location_requests db
        @ [insert_row (e_now E 2) (new\<lparr>rq_CreatedAt := e_now E 2, rq_UpdatedAt := e_now E 2\<rparr>)]\<rparr>"
    and i: "rq_ID r0 = e_uuid E 2" "rq_ID r0 \<notin> row_id ` set (location_requests db)" by (simp_all add: new_def new_request_def)
  have "queued_for inp (rq_ID r0) (insert_row (e_now E 2) (new\<lparr>rq_CreatedAt := e_now E 2, rq_UpdatedAt := e_now E 2\<rparr>))"
    unfolding new_def i(1) by (rule new_row_queued [OF c])
  from attach_callback_appended [OF assms(1) at _ this i(2)] a
  obtain q where q: "location_requests dbb = location_requests db @ [q]" "queued_for inp (rq_ID r0) q" "lcs_clients dbb = lcs_clients db"
    "rq_ID r = rq_ID r0" and cb: "in_CallbackURL inp \<noteq> [] \<longrightarrow> (\<exists>i dbr.
      registerCallback s E 4 (c_ID c) (in_CallbackURL inp) (in_CallbackSecret inp) dba = (Inr i, dbr) \<and> row_subscription_id q = Some i
      \<and> SetRequestSubscription False (rq_ID r0) i dbr = (Inr (), dbb))" by auto
  obtain ra where ra: "RecordAudit False (e_now E 6) ev dbb = (ra, db1)" using au by (metis prod.collapse)
  have "outbox_same db dba" "(store_step C)\<^sup>*\<^sup>* db dba" using request_frames(2) [OF cr] store_step.create [OF cr] by blast+
  moreover have "outbox_same dbr db1 \<and> (store_step C)\<^sup>*\<^sup>* dbr db1" if "SetRequestSubscription False (rq_ID r0) i dbr = (Inr (), dbb)" for i dbr
    using request_frames(3) [OF that] request_frames(5) [OF ra]
      rtranclp_trans [OF r_into_rtranclp [of "store_step C", OF store_step.subscribe [OF that]]
        r_into_rtranclp [of "store_step C", OF store_step.audit [OF ra]]]
    by (simp add: outbox_same_def)
  ultimately have "in_CallbackURL inp \<noteq> [] \<longrightarrow> (\<exists>i dba dbr.
      registerCallback s E 4 (in_ClientID inp) (in_CallbackURL inp) (in_CallbackSecret inp) dba = (Inr i, dbr)
      \<and> row_subscription_id q = Some i \<and> outbox_same db dba \<and> outbox_same dbr db1 \<and> (store_step C)\<^sup>*\<^sup>* db dba \<and> (store_step C)\<^sup>*\<^sup>* dbr db1)"
    using cb c by metis
  moreover have "location_requests db1 = location_requests dbb" "lcs_clients db1 = lcs_clients dbb"
    using au by (simp_all add: RecordAudit_def Let_def)
  ultimately show ?thesis using q by (intro exI [of _ q]) simp
qed

text \<open>A client that authenticated does so again while its row is the same.\<close>

lemma Authenticate_again:
  assumes "undisturbed E" and "undisturbed E2" and "Authenticate sha256 E k cid token db = (Inr c, db')"
    and "lcs_clients db2 = lcs_clients db"
  shows "\<exists>c2. Authenticate sha256 E2 k2 cid token db2 = (Inr c2, db2) \<and> c_ID c2 = c_ID c"
  using assms
  by (auto simp: Authenticate_def GetClientCredential_def GetClientAuthzData_def Let_def split: option.splits if_splits)

lemma Submit_authenticated:
  assumes "undisturbed E" and "Submit s E inp db = (Inr (r, created), db1, hs)"
  shows "\<exists>c. Authenticate (sv_sha256 s) E 0 (in_ClientID inp) (in_Token inp) db = (Inr c, db) \<and> c_ID c = in_ClientID inp"
proof -
  from assms(2) obtain c svc dbp where
    p: "prepare s E 0 (in_ClientID inp) (in_Token inp) (in_IdempotencyKey inp) (in_Service inp) (in_LocationType inp) db = (Inr (c, svc), dbp)"
    and a: "Authorize c svc (in_Target inp) = None"
    by (auto simp: Submit_def split: option.splits prod.splits sum.splits)
  from p have "Authenticate (sv_sha256 s) E 0 (in_ClientID inp) (in_Token inp) db = (Inr c, dbp)"
    by (auto simp: prepare_def split: if_splits prod.splits sum.splits)
  with prepare_Inr [OF p a] assms(1) show ?thesis by auto
qed

text \<open>What a worker does with a queued request when nothing else is due and the network answers with a position.\<close>

lemma queued_worked:
  assumes "store_inv db1" and "undisturbed E" and "hook_quiet (Some h)"
    and "location_requests db1 = rows @ [q]" and "queued_for inp i q" and "\<forall>p \<in> set rows. \<not> claimable (utc (e_now E 0)) p"
    and "resolver (used_identity (in_Target inp)) = Inr n"
    and "\<And>lr. lr_Target lr = used_identity (in_Target inp) \<Longrightarrow> provider n lr = Inr out"
    and "pr_Kind out \<notin> {NoImmediateResult, Deferred}"
  shows "\<exists>db2 req v q2. one (Some h) E ctx resolver provider db1 = (True, db2, [(req, v)]) \<and> moved q2 db1 db2 \<and> row_id q2 = i
    \<and> row_state q2 = StateCompleted \<and> GetResult False i db2 = Inr (v\<lparr>rs_RequestID := i\<rparr>)
    \<and> rq_ID req = i \<and> rq_State req = StateCompleted \<and> rq_SubscriptionID req = row_subscription_id q
    \<and> rs_Latitude v = map_option gp_Latitude (pr_Position out) \<and> rs_Longitude v = map_option gp_Longitude (pr_Position out)
    \<and> rs_RawGAD v = pr_RawLocationEstimate out \<and> rs_ECGI v = pr_ECGI out"
proof -
  let ?now = "utc (e_now E 0)"
  have i1: "requests_inv db1" using assms(1) by (simp add: store_inv_def)
  have "filter (claimable ?now) (location_requests db1) = [q]"
    using assms(5,6) by (simp add: assms(4) filter_empty_conv claimable_def queued_for_def)
  then have f: "first_by request_order (filter (claimable ?now) (location_requests db1)) = Some q" by simp
  define q1 where "q1 = set_claimed ?now q"
  have t: "target_of (request_of_row q1) = used_identity (in_Target inp)" "row_id q1 = i" "rq_ID (request_of_row q1) = i"
    "rq_SubscriptionID (request_of_row q1) = row_subscription_id q"
    using assms(5) by (simp_all add: used_identity_def target_of_def request_of_row_def q1_def set_claimed_def queued_for_def)
  have "lr_Target (location_request_of (request_of_row q1) terms) = used_identity (in_Target inp)" for terms
    by (simp add: location_request_of_def t)
  with assms(7-9) t have v: "verdict_of ctx resolver provider terms (request_of_row q1) now
      = verdict.Done (GMLC_Orchestrator.result_of (request_of_row q1) n out now)" for terms now
    by (simp add: verdict_of_def)
  let ?v = "GMLC_Orchestrator.result_of (request_of_row q1) n out (e_now E 5)"
  from claimed_leaves [OF assms(2,3) i1 f, where ctx = ctx and resolver = resolver and provider = provider] v
  obtain db2 ns k where o: "one (Some h) E ctx resolver provider db1 = (True, db2, ns)"
    and l: "leaves (Some h) (request_of_row q1) q1 (verdict.Done ?v) (e_now E k) db1 (db2, ns)"
    by (auto simp: q1_def)
  from l obtain q2 t1 where m: "moved q2 db1 db2" "row_id q2 = i" "row_state q2 = StateCompleted"
    "GetResult False i db2 = Inr (?v\<lparr>rs_RequestID := i\<rparr>)"
    and ns: "ns = [((request_of_row q1)\<lparr>rq_State := StateCompleted, rq_FailureCode := [], rq_UpdatedAt := t1\<rparr>, ?v)]"
    by (auto simp: leaves_def settled_def t)
  show ?thesis
    using o m t unfolding ns
    by (intro exI [of _ db2] exI [of _ "(request_of_row q1)\<lparr>rq_State := StateCompleted, rq_FailureCode := [], rq_UpdatedAt := t1\<rparr>"]
        exI [of _ ?v] exI [of _ q2] conjI) (simp_all add: GMLC_Orchestrator.result_of_def Let_def)
qed

text \<open>
  C5: A location is served.  When an entitled client's submission creates a request and no other request is
  due, one iteration of the worker that reaches the network takes that request through: the serving node
  that the resolver names for the target is asked, and the client then reads its request as completed,
  with the position that node gave.
\<close>

theorem location_served:
  assumes "store_inv db" and "undisturbed E" and "undisturbed E1" and "undisturbed E2"
    and "Submit s E inp db = (Inr (r, True), db1, hs)"
    and "\<forall>q \<in> set (location_requests db). \<not> claimable (utc (e_now E1 0)) q"
    and "resolver (used_identity (in_Target inp)) = Inr n"
    and "\<And>lr. lr_Target lr = used_identity (in_Target inp) \<Longrightarrow> provider n lr = Inr out"
    and "pr_Kind out \<notin> {NoImmediateResult, Deferred}"
  shows "\<exists>db2 ns req v. one (Some (completionHook E1 8 marshal)) E1 ctx resolver provider db1 = (True, db2, ns)
    \<and> Service_GetResult s E2 (in_ClientID inp) (in_Token inp) (rq_ID r) db2 = (Inr (req, Some v), db2)
    \<and> rq_State req = StateCompleted
    \<and> rs_Latitude v = map_option gp_Latitude (pr_Position out) \<and> rs_Longitude v = map_option gp_Longitude (pr_Position out)
    \<and> rs_RawGAD v = pr_RawLocationEstimate out \<and> rs_ECGI v = pr_ECGI out"
proof -
  let ?h = "completionHook E1 8 marshal"
  have al: "alone E1" using assms(3) by (simp add: undisturbed_def)
  have h: "hook_quiet (Some ?h)" "hook_within {} (Some ?h)" by (rule completionHook_quiet [OF al], rule completionHook_ok [OF alone_ok [OF al]])
  from Submit_appends [OF assms(2,5)] obtain q where rows: "location_requests db1 = location_requests db @ [q]"
    and q: "queued_for inp (rq_ID r) q" and cl: "lcs_clients db1 = lcs_clients db" by blast
  have s1: "store_inv db1"
    using run_inv [OF Submit_runs assms(1)] assms(2,5) alone_ok by (metis fst_conv snd_conv undisturbed_def)
  from queued_worked [where resolver = resolver and provider = provider and n = n and out = out and ctx = ctx,
      OF s1 assms(3) h(1) rows q assms(6-9)] obtain db2 req v q2 where
    o: "one (Some ?h) E1 ctx resolver provider db1 = (True, db2, [(req, v)])" and m: "moved q2 db1 db2"
    and i: "row_id q2 = rq_ID r" and st: "row_state q2 = StateCompleted"
    and g: "GetResult False (rq_ID r) db2 = Inr (v\<lparr>rs_RequestID := rq_ID r\<rparr>)"
    and v: "rs_Latitude v = map_option gp_Latitude (pr_Position out)" "rs_Longitude v = map_option gp_Longitude (pr_Position out)"
      "rs_RawGAD v = pr_RawLocationEstimate out" "rs_ECGI v = pr_ECGI out" by blast
  have "q \<in> set (location_requests db1)" by (simp add: rows)
  from run_row [OF one_runs [OF alone_ok [OF al] h(2)] s1 this, of ctx resolver provider] o
  obtain q3 where q3: "q3 \<in> set (location_requests db2)" "row_reaches q q3" by auto
  have b: "row_by row_id (rq_ID r) (location_requests db2) = Some q2" and i2: "requests_inv db2" and cl2: "lcs_clients db2 = lcs_clients db"
    using m i cl unfolding moved_def by auto
  have "row_id q3 = rq_ID r" using q3(2) q by (simp add: row_reaches_def queued_for_def)
  with row_by_unique [OF requests_inv_unique [OF i2] q3(1)] b have "q3 = q2" by simp
  with q3(2) q have cid: "row_client_id q2 = in_ClientID inp" by (simp add: row_reaches_def client_key_def queued_for_def)
  from Submit_authenticated [OF assms(2,5)] obtain c where
    c: "Authenticate (sv_sha256 s) E 0 (in_ClientID inp) (in_Token inp) db = (Inr c, db)" "c_ID c = in_ClientID inp" by blast
  from Authenticate_again [OF assms(2,4) c(1) cl2, of 0] c(2) obtain c2 where
    c2: "Authenticate (sv_sha256 s) E2 0 (in_ClientID inp) (in_Token inp) db2 = (Inr c2, db2)" "c_ID c2 = in_ClientID inp" by auto
  have "Get s E2 (in_ClientID inp) (in_Token inp) (rq_ID r) db2 = (Inr (request_of_row q2), db2)"
    using c2 b cid assms(4) by (simp add: Get_def GetRequest_def Let_def request_of_row_def)
  then have "Service_GetResult s E2 (in_ClientID inp) (in_Token inp) (rq_ID r) db2
      = (Inr (request_of_row q2, Some (v\<lparr>rs_RequestID := rq_ID r\<rparr>)), db2)"
    using g st assms(4) by (simp add: Service_GetResult_def Let_def request_of_row_def)
  then show ?thesis
    using o st v by (intro exI [of _ db2] exI [of _ "[(req, v)]"] exI [of _ "request_of_row q2"] exI [of _ "v\<lparr>rs_RequestID := rq_ID r\<rparr>"])
      (simp add: request_of_row_def)
qed

theorem location_served_witness:
  "\<exists>r db1 hs db2 ns req v. Submit sample_service (calm 5) sample_input sample_clients = (Inr (r, True), db1, hs)
    \<and> one (Some (completionHook (calm 5) 8 (\<lambda>_ _. Some []))) (calm 5) (\<lambda>_. False) (\<lambda>_. Inr sample_node) (\<lambda>_ _. Inr sample_positioning) db1
      = (True, db2, ns)
    \<and> Service_GetResult sample_service (calm 5) ''c'' ''t'' (rq_ID r) db2 = (Inr (req, Some v), db2)
    \<and> rq_State req = StateCompleted \<and> rs_ECGI v = [1]"
proof -
  obtain r db1 hs where s: "Submit sample_service (calm 5) sample_input sample_clients = (Inr (r, True), db1, hs)"
    using sample_submit by blast
  have "location_requests sample_clients = []" by (simp add: sample_clients_def sample_db_def)
  with location_served [OF sample_clients_inv calm_undisturbed [of 5] calm_undisturbed [of 5] calm_undisturbed [of 5] s,
      where resolver = "\<lambda>_. Inr sample_node" and provider = "\<lambda>_ _. Inr sample_positioning" and ctx = "\<lambda>_. False"
      and marshal = "\<lambda>_ _. Some []" and n = sample_node and out = sample_positioning]
  obtain db2 ns req v where
    "one (Some (completionHook (calm 5) 8 (\<lambda>_ _. Some []))) (calm 5) (\<lambda>_. False) (\<lambda>_. Inr sample_node) (\<lambda>_ _. Inr sample_positioning) db1
      = (True, db2, ns)"
    "Service_GetResult sample_service (calm 5) ''c'' ''t'' (rq_ID r) db2 = (Inr (req, Some v), db2)"
    "rq_State req = StateCompleted" "rs_ECGI v = [1]"
    by (auto simp: sample_positioning_def sample_input_def)
  with s show ?thesis by blast
qed

section \<open>A callback from submission to delivery\<close>

text \<open>Calling the completion hook is the last thing an iteration does.\<close>

lemma notify_last:
  "notifyCompletion (Some h) now r st code v db =
     (case notifyCompletion (Some (\<lambda>_ _ db. db)) now r st code v db of (db', ns) \<Rightarrow> (foldl (\<lambda>db (r, v). h r v db) db' ns, ns))"
  by (simp add: notifyCompletion_def Let_def)

lemma fail_last:
  "fail_and_notify (Some h) E k r from code desc db =
     (case fail_and_notify (Some (\<lambda>_ _ db. db)) E k r from code desc db of (db', ns) \<Rightarrow> (foldl (\<lambda>db (r, v). h r v db) db' ns, ns))"
  unfolding fail_and_notify_def by (subst notify_last) (auto simp: Let_def split: prod.split sum.split)

lemma handleError_last:
  "handleError (Some h) E k r a from e db =
     (case handleError (Some (\<lambda>_ _ db. db)) E k r a from e db of (db', ns) \<Rightarrow> (foldl (\<lambda>db (r, v). h r v db) db' ns, ns))"
  unfolding handleError_def by (auto simp: Let_def fail_last [where h = h] split: prod.split sum.split)

lemma finish_last:
  "finish (Some h) E r n out db =
     (case finish (Some (\<lambda>_ _ db. db)) E r n out db of (db', ns) \<Rightarrow> (foldl (\<lambda>db (r, v). h r v db) db' ns, ns))"
  unfolding finish_def by (auto simp: Let_def fail_last [where h = h] notify_last [where h = h] split: prod.split sum.split)

lemma one_last:
  "one (Some h) E ctx resolver provider db =
     (case one (Some (\<lambda>_ _ db. db)) E ctx resolver provider db of (w, db', ns) \<Rightarrow> (w, foldl (\<lambda>db (r, v). h r v db) db' ns, ns))"
proof -
  have "position (Some h) E ctx provider r n db =
     (case position (Some (\<lambda>_ _ db. db)) E ctx provider r n db of (db', ns) \<Rightarrow> (foldl (\<lambda>db (r, v). h r v db) db' ns, ns))" for r n db
    unfolding position_def by (auto simp: Let_def handleError_last [where h = h] finish_last [where h = h] split: prod.split sum.split)
  then show ?thesis
    unfolding one_def by (auto simp: handleError_last [where h = h] split: prod.split sum.split option.split)
qed

text \<open>Apart from its hook, an iteration leaves the outbox alone.\<close>

lemma outbox_same_trans [trans]: "outbox_same db1 db2 \<Longrightarrow> outbox_same db2 db3 \<Longrightarrow> outbox_same db1 db3"
  by (simp add: outbox_same_def)

lemma fail_outbox: "undisturbed E \<Longrightarrow> outbox_same db (fst (fail_and_notify (Some (\<lambda>_ _ db. db)) E k r from code desc db))"
  using guarded_frames(5) [OF prod.collapse [symmetric]]
  by (auto simp: fail_and_notify_def notifyCompletion_def Let_def split: prod.split sum.split dest: guarded_frames(5))

lemma handleError_outbox: "undisturbed E \<Longrightarrow> outbox_same db (fst (handleError (Some (\<lambda>_ _ db. db)) E k r a from e db))"
  using guarded_frames(4) [OF prod.collapse [symmetric]] by (simp add: handleError_def fail_outbox Let_def)

lemma finish_outbox:
  assumes "undisturbed E"
  shows "outbox_same db (fst (finish (Some (\<lambda>_ _ db. db)) E r n out db))"
proof -
  have h: "outbox_same db1 (snd (RecordHistory f u k a v db1))" for f u k a v db1
    using other_frames(4) [OF prod.collapse [symmetric]] by blast
  show ?thesis
    using assms fail_outbox [OF assms] guarded_frames(6) [OF prod.collapse [symmetric]] h
    by (auto simp: finish_def notifyCompletion_def Let_def split: prod.split sum.split dest!: guarded_frames(6) intro: outbox_same_trans)
qed

lemma position_outbox:
  assumes "undisturbed E"
  shows "outbox_same db (fst (position (Some (\<lambda>_ _ db. db)) E ctx provider r n db))"
  using assms handleError_outbox [OF assms] finish_outbox [OF assms] guarded_frames(4) [OF prod.collapse [symmetric]]
  by (auto simp: position_def requeue_interrupted_def Let_def split: sum.split)

lemma one_outbox:
  assumes "undisturbed E"
  shows "outbox_same db (fst (snd (one (Some (\<lambda>_ _ db. db)) E ctx resolver provider db)))"
  using assms handleError_outbox [OF assms] position_outbox [OF assms] guarded_frames(4) [OF prod.collapse [symmetric]]
  by (auto simp: one_def requeue_interrupted_def split: prod.split sum.split option.split
      dest!: guarded_frames(2,3) intro: outbox_same_trans)

lemma registerCallback_outbox:
  assumes "undisturbed E" and "registerCallback s E k cid url sec db = (Inr i, db')"
  shows "deliveries db' = deliveries db \<and> row_by sub_id i (delivery_subscriptions db') \<noteq> None"
  using assms
  by (auto simp: registerCallback_def CreateSubscription_def Let_def row_by_append split: option.splits prod.splits sum.splits if_splits)

text \<open>
  C6: A callback is served.  In the system that \<open>main\<close> builds, with callbacks enabled: when a submission with a
  callback creates a request and nothing else is due, one iteration of the request worker completes it, and
  the next iteration of the delivery worker posts to the URL the client gave the text of that very
  request with the position the serving node gave, signed with the secret the client gave.
\<close>

theorem callback_served:
  assumes "build sys cfg = Inr g" and "gm_delivery g = Some w"
    and "aead_ok (sy_aead sys)" and "sy_nonce sys = Some nonce" and "length nonce = NonceSize"
    and "store_inv db" and "undisturbed E" and "undisturbed E1" and "undisturbed E2"
    and "Submit (gm_service g) E inp db = (Inr (r, True), db1, hs)" and "in_CallbackURL inp \<noteq> []"
    and "\<forall>q \<in> set (location_requests db). \<not> claimable (utc (e_now E1 0)) q"
    and "\<forall>d \<in> set (deliveries db). \<not> due_delivery (utc (e_now E2 0)) d \<and> del_id d \<noteq> e_uuid E1 8"
    and "resolver (used_identity (in_Target inp)) = Inr n"
    and "\<And>lr. lr_Target lr = used_identity (in_Target inp) \<Longrightarrow> provider n lr = Inr out"
    and "pr_Kind out \<notin> {NoImmediateResult, Deferred}" and "\<And>req v. marshal req v \<noteq> None" and "hc_valid http (in_CallbackURL inp)"
  shows "\<exists>db2 ns req v payload db3. one (Some (completionHook E1 8 marshal)) E1 ctx resolver provider db1 = (True, db2, ns)
    \<and> rq_ID req = rq_ID r \<and> rq_State req = StateCompleted
    \<and> rs_Latitude v = map_option gp_Latitude (pr_Position out) \<and> rs_Longitude v = map_option gp_Longitude (pr_Position out)
    \<and> marshal req v = Some payload
    \<and> Delivery_one w (sy_aead sys) hmac http stopped E2 db2 =
        (True, db3, [\<lparr>hr_URL = in_CallbackURL inp, hr_Body = payload,
           hr_Header = [(''Content-Type'', ''application/json''),
             (''X-GMLC-Signature'', ''sha256='' @ EncodeToString (hmac (byte_string (in_CallbackSecret inp)) payload))]\<rparr>])"
proof -
  let ?id = "\<lambda>_ _ db. db" and ?h = "completionHook E1 8 marshal"
  have al: "alone E1" "env_ok E" using assms(7,8) alone_ok by (simp_all add: undisturbed_def)
  from Submit_appends [OF assms(7,10)] assms(11) obtain q i dba dbr where
    rows: "location_requests db1 = location_requests db @ [q]" and q: "queued_for inp (rq_ID r) q" "row_subscription_id q = Some i"
    and reg: "registerCallback (gm_service g) E 4 (in_ClientID inp) (in_CallbackURL inp) (in_CallbackSecret inp) dba = (Inr i, dbr)"
    and fr: "outbox_same db dba" "outbox_same dbr db1" "(store_step {})\<^sup>*\<^sup>* db dba" "(store_step {})\<^sup>*\<^sup>* dbr db1" by blast
  have s1: "store_inv db1" using run_inv [OF Submit_runs [OF al(2)] assms(6)] assms(10) by (metis fst_conv snd_conv)
  have "(store_step {})\<^sup>*\<^sup>* dba dbr" using registerCallback_runs [OF al(2) rtranclp.rtrancl_refl] reg by (metis snd_conv)
  then have sr: "store_inv dbr" using run_inv fr(3) assms(6) by (metis rtranclp_trans)
  have qi: "hook_quiet (Some ?id)" by (simp add: hook_quiet_def)
  from queued_worked [where resolver = resolver and provider = provider and n = n and out = out and ctx = ctx,
      OF s1 assms(8) qi rows q(1) assms(12,14-16)] obtain dbx req v where
    o: "one (Some ?id) E1 ctx resolver provider db1 = (True, dbx, [(req, v)])"
    and req: "rq_ID req = rq_ID r" "rq_State req = StateCompleted" "rq_SubscriptionID req = Some i"
    and v: "rs_Latitude v = map_option gp_Latitude (pr_Position out)" "rs_Longitude v = map_option gp_Longitude (pr_Position out)"
    using q(2) by metis
  obtain payload where p: "marshal req v = Some payload" using assms(17) by blast
  define row where "row = \<lparr>del_id = e_uuid E1 8, del_subscription_id = i, del_payload = payload, del_state = DeliveryPending,
    del_attempt_count = 0, del_next_attempt_at = None, del_last_response_code = None, del_created_at = utc (e_now E1 8), del_updated_at = utc (e_now E1 8)\<rparr>"
  have "outbox_same db1 dbx" using one_outbox [OF assms(8), of db1 ctx resolver provider] o by simp
  with fr registerCallback_outbox [OF assms(7) reg] have d: "deliveries dbx = deliveries db" and sub: "row_by sub_id i (delivery_subscriptions dbx) \<noteq> None"
    by (auto simp: outbox_same_def)
  have "row_by del_id (e_uuid E1 8) (deliveries dbx) = None" using assms(13) by (auto simp: d row_by_None)
  then have hk: "?h req v dbx = dbx\<lparr>deliveries := deliveries dbx @ [row]\<rparr>"
    using p req(3) sub assms(8) by (simp add: completionHook_def CreateDelivery_def Let_def row_def)
  have o2: "one (Some ?h) E1 ctx resolver provider db1 = (True, dbx\<lparr>deliveries := deliveries dbx @ [row]\<rparr>, [(req, v)])"
    using one_last [of ?h E1 ctx resolver provider db1] o hk by simp
  have "(store_step {})\<^sup>*\<^sup>* db1 (dbx\<lparr>deliveries := deliveries dbx @ [row]\<rparr>)"
    using one_runs [OF alone_ok [OF al(1)] completionHook_ok [OF alone_ok [OF al(1)]], of "{}" db1 8 marshal ctx resolver provider] o2 by simp
  then have run: "(store_step {})\<^sup>*\<^sup>* dbr (dbx\<lparr>deliveries := deliveries dbx @ [row]\<rparr>)" using fr(4) by (rule rtranclp_trans [rotated])
  have f: "first_by delivery_order (filter (due_delivery (utc (e_now E2 0))) (deliveries (dbx\<lparr>deliveries := deliveries dbx @ [row]\<rparr>))) = Some row"
    using assms(13) by (simp add: d filter_empty_conv due_delivery_def row_def)
  have e: "sv_encryptSecret (gm_service g) = Some (\<lambda>p. case EncryptSecret (sy_aead sys) (Some nonce) (dc_EncryptionKey w) p of
      Inl _ \<Rightarrow> None | Inr c \<Rightarrow> Some c)" and l: "length (dc_EncryptionKey w) = 32"
    using build_key [OF assms(1,2)] by (simp_all add: encryptor_def [abs_def] assms(4))
  have "del_subscription_id row = i" "del_payload row = payload" by (simp_all add: row_def)
  from callback_signed [OF assms(3,5) l e reg sr run assms(9) f this(1) refl assms(18)] this(2) obtain db3 where
    "Delivery_one w (sy_aead sys) hmac http stopped E2 (dbx\<lparr>deliveries := deliveries dbx @ [row]\<rparr>) =
      (True, db3, [\<lparr>hr_URL = in_CallbackURL inp, hr_Body = payload,
         hr_Header = [(''Content-Type'', ''application/json''),
           (''X-GMLC-Signature'', ''sha256='' @ EncodeToString (hmac (byte_string (in_CallbackSecret inp)) payload))]\<rparr>])" by metis
  with o2 req(1,2) v p show ?thesis by blast
qed

lemma sample_submit_encrypted:
  assumes "enc (byte_string ''k'') = Some x"
  shows "\<exists>r db' hs. Submit (sample_service\<lparr>sv_encryptSecret := Some enc\<rparr>) (calm 5) sample_input sample_clients = (Inr (r, True), db', hs)"
proof -
  let ?s = "sample_service\<lparr>sv_encryptSecret := Some enc\<rparr>"
  have "validateCallback ?s ''h'' ''k'' = None" by (simp add: validateCallback_def sample_service_def)
  moreover have "prepare ?s = prepare sample_service" by (intro ext) (simp add: prepare_def)
  moreover have "Authorize \<lparr>c_ID = ''c'', c_CredentialHash = byte_string ''t'', c_Services = [ServiceImmediate],
        c_TargetPrefixes = [''1''], c_Enabled = True, c_LCSClientType = 1, c_LCSPrivacyCheck = 0\<rparr> ServiceImmediate
        \<lparr>IMSI = [], MSISDN = ''155''\<rparr> = None"
    by (simp add: Authorize_def Value_def)
  ultimately show ?thesis
    using assms by (simp add: Submit_def sample_input_def sample_valid sample_prepare)
      (simp add: submit_one_def CreateRequest_def Let_def calm_def insert_violates_def new_request_def insert_row_def
        sample_clients_def sample_db_def empty_db_def row_by_def sample_client_def attach_callback_def registerCallback_def
        sample_service_def CreateSubscription_def SetRequestSubscription_def)
qed

theorem callback_served_witness:
  "\<exists>w r db1 hs db2 ns db3 req. Submit (sample_service\<lparr>sv_encryptSecret := Some sample_encryptor\<rparr>) (calm 5) sample_input sample_clients
      = (Inr (r, True), db1, hs)
    \<and> one (Some (completionHook (calm 5) 8 (\<lambda>_ _. Some [7]))) (calm 5) (\<lambda>_. False) (\<lambda>_. Inr sample_node) (\<lambda>_ _. Inr sample_positioning) db1
      = (True, db2, ns)
    \<and> Delivery_one w sample_aead (\<lambda>k p. k @ p) \<lparr>hc_valid = (\<lambda>_. True), hc_Do = (\<lambda>_. Some 204)\<rparr> False (calm 5) db2 = (True, db3, [req])
    \<and> hr_URL req = ''h'' \<and> hr_Body req = [7]"
proof -
  from sample_system_built obtain g w where g: "build sample_system (applyDefaults sample_callbacks) = Inr g" "gm_delivery g = Some w"
    "gm_service g = sample_service\<lparr>sv_encryptSecret := Some sample_encryptor\<rparr>" by blast
  have a: "aead_ok (sy_aead sample_system)" "sy_nonce sample_system = Some (replicate 12 0)" "length (replicate 12 0 :: bytes) = NonceSize"
    by (simp_all add: aead_ok_def sample_aead_def sample_system_def NonceSize_def)
  obtain x where "sample_encryptor (byte_string ''k'') = Some x" by (simp add: sample_encryptor_def EncryptSecret_def newGCM_def)
  from sample_submit_encrypted [of sample_encryptor, OF this] obtain r db1 hs where
    s: "Submit (gm_service g) (calm 5) sample_input sample_clients = (Inr (r, True), db1, hs)" unfolding g(3) by blast
  have e: "location_requests sample_clients = []" "deliveries sample_clients = []"
    by (simp_all add: sample_clients_def sample_db_def empty_db_def)
  let ?http = "\<lparr>hc_valid = (\<lambda>_. True), hc_Do = (\<lambda>_. Some 204)\<rparr>" and ?p = "\<lambda>_ _. Inr sample_positioning"
  have p: "pr_Kind sample_positioning \<noteq> NoImmediateResult" "pr_Kind sample_positioning \<noteq> Deferred"
    by (simp_all add: sample_positioning_def)
  from callback_served [where marshal = "\<lambda>_ _. Some [7]" and hmac = "\<lambda>k p. k @ p" and resolver = "\<lambda>_. Inr sample_node" and provider = ?p
      and n = sample_node and out = sample_positioning and http = ?http and ctx = "\<lambda>_. False" and stopped = False,
      OF g(1,2) a sample_clients_inv calm_undisturbed [of 5] calm_undisturbed [of 5] calm_undisturbed [of 5] s]
  obtain db2 ns db3 req where
    "one (Some (completionHook (calm 5) 8 (\<lambda>_ _. Some [7]))) (calm 5) (\<lambda>_. False) (\<lambda>_. Inr sample_node) ?p db1 = (True, db2, ns)"
    "Delivery_one w sample_aead (\<lambda>k p. k @ p) ?http False (calm 5) db2 = (True, db3, [req])" "hr_URL req = ''h''" "hr_Body req = [7]"
    by (auto simp: e p sample_input_def sample_system_def)
  with s show ?thesis unfolding g(3) by blast
qed

end
